(* ===== verification/Prelude.thy ===== *)
theory Prelude
  imports Main "HOL-Library.Word"
begin

unbundle bit_operations_syntax

text \<open>
  Shared ground of the development: Go's bytes, strings, slices, integer conversions,
  error results and panics, the big-endian codec of \<^verbatim>\<open>encoding/binary\<close>, and the list and
  word lemmas the components share.

  Go's \<^verbatim>\<open>int\<close> is the 64-bit one.  Memory allocation always succeeds in the model:
  \<^verbatim>\<open>make([]byte, n)\<close> fails only for a negative \<open>n\<close>.
\<close>

named_theorems result_simps \<open>computing with Go results\<close>
named_theorems codec_simps \<open>big-endian encoding and decoding\<close>

section \<open>Errors, panics and results\<close>

type_synonym byte = "8 word"
type_synonym bytes = "byte list"

text \<open>
  Errors of the \<^verbatim>\<open>io\<close> package; \<open>ErrIO\<close> stands for any other error of an underlying
  stream.  \<open>ErrNoProgress\<close> is only produced when a bounded read loop runs out of
  fuel, which the reader interface of the next theory excludes; \<open>ErrReadOutOfOrder\<close> is the
  error the cpio package's file streams return themselves, and \<open>ErrOS\<close> an error of a system call.
\<close>

datatype os_err = ErrExist | ErrNotExist | Errno nat

datatype io_err = EOF | ErrUnexpectedEOF | ErrShortWrite | ErrNoProgress | ErrReadOutOfOrder | ErrOS os_err | ErrIO nat

datatype go_panic = IndexOutOfRange | SliceOutOfRange | MakeSliceOutOfRange | NilDereference | HashUnavailable

text \<open>One constructor per error value the source creates or passes on.\<close>

datatype go_error =
    NoSuchTagError int               \<comment> \<open>errors.go\<close>
  | IOError io_err                   \<comment> \<open>passed on unchanged\<close>
  | ReadIntroError io_err            \<comment> \<open>error reading RPM header\<close>
  | BadHeaderMagic
  | ReadTableError io_err            \<comment> \<open>error reading RPM header table\<close>
  | ReadDataError io_err             \<comment> \<open>error reading RPM header data\<close>
  | HeaderDigestMismatch             \<comment> \<open>mismatch in signature header\<close>
  | TagTruncated int
  | UnsupportedDataType
  | NotAStringType int int           \<comment> \<open>data type, tag\<close>
  | NotAnIntType int
  | IntValueOutOfRange int int       \<comment> \<open>index, tag\<close>
  | TooBigForInt int
  | NotBytesType int int             \<comment> \<open>data type, tag\<close>
  | ReadLeadError io_err
  | NotAnRpm
  | WrongNumberOfValues
  | InvalidRegionTag
  | InvalidLead
  | SeekWhence                       \<comment> \<open>only seeking from current location supported\<close>
  | BadCpioMagic                     \<comment> \<open>bad magic\<close>
  | BadNumber                        \<comment> \<open>strconv.NumError\<close>
  | ErrStrippedHeader
  | InvalidCpioIndex int
  | InvalidPayloadFile string
  | InvalidPayloadIndex              \<comment> \<open>invalid file index\<close>
  | UnknownPayloadDigest nat         \<comment> \<open>crypto.Hash\<close>
  | PayloadDigestMismatch nat        \<comment> \<open>crypto.Hash\<close>
  | MD5Mismatch
  | NoPayloadDigest                  \<comment> \<open>no usable payload digest found\<close>
  | ErrNoPGPSignature
  | ErrTrailingGarbage
  | KeyNotFoundError "64 word" "bytes option"
  | PGPError nat                     \<comment> \<open>any error of the OpenPGP package\<close>
  | InvalidCpioPath string
  | ShortWrite                       \<comment> \<open>short write\<close>
  | HardlinksMissing
  | UnknownFileMode int string
  | UnknownPayloadFormat string
  | UnknownCompression string
  | DecompressError nat              \<comment> \<open>any error of a decompressor\<close>

datatype 'a result = Ok 'a | Err go_error | Panic go_panic

primrec rbind :: "'a result \<Rightarrow> ('a \<Rightarrow> 'b result) \<Rightarrow> 'b result" where
  "rbind (Ok x) f = f x"
| "rbind (Err e) f = Err e"
| "rbind (Panic p) f = Panic p"

primrec is_Ok :: "'a result \<Rightarrow> bool" where
  "is_Ok (Ok _) = True"
| "is_Ok (Err _) = False"
| "is_Ok (Panic _) = False"

primrec no_panic :: "'a result \<Rightarrow> bool" where
  "no_panic (Ok _) = True"
| "no_panic (Err _) = True"
| "no_panic (Panic _) = False"

lemma rbind_eq_Ok_iff [result_simps]:
  "rbind m f = Ok y \<longleftrightarrow> (\<exists>x. m = Ok x \<and> f x = Ok y)"
  by (cases m) auto

lemma rbind_eq_Err_iff [result_simps]:
  "rbind m f = Err e \<longleftrightarrow> m = Err e \<or> (\<exists>x. m = Ok x \<and> f x = Err e)"
  by (cases m) auto

lemma rbind_eq_Panic_iff [result_simps]:
  "rbind m f = Panic p \<longleftrightarrow> m = Panic p \<or> (\<exists>x. m = Ok x \<and> f x = Panic p)"
  by (cases m) auto

lemma no_panic_rbind [result_simps]:
  "no_panic (rbind m f) \<longleftrightarrow> no_panic m \<and> (\<forall>x. m = Ok x \<longrightarrow> no_panic (f x))"
  by (cases m) auto

lemma no_panic_iff: "no_panic m \<longleftrightarrow> (\<forall>p. m \<noteq> Panic p)"
  by (cases m) auto

lemma rbind_assoc: "rbind (rbind m f) g = rbind m (\<lambda>x. rbind (f x) g)"
  by (cases m) auto

lemma map_result_rbind: "map_result g (rbind m f) = rbind m (\<lambda>x. map_result g (f x))"
  by (cases m) auto

lemma rbind_map_result: "rbind (map_result g m) f = rbind m (\<lambda>x. f (g x))"
  by (cases m) auto

lemma no_panic_map_result [simp]: "no_panic (map_result g m) = no_panic m"
  by (cases m) auto

lemma rbind_Ok_right [simp]: "rbind m Ok = m"
  by (cases m) auto

text \<open>A result together with the state a call leaves behind, whether it succeeded or not.\<close>

definition ebind :: "'a result \<times> 's \<Rightarrow> ('a \<Rightarrow> 's \<Rightarrow> 'b result \<times> 't) \<Rightarrow> ('s \<Rightarrow> 't) \<Rightarrow> 'b result \<times> 't" where
  "ebind m f g = (case m of
      (Ok x, s) \<Rightarrow> f x s
    | (Err e, s) \<Rightarrow> (Err e, g s)
    | (Panic p, s) \<Rightarrow> (Panic p, g s))"

lemma ebind_simps [simp]:
  "ebind (Ok x, s) f g = f x s" "ebind (Err e, s) f g = (Err e, g s)" "ebind (Panic p, s) f g = (Panic p, g s)"
  by (simp_all add: ebind_def)

section \<open>Slices\<close>

text \<open>
  \<^verbatim>\<open>xs[i]\<close> and \<^verbatim>\<open>xs[lo:hi]\<close> with Go's bounds checks.  Every slice the source takes
  a sub-slice of has a capacity equal to its length.
\<close>

definition index :: "'a list \<Rightarrow> int \<Rightarrow> 'a result" where
  "index xs i = (if 0 \<le> i \<and> i < int (length xs) then Ok (xs ! nat i) else Panic IndexOutOfRange)"

definition slice :: "'a list \<Rightarrow> int \<Rightarrow> int \<Rightarrow> 'a list result" where
  "slice xs lo hi =
     (if 0 \<le> lo \<and> lo \<le> hi \<and> hi \<le> int (length xs)
      then Ok (take (nat hi - nat lo) (drop (nat lo) xs))
      else Panic SliceOutOfRange)"

lemma index_Ok_iff [result_simps]:
  "index xs i = Ok x \<longleftrightarrow> 0 \<le> i \<and> i < int (length xs) \<and> x = xs ! nat i"
  by (auto simp: index_def)

lemma index_nat [simp]: "i < length xs \<Longrightarrow> index xs (int i) = Ok (xs ! i)"
  by (simp add: index_def)

lemma index_uint: "unat w < length xs \<Longrightarrow> index xs (uint w) = Ok (xs ! unat w)"
  using index_nat [of "unat w" xs] by simp

lemma index_not_Err [simp]: "index xs i \<noteq> Err e"
  by (simp add: index_def)

lemma no_panic_index [result_simps]: "no_panic (index xs i) \<longleftrightarrow> 0 \<le> i \<and> i < int (length xs)"
  by (simp add: index_def)

lemma slice_Ok_iff [result_simps]:
  "slice xs lo hi = Ok ys \<longleftrightarrow>
     0 \<le> lo \<and> lo \<le> hi \<and> hi \<le> int (length xs) \<and> ys = take (nat hi - nat lo) (drop (nat lo) xs)"
  by (auto simp: slice_def)

lemma slice_not_Err [simp]: "slice xs lo hi \<noteq> Err e"
  by (simp add: slice_def)

lemma no_panic_slice [result_simps]:
  "no_panic (slice xs lo hi) \<longleftrightarrow> 0 \<le> lo \<and> lo \<le> hi \<and> hi \<le> int (length xs)"
  by (simp add: slice_def)

lemma slice_append_mid:
  assumes "length xs = n" "length ys = m"
  shows "slice (xs @ ys @ zs) (int n) (int n + int m) = Ok ys"
  using assms by (auto simp: slice_def nat_add_distrib)

text \<open>\<^verbatim>\<open>bytes.IndexByte\<close> as a natural number: the position of the first \<open>x\<close>.\<close>

fun index_byte :: "'a list \<Rightarrow> 'a \<Rightarrow> nat option" where
  "index_byte [] x = None"
| "index_byte (y # ys) x = (if y = x then Some 0 else map_option Suc (index_byte ys x))"

lemma index_byte_None [simp]: "index_byte xs x = None \<longleftrightarrow> x \<notin> set xs"
  by (induction xs) auto

lemma index_byte_append:
  "x \<notin> set xs \<Longrightarrow> index_byte (xs @ x # ys) x = Some (length xs)"
  by (induction xs) auto

lemma index_byte_Some:
  "index_byte xs x = Some i \<longleftrightarrow>
     (i < length xs \<and> xs ! i = x \<and> x \<notin> set (take i xs))"
proof (induction xs arbitrary: i)
  case (Cons y ys)
  then show ?case by (cases i) auto
qed simp

section \<open>Integers\<close>

text \<open>
  Signed integers are kept as \<^typ>\<open>int\<close>; a conversion to a w-bit signed type wraps.
  \<^verbatim>\<open>/\<close> and \<^verbatim>\<open>%\<close> truncate towards zero.
\<close>

definition to_int32 :: "int \<Rightarrow> int" where
  "to_int32 x = (x + 2 ^ 31) mod 2 ^ 32 - 2 ^ 31"

definition to_int64 :: "int \<Rightarrow> int" where
  "to_int64 x = (x + 2 ^ 63) mod 2 ^ 64 - 2 ^ 63"

definition go_rem :: "int \<Rightarrow> int \<Rightarrow> int" where
  "go_rem a b = sgn a * (\<bar>a\<bar> mod \<bar>b\<bar>)"

definition fits32 :: "int \<Rightarrow> bool" where
  "fits32 x \<longleftrightarrow> - (2 ^ 31) \<le> x \<and> x < 2 ^ 31"

lemma to_int32_fits [simp]: "fits32 x \<Longrightarrow> to_int32 x = x"
  by (simp add: fits32_def to_int32_def)

lemma fits32_to_int32 [simp]: "fits32 (to_int32 x)"
proof -
  have "0 \<le> (x + 2 ^ 31) mod 2 ^ 32" "(x + 2 ^ 31) mod 2 ^ 32 < (2 ^ 32 :: int)" by simp_all
  then show ?thesis by (simp add: fits32_def to_int32_def)
qed

lemma to_int64_id [simp]: "- (2 ^ 63) \<le> x \<Longrightarrow> x < 2 ^ 63 \<Longrightarrow> to_int64 x = x"
  by (simp add: to_int64_def)

lemma go_rem_nonneg [simp]: "0 \<le> a \<Longrightarrow> 0 < b \<Longrightarrow> go_rem a b = a mod b"
  by (cases "a = 0") (simp_all add: go_rem_def)

lemma fits32_sint [simp]: "fits32 (sint (w :: 32 word))"
  using sint_ge [of w] sint_lt [of w] by (simp add: fits32_def)

lemma sint_of_int32 [simp]: "fits32 x \<Longrightarrow> sint (word_of_int x :: 32 word) = x"
  by (simp add: fits32_def sint_sbintrunc' signed_take_bit_int_eq_self)

section \<open>Big-endian codec\<close>

primrec be_encode :: "nat \<Rightarrow> 'a :: len word \<Rightarrow> bytes" where
  "be_encode 0 w = []"
| "be_encode (Suc n) w = ucast (drop_bit (8 * n) w) # be_encode n w"

primrec be_decode :: "bytes \<Rightarrow> 'a :: len word" where
  "be_decode [] = 0"
| "be_decode (b # bs) = push_bit (8 * length bs) (ucast b) OR be_decode bs"

lemma length_be_encode [simp, codec_simps]: "length (be_encode n w) = n"
  by (induction n) auto

lemma bit_be_decode_high: "8 * length bs \<le> k \<Longrightarrow> \<not> bit (be_decode bs :: 'a :: len word) k"
proof (induction bs)
  case (Cons b bs)
  then show ?case
    by (auto simp: bit_or_iff bit_push_bit_iff bit_ucast_iff dest: bit_imp_le_length)
qed simp

lemma bit_be_decode_encode:
  "bit (be_decode (be_encode n w) :: 'a word) k \<longleftrightarrow> k < 8 * n \<and> bit (w :: 'a :: len word) k"
proof (induction n)
  case (Suc n)
  show ?case
  proof (cases "k < 8 * n")
    case True
    with Suc show ?thesis by (auto simp: bit_or_iff bit_push_bit_iff bit_ucast_iff)
  next
    case False
    with Suc show ?thesis
      by (auto simp: bit_or_iff bit_push_bit_iff bit_ucast_iff bit_drop_bit_eq
            dest: bit_imp_le_length)
  qed
qed simp

lemma be_decode_encode [codec_simps]:
  assumes "LENGTH('a) \<le> 8 * n"
  shows "be_decode (be_encode n w) = (w :: 'a :: len word)"
  using assms by (intro bit_word_eqI) (auto simp: bit_be_decode_encode)

lemma be_encode_decode_general:
  assumes "8 * length bs \<le> LENGTH('a :: len)"
  shows "be_encode (length bs) (push_bit (8 * length bs) x OR be_decode bs :: 'a word) = bs"
  using assms
proof (induction bs arbitrary: x)
  case (Cons b bs)
  let ?n = "length bs"
  have eq: "push_bit (8 * length (b # bs)) x OR be_decode (b # bs)
      = push_bit (8 * ?n) (push_bit 8 x OR ucast b) OR (be_decode bs :: 'a word)"
    by (rule bit_word_eqI) (auto simp: bit_or_iff bit_push_bit_iff bit_ucast_iff add.commute [of 8])
  have hd: "ucast (drop_bit (8 * ?n) (push_bit (8 * ?n) (push_bit 8 x OR ucast b) OR (be_decode bs :: 'a word))) = b"
    using Cons.prems
    by (intro bit_word_eqI)
       (auto simp: bit_or_iff bit_push_bit_iff bit_ucast_iff bit_drop_bit_eq bit_be_decode_high)
  have tl: "be_encode ?n (push_bit (8 * ?n) (push_bit 8 x OR ucast b) OR (be_decode bs :: 'a word)) = bs"
    using Cons.prems by (intro Cons.IH) simp
  have "be_encode (length (b # bs)) w = ucast (drop_bit (8 * ?n) w) # be_encode ?n w" for w :: "'a word"
    by simp
  then show ?case by (simp only: eq hd tl)
qed simp

lemma be_encode_decode [codec_simps]:
  "8 * length bs \<le> LENGTH('a :: len) \<Longrightarrow> be_encode (length bs) (be_decode bs :: 'a word) = bs"
  using be_encode_decode_general [of bs 0] by simp

text \<open>\<^verbatim>\<open>binary.Read\<close> into a slice of \<open>k\<close> elements of \<open>n\<close> bytes each.\<close>

primrec be_array :: "nat \<Rightarrow> nat \<Rightarrow> bytes \<Rightarrow> 'a :: len word list" where
  "be_array n 0 bs = []"
| "be_array n (Suc k) bs = be_decode (take n bs) # be_array n k (drop n bs)"

lemma length_be_array [simp]: "length (be_array n k bs) = k"
  by (induction k arbitrary: bs) auto

lemma be_array_concat [codec_simps]:
  assumes "LENGTH('a) \<le> 8 * n"
  shows "be_array n (length ws) (concat (map (be_encode n) ws) @ rest) = (ws :: 'a :: len word list)"
  using assms by (induction ws) (auto simp: be_decode_encode)

section \<open>Strings\<close>

text \<open>A Go string is a sequence of bytes; \<^typ>\<open>string\<close> is used for its literals.\<close>

definition string_of_bytes :: "bytes \<Rightarrow> string" where
  "string_of_bytes bs = map (\<lambda>b. char_of (unat b)) bs"

definition bytes_of_string :: "string \<Rightarrow> bytes" where
  "bytes_of_string s = map (\<lambda>c. word_of_nat (of_char c)) s"

lemma char_byte [simp]: "char_of (unat (word_of_nat (of_char c) :: byte)) = c"
  by (simp add: unat_of_nat)

lemma byte_mod_256 [simp]: "(word_of_nat (unat (b :: byte) mod 256) :: byte) = b"
proof -
  have "unat b < 256" using unsigned_less [of b, where ?'a = nat] by simp
  then show ?thesis by simp
qed

lemma string_of_bytes_of_string [simp]: "string_of_bytes (bytes_of_string s) = s"
  by (induction s) (simp_all add: string_of_bytes_def bytes_of_string_def)

lemma bytes_of_string_of_bytes [simp]: "bytes_of_string (string_of_bytes bs) = bs"
  by (induction bs) (simp_all add: string_of_bytes_def bytes_of_string_def)

lemma length_string_of_bytes [simp]: "length (string_of_bytes bs) = length bs"
  by (simp add: string_of_bytes_def)

lemma length_bytes_of_string [simp]: "length (bytes_of_string s) = length s"
  by (simp add: bytes_of_string_def)

text \<open>\<^verbatim>\<open>strings.Split\<close> on a one-byte separator.\<close>

fun split_on :: "'a \<Rightarrow> 'a list \<Rightarrow> 'a list list" where
  "split_on x [] = [[]]"
| "split_on x (y # ys) =
     (if y = x then [] # split_on x ys
      else (case split_on x ys of [] \<Rightarrow> [[y]] | zs # zss \<Rightarrow> (y # zs) # zss))"

lemma split_on_not_Nil [simp]: "split_on x xs \<noteq> []"
  by (induction xs) (auto split: list.splits)

lemma length_split_on: "length (split_on x xs) = Suc (count_list xs x)"
  by (induction xs) (auto split: list.splits)

lemma split_on_append:
  "x \<notin> set xs \<Longrightarrow> split_on x (xs @ x # ys) = xs # split_on x ys"
  by (induction xs) auto

lemma split_on_no_sep: "x \<notin> set xs \<Longrightarrow> split_on x xs = [xs]"
  by (induction xs) auto

end
