(* ===== verification/Go_IO.thy ===== *)
theory Go_IO
  imports Prelude
begin

text \<open>
  Go's \<^verbatim>\<open>io.Reader\<close> interface as a locale, the loops \<^verbatim>\<open>io.ReadFull\<close> and \<^verbatim>\<open>io.Copy\<close>
  over any reader, and the readers of the standard library the program uses.

  A stream delivers finitely many bytes, in pieces of any size, and then an error
  (\<open>EOF\<close> for a complete file).  The locale says what a caller of \<^verbatim>\<open>Read\<close> may
  rely on; its lemmas show that \<open>ReadFull\<close> and \<open>Copy\<close> depend only on the bytes that
  are left, never on how the stream cuts them into pieces, and that they finish.
\<close>

type_synonym 's read_op = "'s \<Rightarrow> nat \<Rightarrow> (bytes \<times> io_err option) \<times> 's"

section \<open>Read loops\<close>

text \<open>
  \<open>ReadAtLeast\<close> is the loop of \<^verbatim>\<open>io.ReadAtLeast\<close> with \<open>min = len(buf)\<close>: \<open>m\<close> is the length
  of the buffer and \<open>acc\<close> its filled part.  The first number is fuel.
\<close>

primrec ReadAtLeast :: "'s read_op \<Rightarrow> nat \<Rightarrow> 's \<Rightarrow> nat \<Rightarrow> bytes \<Rightarrow> (bytes \<times> io_err option) \<times> 's" where
  "ReadAtLeast read 0 s m acc = ((acc, if length acc < m then Some ErrNoProgress else None), s)"
| "ReadAtLeast read (Suc k) s m acc =
     (if length acc < m
      then (case read s (m - length acc) of
              ((bs, None), s') \<Rightarrow> ReadAtLeast read k s' m (acc @ bs)
            | ((bs, Some e), s') \<Rightarrow>
                ((acc @ bs, if m \<le> length (acc @ bs) then None
                            else if acc @ bs \<noteq> [] \<and> e = EOF then Some ErrUnexpectedEOF
                            else Some e), s'))
      else ((acc, None), s))"

definition ReadFull :: "'s read_op \<Rightarrow> ('s \<Rightarrow> nat) \<Rightarrow> 's \<Rightarrow> nat \<Rightarrow> (bytes \<times> io_err option) \<times> 's" where
  "ReadFull read steps s m = ReadAtLeast read (Suc (steps s)) s m []"

text \<open>\<^verbatim>\<open>io.Copy\<close>: what is written to the destination, and the error it returns.\<close>

primrec CopyLoop :: "'s read_op \<Rightarrow> nat \<Rightarrow> nat \<Rightarrow> 's \<Rightarrow> bytes \<Rightarrow> (bytes \<times> io_err option) \<times> 's" where
  "CopyLoop read bufsize 0 s acc = ((acc, Some ErrNoProgress), s)"
| "CopyLoop read bufsize (Suc k) s acc =
     (case read s bufsize of
        ((bs, None), s') \<Rightarrow> CopyLoop read bufsize k s' (acc @ bs)
      | ((bs, Some e), s') \<Rightarrow> ((acc @ bs, if e = EOF then None else Some e), s'))"

definition Copy :: "'s read_op \<Rightarrow> ('s \<Rightarrow> nat) \<Rightarrow> 's \<Rightarrow> (bytes \<times> io_err option) \<times> 's" where
  "Copy read steps s = CopyLoop read 32768 (Suc (steps s)) s []"

text \<open>The error of a read that wanted more than was left.\<close>

definition short_err :: "bytes \<Rightarrow> io_err \<Rightarrow> io_err" where
  "short_err bs e = (if bs \<noteq> [] \<and> e = EOF then ErrUnexpectedEOF else e)"

lemma ReadAtLeast_extends:
  "ReadAtLeast read fuel s m acc = ((bs, e), s') \<Longrightarrow> \<exists>ds. bs = acc @ ds"
proof (induction fuel arbitrary: s acc)
  case (Suc k)
  show ?case
  proof (cases "length acc < m")
    case True
    obtain cs e' s1 where rd: "read s (m - length acc) = ((cs, e'), s1)" by (metis prod.collapse)
    show ?thesis
    proof (cases e')
      case None
      with Suc.prems rd True have "ReadAtLeast read k s1 m (acc @ cs) = ((bs, e), s')" by simp
      from Suc.IH [OF this] show ?thesis by auto
    next
      case (Some err)
      with Suc.prems rd True show ?thesis by auto
    qed
  next
    case False
    with Suc.prems show ?thesis by auto
  qed
qed simp

section \<open>The reader interface\<close>

locale io_reader =
  fixes read :: "'s \<Rightarrow> nat \<Rightarrow> (bytes \<times> io_err option) \<times> 's"
    and pending :: "'s \<Rightarrow> bytes"
    and final :: "'s \<Rightarrow> io_err"
    and steps :: "'s \<Rightarrow> nat"
    and invar :: "'s \<Rightarrow> bool"
  assumes read_invar: "invar s \<Longrightarrow> read s n = ((bs, e), s') \<Longrightarrow> invar s'"
    and read_split: "invar s \<Longrightarrow> read s n = ((bs, e), s') \<Longrightarrow> pending s = bs @ pending s'"
    and read_le: "invar s \<Longrightarrow> read s n = ((bs, e), s') \<Longrightarrow> length bs \<le> n"
    and read_final: "invar s \<Longrightarrow> read s n = ((bs, e), s') \<Longrightarrow> final s' = final s"
    and read_err: "invar s \<Longrightarrow> read s n = ((bs, Some err), s') \<Longrightarrow> pending s' = [] \<and> err = final s"
    and read_steps: "invar s \<Longrightarrow> read s n = ((bs, None), s') \<Longrightarrow> 0 < n \<Longrightarrow> steps s' < steps s"
begin

lemma ReadAtLeast_spec:
  assumes "invar s" and "steps s < fuel" and "length acc \<le> m"
  shows "\<exists>s'. ReadAtLeast read fuel s m acc =
          (if m - length acc \<le> length (pending s)
           then ((acc @ take (m - length acc) (pending s), None), s')
           else ((acc @ pending s, Some (short_err (acc @ pending s) (final s))), s'))
        \<and> pending s' = drop (m - length acc) (pending s) \<and> final s' = final s \<and> invar s'"
  using assms
proof (induction fuel arbitrary: s acc)
  case (Suc k)
  show ?case
  proof (cases "length acc < m")
    case more: True
    obtain bs e s' where rd: "read s (m - length acc) = ((bs, e), s')" by (metis prod.collapse)
    note laws = read_split [OF Suc.prems(1) rd] read_le [OF Suc.prems(1) rd] read_final [OF Suc.prems(1) rd]
      read_invar [OF Suc.prems(1) rd]
    show ?thesis
    proof (cases e)
      case None
      have "steps s' < k" using read_steps rd None more Suc.prems by fastforce
      then have "\<exists>s''. ReadAtLeast read k s' m (acc @ bs) =
          (if m - length (acc @ bs) \<le> length (pending s')
           then (((acc @ bs) @ take (m - length (acc @ bs)) (pending s'), None), s'')
           else (((acc @ bs) @ pending s', Some (short_err ((acc @ bs) @ pending s') (final s'))), s''))
          \<and> pending s'' = drop (m - length (acc @ bs)) (pending s') \<and> final s'' = final s' \<and> invar s''"
        using laws more by (intro Suc.IH) auto
      then obtain s'' where IH:
        "ReadAtLeast read k s' m (acc @ bs) =
          (if m - length (acc @ bs) \<le> length (pending s')
           then (((acc @ bs) @ take (m - length (acc @ bs)) (pending s'), None), s'')
           else (((acc @ bs) @ pending s', Some (short_err ((acc @ bs) @ pending s') (final s'))), s''))"
        "pending s'' = drop (m - length (acc @ bs)) (pending s')" "final s'' = final s'" "invar s''"
        by blast
      have step: "ReadAtLeast read (Suc k) s m acc = ReadAtLeast read k s' m (acc @ bs)"
        using more rd None by simp
      show ?thesis
        unfolding step using IH laws more by (intro exI [of _ s'']) auto
    next
      case (Some err)
      have err: "pending s' = []" "err = final s" using read_err [OF Suc.prems(1)] rd Some by auto
      show ?thesis
        using more rd Some err laws
        by (intro exI [of _ s']) (auto simp: short_err_def)
    qed
  next
    case False
    then show ?thesis using Suc.prems by (intro exI [of _ s]) auto
  qed
qed simp

lemma ReadFull_spec:
  "invar s \<Longrightarrow> \<exists>s'. ReadFull read steps s m =
      (if m \<le> length (pending s) then ((take m (pending s), None), s')
       else ((pending s, Some (short_err (pending s) (final s))), s'))
    \<and> pending s' = drop m (pending s) \<and> final s' = final s \<and> invar s'"
  using ReadAtLeast_spec [of s "Suc (steps s)" "[]" m]
  by (simp add: ReadFull_def del: ReadAtLeast.simps split del: if_split cong: if_cong)

lemma CopyLoop_spec:
  assumes "invar s" and "steps s < fuel" and "0 < bufsize"
  shows "\<exists>s'. CopyLoop read bufsize fuel s acc =
           ((acc @ pending s, if final s = EOF then None else Some (final s)), s')
        \<and> pending s' = [] \<and> final s' = final s \<and> invar s'"
  using assms(1,2)
proof (induction fuel arbitrary: s acc)
  case (Suc k)
  obtain bs e s' where rd: "read s bufsize = ((bs, e), s')" by (metis prod.collapse)
  note laws = read_split [OF Suc.prems(1) rd] read_final [OF Suc.prems(1) rd] read_invar [OF Suc.prems(1) rd]
  show ?case
  proof (cases e)
    case None
    have "steps s' < k" using read_steps rd None assms(3) Suc.prems by fastforce
    from Suc.IH [OF laws(3) this, of "acc @ bs"] show ?thesis
      using rd None laws by auto
  next
    case (Some err)
    then show ?thesis using rd read_err [OF Suc.prems(1), of bufsize bs err s'] laws
      by (intro exI [of _ s']) auto
  qed
qed simp

lemma Copy_spec:
  "invar s \<Longrightarrow> \<exists>s'. Copy read steps s = ((pending s, if final s = EOF then None else Some (final s)), s')
      \<and> pending s' = [] \<and> final s' = final s \<and> invar s'"
  using CopyLoop_spec [of s "Suc (steps s)" 32768 "[]"]
  by (simp add: Copy_def del: CopyLoop.simps)

end

section \<open>Copying to a writer\<close>

type_synonym 'w write_op = "'w \<Rightarrow> bytes \<Rightarrow> io_err option \<times> 'w"

text \<open>\<^verbatim>\<open>io.Copy\<close> from a reader to a writer, piece by piece; the second number is fuel.\<close>

primrec CopyTo :: "'s read_op \<Rightarrow> 'w write_op \<Rightarrow> nat \<Rightarrow> nat \<Rightarrow> 's \<Rightarrow> 'w \<Rightarrow> io_err option \<times> 's \<times> 'w" where
  "CopyTo read write bufsize 0 s w = (Some ErrNoProgress, s, w)"
| "CopyTo read write bufsize (Suc k) s w =
     (case read s bufsize of
        ((bs, e), s') \<Rightarrow>
          (case (if bs = [] then (None, w) else write w bs) of
             (Some we, w') \<Rightarrow> (Some we, s', w')
           | (None, w') \<Rightarrow>
               (case e of
                  None \<Rightarrow> CopyTo read write bufsize k s' w'
                | Some er \<Rightarrow> (if er = EOF then None else Some er, s', w'))))"

lemma CopyTo_invariant:
  assumes "\<And>s n bs e s'. P s \<Longrightarrow> read s n = ((bs, e), s') \<Longrightarrow> P s'" and "\<And>w bs. Q w \<Longrightarrow> Q (snd (write w bs))"
  shows "CopyTo read write bufsize fuel s w = (e, s', w') \<Longrightarrow> P s \<Longrightarrow> Q w \<Longrightarrow> P s' \<and> Q w'"
proof (induction fuel arbitrary: s w)
  case (Suc k)
  obtain bs er s1 where rd: "read s bufsize = ((bs, er), s1)" by (metis prod.collapse)
  obtain we w1 where wr: "(if bs = [] then (None, w) else write w bs) = (we, w1)" by (metis prod.collapse)
  have "Q w1" using assms(2) [OF Suc.prems(3), of bs] Suc.prems(3) wr by (auto split: if_splits)
  moreover have "P s1" by (rule assms(1) [OF Suc.prems(2) rd])
  ultimately show ?case using Suc.IH Suc.prems(1) rd wr by (auto split: option.splits)
qed simp

text \<open>A copy to a writer that does not fail: the pieces it writes are what the reader has left.\<close>

context io_reader
begin

lemma CopyTo_pieces:
  assumes "invar s" "steps s < fuel" "0 < bufsize" "\<And>w bs. fst (write w bs) = None"
  shows "\<exists>s' cs. CopyTo read write bufsize fuel s w =
       (if final s = EOF then None else Some (final s), s', foldl (\<lambda>w bs. snd (write w bs)) w cs)
     \<and> concat cs = pending s \<and> [] \<notin> set cs"
  using assms(1,2)
proof (induction fuel arbitrary: s w)
  case (Suc k)
  obtain bs e s1 where rd: "read s bufsize = ((bs, e), s1)" by (metis prod.collapse)
  note laws = read_split [OF Suc.prems(1) rd] read_final [OF Suc.prems(1) rd] read_invar [OF Suc.prems(1) rd]
  let ?cs = "if bs = [] then [] else [bs]"
  have w: "(if bs = [] then (None, w) else write w bs) = (None, foldl (\<lambda>w bs. snd (write w bs)) w ?cs)"
    using assms(4) [of w bs] by (cases "write w bs") auto
  have cs: "concat ?cs = bs" "[] \<notin> set ?cs" by auto
  show ?case
  proof (cases e)
    case None
    have "steps s1 < k" using read_steps [OF Suc.prems(1) rd [unfolded None] assms(3)] Suc.prems(2) by simp
    from Suc.IH [OF laws(3) this, of "foldl (\<lambda>w bs. snd (write w bs)) w ?cs"] obtain s' cs where IH:
      "CopyTo read write bufsize k s1 (foldl (\<lambda>w bs. snd (write w bs)) w ?cs) =
         (if final s1 = EOF then None else Some (final s1), s', foldl (\<lambda>w bs. snd (write w bs)) w (?cs @ cs))"
      "concat cs = pending s1" "[] \<notin> set cs" by auto
    show ?thesis
      by (rule exI [of _ s'], rule exI [of _ "?cs @ cs"]) (use IH rd None laws w cs in \<open>simp add: w\<close>)
  next
    case (Some err)
    show ?thesis
      by (rule exI [of _ s1], rule exI [of _ ?cs])
         (use rd Some read_err [OF Suc.prems(1) rd [unfolded Some]] laws w cs in \<open>simp add: w\<close>)
  qed
qed simp

end

section \<open>Readers that keep account\<close>

text \<open>
  A reader that also keeps account of the bytes it has delivered: a log of them
  (\<^verbatim>\<open>io.TeeReader\<close>) or their number (the cpio package's \<open>countingReader\<close>).
\<close>

locale tracked_reader = io_reader +
  fixes track :: "'s \<Rightarrow> 't"
    and upd :: "'t \<Rightarrow> bytes \<Rightarrow> 't"
  assumes upd_Nil: "upd t [] = t"
    and upd_append: "upd t (xs @ ys) = upd (upd t xs) ys"
    and read_track: "read s n = ((bs, e), s') \<Longrightarrow> track s' = upd (track s) bs"
begin

lemma ReadAtLeast_track:
  "ReadAtLeast read fuel s m acc = ((acc @ bs, e), s') \<Longrightarrow> track s' = upd (track s) bs"
proof (induction fuel arbitrary: s acc bs)
  case 0
  then show ?case by (auto simp: upd_Nil)
next
  case (Suc k)
  show ?case
  proof (cases "length acc < m")
    case more: True
    obtain cs e' s1 where rd: "read s (m - length acc) = ((cs, e'), s1)" by (metis prod.collapse)
    note tr = read_track [OF rd]
    show ?thesis
    proof (cases e')
      case None
      with Suc.prems rd more have rest: "ReadAtLeast read k s1 m (acc @ cs) = ((acc @ bs, e), s')"
        by simp
      have "\<exists>ds. acc @ bs = (acc @ cs) @ ds"
        using rest by (rule ReadAtLeast_extends)
      then obtain ds where ds: "bs = cs @ ds" by auto
      with rest have "ReadAtLeast read k s1 m (acc @ cs) = (((acc @ cs) @ ds, e), s')" by simp
      from Suc.IH [OF this] show ?thesis using tr ds by (simp add: upd_append)
    next
      case (Some err)
      with Suc.prems rd more tr show ?thesis by auto
    qed
  next
    case False
    with Suc.prems show ?thesis by (auto simp: upd_Nil)
  qed
qed

lemma ReadFull_track:
  "ReadFull read steps s m = ((bs, e), s') \<Longrightarrow> track s' = upd (track s) bs"
  using ReadAtLeast_track [of "Suc (steps s)" s m "[]" bs] by (simp add: ReadFull_def)

text \<open>What is left after a \<open>ReadFull\<close>, in one equation.\<close>

lemma ReadFull_all:
  assumes "invar s"
  obtains s' where "ReadFull read steps s m =
      (if m \<le> length (pending s) then ((take m (pending s), None), s')
       else ((pending s, Some (short_err (pending s) (final s))), s'))"
    and "pending s' = drop m (pending s)" "final s' = final s" "invar s'"
    and "track s' = upd (track s) (take m (pending s))"
proof -
  obtain s' where s': "ReadFull read steps s m =
      (if m \<le> length (pending s) then ((take m (pending s), None), s')
       else ((pending s, Some (short_err (pending s) (final s))), s'))"
    "pending s' = drop m (pending s)" "final s' = final s" "invar s'"
    using ReadFull_spec [OF assms, of m] by blast
  moreover have "track s' = upd (track s) (take m (pending s))"
    using ReadFull_track [of s m _ _ s'] s'(1) by (cases "m \<le> length (pending s)") auto
  ultimately show thesis by (rule that)
qed

end

section \<open>A stream that delivers its bytes in pieces\<close>

text \<open>
  The stream behind every reader of the program: the pieces successive \<^verbatim>\<open>Read\<close> calls
  deliver (a piece longer than the buffer is continued by the next call), the error
  after the last of them, and whether that error comes together with the last bytes.
\<close>

record reader =
  rd_chunks :: "bytes list"
  rd_fin :: io_err
  rd_eager :: bool

definition reader_Read :: "reader \<Rightarrow> nat \<Rightarrow> (bytes \<times> io_err option) \<times> reader" where
  "reader_Read r n =
     (case rd_chunks r of
        [] \<Rightarrow> (([], Some (rd_fin r)), r)
      | c # cs \<Rightarrow>
          if length c \<le> n
          then ((c, if cs = [] \<and> rd_eager r then Some (rd_fin r) else None), r\<lparr>rd_chunks := cs\<rparr>)
          else ((take n c, None), r\<lparr>rd_chunks := drop n c # cs\<rparr>))"

definition reader_pending :: "reader \<Rightarrow> bytes" where
  "reader_pending r = concat (rd_chunks r)"

definition reader_steps :: "reader \<Rightarrow> nat" where
  "reader_steps r = length (concat (rd_chunks r)) + length (rd_chunks r)"

interpretation rd: io_reader reader_Read reader_pending rd_fin reader_steps "\<lambda>_. True"
  by unfold_locales
     (auto simp: reader_Read_def reader_pending_def reader_steps_def split: list.splits if_splits)

definition reader_ReadFull :: "reader \<Rightarrow> nat \<Rightarrow> (bytes \<times> io_err option) \<times> reader" where
  "reader_ReadFull = ReadFull reader_Read reader_steps"

definition reader_Copy :: "reader \<Rightarrow> (bytes \<times> io_err option) \<times> reader" where
  "reader_Copy = Copy reader_Read reader_steps"

text \<open>
  Where the pieces of a stream end, by the number of bytes still to come; reading makes no new ends, as a
  piece that is read in part keeps its end.
\<close>

primrec cuts :: "bytes list \<Rightarrow> nat list" where
  "cuts [] = []"
| "cuts (c # cs) = length (concat cs) # cuts cs"

definition cut_at :: "nat set \<Rightarrow> reader \<Rightarrow> bool" where
  "cut_at B r \<longleftrightarrow> [] \<notin> set (rd_chunks r) \<and> set (cuts (rd_chunks r)) \<subseteq> B"

lemma reader_Read_cut_at: "cut_at B r \<Longrightarrow> cut_at B (snd (reader_Read r n))"
  by (auto simp: cut_at_def reader_Read_def split: list.splits)

lemma ReadAtLeast_keeps:
  assumes "\<And>s n. P s \<Longrightarrow> P (snd (read s n))"
  shows "P s \<Longrightarrow> P (snd (ReadAtLeast read fuel s m acc))"
proof (induction fuel arbitrary: s acc)
  case (Suc k)
  obtain bs e s1 where rd: "read s (m - length acc) = ((bs, e), s1)" by (metis prod.collapse)
  then have "P s1" using assms [OF Suc.prems, of "m - length acc"] by simp
  then show ?case using Suc rd by (cases e) auto
qed simp

lemma ReadFull_keeps: "(\<And>s n. P s \<Longrightarrow> P (snd (read s n))) \<Longrightarrow> P s \<Longrightarrow> P (snd (ReadFull read steps s m))"
  unfolding ReadFull_def by (rule ReadAtLeast_keeps)

text \<open>What is left of the stream after a \<open>ReadFull\<close> or \<open>Copy\<close>, as equations.\<close>

definition reader_after :: "reader \<Rightarrow> nat \<Rightarrow> reader" where
  "reader_after r m = snd (reader_ReadFull r m)"

lemma reader_ReadFull_eq:
  "reader_ReadFull r m =
     (if m \<le> length (reader_pending r) then ((take m (reader_pending r), None), reader_after r m)
      else ((reader_pending r, Some (short_err (reader_pending r) (rd_fin r))), reader_after r m))"
  using rd.ReadFull_spec [of r m] by (auto simp: reader_after_def reader_ReadFull_def)

lemma reader_after_simps [simp]:
  "reader_pending (reader_after r m) = drop m (reader_pending r)"
  "rd_fin (reader_after r m) = rd_fin r"
  using rd.ReadFull_spec [of r m] by (auto simp: reader_after_def reader_ReadFull_def split: if_splits)

lemma reader_Copy_eq:
  "fst (reader_Copy r) = (reader_pending r, if rd_fin r = EOF then None else Some (rd_fin r))"
  using rd.Copy_spec [of r] by (auto simp: reader_Copy_def)

text \<open>A complete file that is read without fragmentation.\<close>

definition reader_of :: "bytes \<Rightarrow> reader" where
  "reader_of bs = \<lparr>rd_chunks = [bs], rd_fin = EOF, rd_eager = False\<rparr>"

lemma reader_of_simps [simp]:
  "reader_pending (reader_of bs) = bs" "rd_fin (reader_of bs) = EOF"
  by (simp_all add: reader_of_def reader_pending_def)

section \<open>\<^verbatim>\<open>io.TeeReader\<close>\<close>

record tee =
  tee_src :: reader
  tee_buf :: bytes

definition tee_Read :: "tee \<Rightarrow> nat \<Rightarrow> (bytes \<times> io_err option) \<times> tee" where
  "tee_Read t n =
     (case reader_Read (tee_src t) n of
        ((bs, e), r') \<Rightarrow> ((bs, e), \<lparr>tee_src = r', tee_buf = tee_buf t @ bs\<rparr>))"

abbreviation "tee_pending t \<equiv> reader_pending (tee_src t)"
abbreviation "tee_fin t \<equiv> rd_fin (tee_src t)"
abbreviation "tee_steps t \<equiv> reader_steps (tee_src t)"

lemma tee_Read_src:
  "tee_Read t n = ((bs, e), t') \<Longrightarrow> reader_Read (tee_src t) n = ((bs, e), tee_src t')"
  by (auto simp: tee_Read_def split: prod.splits)

interpretation tee: tracked_reader tee_Read "\<lambda>t. tee_pending t" "\<lambda>t. tee_fin t" "\<lambda>t. tee_steps t"
  "\<lambda>_. True" tee_buf "(@)"
proof unfold_locales
  fix s n bs e s'
  assume "tee_Read s n = ((bs, e), s')"
  note src = tee_Read_src [OF this]
  show "tee_pending s = bs @ tee_pending s'" by (rule rd.read_split [OF TrueI src])
  show "length bs \<le> n" by (rule rd.read_le [OF TrueI src])
  show "tee_fin s' = tee_fin s" by (rule rd.read_final [OF TrueI src])
next
  fix s n bs e s'
  assume "tee_Read s n = ((bs, Some e), s')"
  then show "tee_pending s' = [] \<and> e = tee_fin s"
    by (rule rd.read_err [OF TrueI tee_Read_src])
next
  fix s n bs s'
  assume "tee_Read s n = ((bs, None), s')" and "0 < n"
  then show "tee_steps s' < tee_steps s"
    by (rule rd.read_steps [OF TrueI tee_Read_src])
next
  fix s n bs e s'
  assume "tee_Read s n = ((bs, e), s')"
  then show "tee_buf s' = tee_buf s @ bs"
    by (auto simp: tee_Read_def split: prod.splits)
qed simp_all

definition tee_ReadFull :: "tee \<Rightarrow> nat \<Rightarrow> (bytes \<times> io_err option) \<times> tee" where
  "tee_ReadFull = ReadFull tee_Read (\<lambda>t. tee_steps t)"

text \<open>What is left of the stream after a \<open>ReadFull\<close>, as equations.\<close>

definition tee_after :: "tee \<Rightarrow> nat \<Rightarrow> tee" where
  "tee_after t m = snd (tee_ReadFull t m)"

lemma tee_ReadFull_eq:
  "tee_ReadFull t m =
     (if m \<le> length (tee_pending t) then ((take m (tee_pending t), None), tee_after t m)
      else ((tee_pending t, Some (short_err (tee_pending t) (tee_fin t))), tee_after t m))"
  using tee.ReadFull_spec [of t m] by (auto simp: tee_after_def tee_ReadFull_def)

lemma tee_after_simps [simp]:
  "tee_pending (tee_after t m) = drop m (tee_pending t)"
  "tee_fin (tee_after t m) = tee_fin t"
  "tee_buf (tee_after t m) = tee_buf t @ take m (tee_pending t)"
  by (rule tee.ReadFull_all [OF TrueI, of t m]; simp add: tee_after_def tee_ReadFull_def)+

end
