(* ===== verification/Tags.thy ===== *)
theory Tags
  imports Prelude
begin

text \<open>
  The constants of \<^verbatim>\<open>tags.go\<close>: data types of header entries, tags of the general and of
  the signature header, region tags and digest algorithms.  A constant the program uses
  is an abbreviation; the two tables list every tag name of the two header areas.
\<close>

section \<open>Data types of header entries\<close>

abbreviation (input) RPM_NULL_TYPE :: int where "RPM_NULL_TYPE \<equiv> 0"
abbreviation (input) RPM_CHAR_TYPE :: int where "RPM_CHAR_TYPE \<equiv> 1"
abbreviation (input) RPM_INT8_TYPE :: int where "RPM_INT8_TYPE \<equiv> 2"
abbreviation (input) RPM_INT16_TYPE :: int where "RPM_INT16_TYPE \<equiv> 3"
abbreviation (input) RPM_INT32_TYPE :: int where "RPM_INT32_TYPE \<equiv> 4"
abbreviation (input) RPM_INT64_TYPE :: int where "RPM_INT64_TYPE \<equiv> 5"
abbreviation (input) RPM_STRING_TYPE :: int where "RPM_STRING_TYPE \<equiv> 6"
abbreviation (input) RPM_BIN_TYPE :: int where "RPM_BIN_TYPE \<equiv> 7"
abbreviation (input) RPM_STRING_ARRAY_TYPE :: int where "RPM_STRING_ARRAY_TYPE \<equiv> 8"
abbreviation (input) RPM_I18NSTRING_TYPE :: int where "RPM_I18NSTRING_TYPE \<equiv> 9"

section \<open>Tags\<close>

abbreviation (input) GENERAL_TAG_BASE :: int where "GENERAL_TAG_BASE \<equiv> 1000"
abbreviation (input) SIGHEADER_TAG_BASE :: int where "SIGHEADER_TAG_BASE \<equiv> 16384"

abbreviation (input) NAME :: int where "NAME \<equiv> 1000"
abbreviation (input) VERSION :: int where "VERSION \<equiv> 1001"
abbreviation (input) RELEASE :: int where "RELEASE \<equiv> 1002"
abbreviation (input) EPOCH :: int where "EPOCH \<equiv> 1003"
abbreviation (input) ARCH :: int where "ARCH \<equiv> 1022"
abbreviation (input) SIZE :: int where "SIZE \<equiv> 1009"
abbreviation (input) OLDFILENAMES :: int where "OLDFILENAMES \<equiv> 1027"
abbreviation (input) FILESIZES :: int where "FILESIZES \<equiv> 1028"
abbreviation (input) FILEMODES :: int where "FILEMODES \<equiv> 1030"
abbreviation (input) FILEMTIMES :: int where "FILEMTIMES \<equiv> 1034"
abbreviation (input) FILEDIGESTS :: int where "FILEDIGESTS \<equiv> 1035"
abbreviation (input) FILELINKTOS :: int where "FILELINKTOS \<equiv> 1036"
abbreviation (input) FILEFLAGS :: int where "FILEFLAGS \<equiv> 1037"
abbreviation (input) FILEUSERNAME :: int where "FILEUSERNAME \<equiv> 1039"
abbreviation (input) FILEGROUPNAME :: int where "FILEGROUPNAME \<equiv> 1040"
abbreviation (input) FILEDEVICES :: int where "FILEDEVICES \<equiv> 1095"
abbreviation (input) FILEINODES :: int where "FILEINODES \<equiv> 1096"
abbreviation (input) DIRINDEXES :: int where "DIRINDEXES \<equiv> 1116"
abbreviation (input) BASENAMES :: int where "BASENAMES \<equiv> 1117"
abbreviation (input) DIRNAMES :: int where "DIRNAMES \<equiv> 1118"
abbreviation (input) PAYLOADFORMAT :: int where "PAYLOADFORMAT \<equiv> 1124"
abbreviation (input) PAYLOADCOMPRESSOR :: int where "PAYLOADCOMPRESSOR \<equiv> 1125"
abbreviation (input) LONGFILESIZES :: int where "LONGFILESIZES \<equiv> 5008"
abbreviation (input) LONGSIZE :: int where "LONGSIZE \<equiv> 5009"
abbreviation (input) PAYLOADDIGEST :: int where "PAYLOADDIGEST \<equiv> 5092"
abbreviation (input) PAYLOADDIGESTALGO :: int where "PAYLOADDIGESTALGO \<equiv> 5093"

abbreviation (input) SIG_BASE :: int where "SIG_BASE \<equiv> 256"
abbreviation (input) SIG_DSA :: int where "SIG_DSA \<equiv> 267"
abbreviation (input) SIG_RSA :: int where "SIG_RSA \<equiv> 268"
abbreviation (input) SIG_SHA1 :: int where "SIG_SHA1 \<equiv> 269"
abbreviation (input) SIG_LONGSIGSIZE :: int where "SIG_LONGSIGSIZE \<equiv> 270"
abbreviation (input) SIG_LONGARCHIVESIZE :: int where "SIG_LONGARCHIVESIZE \<equiv> 271"
abbreviation (input) SIG_SHA256 :: int where "SIG_SHA256 \<equiv> 273"
abbreviation (input) SIG_SIZE :: int where "SIG_SIZE \<equiv> 17384"
abbreviation (input) SIG_PGP :: int where "SIG_PGP \<equiv> 17386"
abbreviation (input) SIG_MD5 :: int where "SIG_MD5 \<equiv> 17388"
abbreviation (input) SIG_GPG :: int where "SIG_GPG \<equiv> 17389"
abbreviation (input) SIG_PAYLOADSIZE :: int where "SIG_PAYLOADSIZE \<equiv> 17391"
abbreviation (input) SIG_RESERVEDSPACE :: int where "SIG_RESERVEDSPACE \<equiv> 17392"

abbreviation (input) RPMTAG_HEADERSIGNATURES :: int where "RPMTAG_HEADERSIGNATURES \<equiv> 62"
abbreviation (input) RPMTAG_HEADERIMMUTABLE :: int where "RPMTAG_HEADERIMMUTABLE \<equiv> 63"
abbreviation (input) RPMTAG_HEADERREGIONS :: int where "RPMTAG_HEADERREGIONS \<equiv> 64"

abbreviation (input) HASH_MD5 :: int where "HASH_MD5 \<equiv> 1"
abbreviation (input) HASH_SHA1 :: int where "HASH_SHA1 \<equiv> 2"
abbreviation (input) HASH_RIPEMD160 :: int where "HASH_RIPEMD160 \<equiv> 3"
abbreviation (input) HASH_MD2 :: int where "HASH_MD2 \<equiv> 5"
abbreviation (input) HASH_TIGER192 :: int where "HASH_TIGER192 \<equiv> 6"
abbreviation (input) HASH_HAVAL_5_160 :: int where "HASH_HAVAL_5_160 \<equiv> 7"
abbreviation (input) HASH_SHA256 :: int where "HASH_SHA256 \<equiv> 8"
abbreviation (input) HASH_SHA384 :: int where "HASH_SHA384 \<equiv> 9"
abbreviation (input) HASH_SHA512 :: int where "HASH_SHA512 \<equiv> 10"
abbreviation (input) HASH_SHA224 :: int where "HASH_SHA224 \<equiv> 11"

text \<open>The tags found in the general header.\<close>

definition general_tags :: "(string \<times> int) list" where
  "general_tags =
    [(''NAME'', 1000), (''VERSION'', 1001), (''RELEASE'', 1002), (''EPOCH'', 1003),
     (''SUMMARY'', 1004), (''DESCRIPTION'', 1005), (''BUILDTIME'', 1006), (''BUILDHOST'', 1007),
     (''SIZE'', 1009), (''DISTRIBUTION'', 1010), (''VENDOR'', 1011), (''GIF'', 1012),
     (''XPM'', 1013), (''LICENSE'', 1014), (''PACKAGER'', 1015), (''GROUP'', 1016),
     (''CHANGELOG'', 1017), (''SOURCE'', 1018), (''PATCH'', 1019), (''URL'', 1020),
     (''OS'', 1021), (''ARCH'', 1022), (''PREIN'', 1023), (''POSTIN'', 1024), (''PREUN'', 1025),
     (''POSTUN'', 1026), (''OLDFILENAMES'', 1027), (''FILESIZES'', 1028), (''FILEMODES'', 1030),
     (''FILERDEVS'', 1033), (''FILEMTIMES'', 1034), (''FILEDIGESTS'', 1035),
     (''FILELINKTOS'', 1036), (''FILEFLAGS'', 1037), (''FILEUSERNAME'', 1039),
     (''FILEGROUPNAME'', 1040), (''ICON'', 1043), (''SOURCERPM'', 1044),
     (''FILEVERIFYFLAGS'', 1045), (''ARCHIVESIZE'', 1046), (''PROVIDENAME'', 1047),
     (''REQUIREFLAGS'', 1048), (''REQUIRENAME'', 1049), (''REQUIREVERSION'', 1050),
     (''CONFLICTFLAGS'', 1053), (''CONFLICTNAME'', 1054), (''CONFLICTVERSION'', 1055),
     (''RPMVERSION'', 1064), (''TRIGGERSCRIPTS'', 1065), (''TRIGGERNAME'', 1066),
     (''TRIGGERVERSION'', 1067), (''TRIGGERFLAGS'', 1068), (''TRIGGERINDEX'', 1069),
     (''VERIFYSCRIPT'', 1079), (''CHANGELOGTIME'', 1080), (''CHANGELOGNAME'', 1081),
     (''CHANGELOGTEXT'', 1082), (''PREINPROG'', 1085), (''POSTINPROG'', 1086),
     (''PREUNPROG'', 1087), (''POSTUNPROG'', 1088), (''OBSOLETENAME'', 1090),
     (''FILEDEVICES'', 1095), (''FILEINODES'', 1096), (''PROVIDEFLAGS'', 1112),
     (''PROVIDEVERSION'', 1113), (''OBSOLETEFLAGS'', 1114), (''OBSOLETEVERSION'', 1115),
     (''VERIFYSCRIPTPROG'', 1091), (''TRIGGERSCRIPTPROG'', 1092), (''DIRINDEXES'', 1116),
     (''BASENAMES'', 1117), (''DIRNAMES'', 1118), (''PAYLOADFORMAT'', 1124),
     (''PAYLOADCOMPRESSOR'', 1125), (''FILECOLORS'', 1140), (''OLDSUGGESTSNAME'', 1156),
     (''OLDSUGGESTSVERSION'', 1157), (''OLDSUGGESTSFLAGS'', 1158), (''OLDENHANCESNAME'', 1159),
     (''OLDENHANCESVERSION'', 1160), (''OLDENHANCESFLAGS'', 1161), (''BLINKPKGID'', 1164),
     (''BLINKHDRID'', 1165), (''BLINKNEVRA'', 1166), (''FLINKPKGID'', 1167),
     (''FLINKHDRID'', 1168), (''FLINKNEVRA'', 1169), (''TRIGGERPREIN'', 1170),
     (''LONGFILESIZES'', 5008), (''LONGSIZE'', 5009), (''FILECAPS'', 5010),
     (''FILEDIGESTALGO'', 5011), (''BUGURL'', 5012), (''VCS'', 5034), (''RECOMMENDNAME'', 5046),
     (''RECOMMENDVERSION'', 5047), (''RECOMMENDFLAGS'', 5048), (''SUGGESTNAME'', 5049),
     (''SUGGESTVERSION'', 5050), (''SUGGESTFLAGS'', 5051), (''SUPPLEMENTNAME'', 5052),
     (''SUPPLEMENTVERSION'', 5053), (''SUPPLEMENTFLAGS'', 5054), (''ENHANCENAME'', 5055),
     (''ENHANCEVERSION'', 5056), (''ENHANCEFLAGS'', 5057), (''ENCODING'', 5062),
     (''PAYLOADDIGEST'', 5092), (''PAYLOADDIGESTALGO'', 5093)]"

text \<open>The tags found in the signature header.\<close>

definition signature_tags :: "(string \<times> int) list" where
  "signature_tags =
    [(''SIG_DSA'', 267), (''SIG_RSA'', 268), (''SIG_SHA1'', 269), (''SIG_LONGSIGSIZE'', 270),
     (''SIG_LONGARCHIVESIZE'', 271), (''SIG_SHA256'', 273), (''SIG_SIZE'', 17384),
     (''SIG_PGP'', 17386), (''SIG_MD5'', 17388), (''SIG_GPG'', 17389),
     (''SIG_PAYLOADSIZE'', 17391), (''SIG_RESERVEDSPACE'', 17392)]"

section \<open>Flags\<close>

text \<open>The bit masks of \<open>FILEFLAGS\<close>, \<open>FILEVERIFYFLAGS\<close> and \<open>TRIGGERFLAGS\<close>.\<close>

definition RPMFILE_flags :: "(string \<times> int) list" where
  "RPMFILE_flags =
    [(''NONE'', 0), (''CONFIG'', 2 ^ 0), (''DOC'', 2 ^ 1), (''ICON'', 2 ^ 2), (''MISSINGOK'', 2 ^ 3),
     (''NOREPLACE'', 2 ^ 4), (''SPECFILE'', 2 ^ 5), (''GHOST'', 2 ^ 6), (''LICENSE'', 2 ^ 7),
     (''README'', 2 ^ 8), (''EXCLUDE'', 2 ^ 9), (''UNPATCHED'', 2 ^ 10), (''PUBKEY'', 2 ^ 11),
     (''POLICY'', 2 ^ 12)]"

definition RPMVERIFY_flags :: "(string \<times> int) list" where
  "RPMVERIFY_flags =
    [(''NONE'', 0), (''MD5'', 2 ^ 0), (''FILEDIGEST'', 2 ^ 0), (''FILESIZE'', 2 ^ 1), (''LINKTO'', 2 ^ 2),
     (''USER'', 2 ^ 3), (''GROUP'', 2 ^ 4), (''MTIME'', 2 ^ 5), (''MODE'', 2 ^ 6), (''RDEV'', 2 ^ 7),
     (''CAPS'', 2 ^ 8), (''CONTEXTS'', 2 ^ 15)]"

definition RPMSENSE_flags :: "(string \<times> int) list" where
  "RPMSENSE_flags =
    [(''ANY'', 0), (''LESS'', 2 ^ 1), (''GREATER'', 2 ^ 2), (''EQUAL'', 2 ^ 3), (''POSTTRANS'', 2 ^ 5),
     (''PREREQ'', 2 ^ 6), (''PRETRANS'', 2 ^ 7), (''INTERP'', 2 ^ 8), (''SCRIPT_PRE'', 2 ^ 9),
     (''SCRIPT_POST'', 2 ^ 10), (''TRIGGERIN'', 2 ^ 16), (''TRIGGERUN'', 2 ^ 17),
     (''TRIGGERPOSTUN'', 2 ^ 18), (''TRIGGERPREIN'', 2 ^ 25)]"

section \<open>Sizes and alignments\<close>

text \<open>The maps \<^verbatim>\<open>typeAlign\<close> and \<^verbatim>\<open>typeSizes\<close> of \<^verbatim>\<open>header.go\<close>.\<close>

definition typeAlign :: "int \<Rightarrow> nat option" where
  "typeAlign = map_of [(RPM_INT16_TYPE, 2), (RPM_INT32_TYPE, 4), (RPM_INT64_TYPE, 8)]"

definition typeSizes :: "int \<Rightarrow> nat option" where
  "typeSizes = map_of
     [(RPM_NULL_TYPE, 0), (RPM_CHAR_TYPE, 1), (RPM_INT8_TYPE, 1), (RPM_INT16_TYPE, 2),
      (RPM_INT32_TYPE, 4), (RPM_INT64_TYPE, 8), (RPM_BIN_TYPE, 1)]"

lemma typeAlign_dvd_8: "typeAlign t = Some a \<Longrightarrow> 0 < a \<and> a dvd 8"
  by (auto simp: typeAlign_def split: if_splits)

end
