(* ===== verification/Go_Path.thy ===== *)
theory Go_Path
  imports Prelude
begin

text \<open>
  The lexical path operations of Go's \<^verbatim>\<open>path\<close> package (and of \<^verbatim>\<open>path/filepath\<close> on Unix,
  where \<^verbatim>\<open>FromSlash\<close> is the identity): \<open>Clean\<close>, \<open>Join\<close> and \<open>Dir\<close>.
\<close>

abbreviation (input) slash :: char where "slash \<equiv> CHR ''/''"

fun join_slash :: "string list \<Rightarrow> string" where
  "join_slash [] = ''''"
| "join_slash [c] = c"
| "join_slash (c # cs) = c @ slash # join_slash cs"

text \<open>
  The elements of a path are processed from left to right; the elements kept so far
  are a stack, the last one first.  \<^verbatim>\<open>..\<close> removes the last kept element unless that is
  itself \<^verbatim>\<open>..\<close>; a leading \<^verbatim>\<open>..\<close> of a rooted path is dropped.
\<close>

fun clean_comps :: "bool \<Rightarrow> string list \<Rightarrow> string list \<Rightarrow> string list" where
  "clean_comps rooted st [] = st"
| "clean_comps rooted st (c # cs) =
     (if c = '''' \<or> c = ''.'' then clean_comps rooted st cs
      else if c = ''..'' then
        (case st of
           [] \<Rightarrow> clean_comps rooted (if rooted then [] else [''..'']) cs
         | x # xs \<Rightarrow> if x = ''..'' then clean_comps rooted (''..'' # st) cs
                    else clean_comps rooted xs cs)
      else clean_comps rooted (c # st) cs)"

definition is_rooted :: "string \<Rightarrow> bool" where
  "is_rooted p = (case p of [] \<Rightarrow> False | c # _ \<Rightarrow> c = slash)"

definition comps :: "string \<Rightarrow> string list" where
  "comps p = rev (clean_comps (is_rooted p) [] (split_on slash p))"

definition Clean :: "string \<Rightarrow> string" where
  "Clean p =
     (if is_rooted p then slash # join_slash (comps p)
      else if comps p = [] then ''.'' else join_slash (comps p))"

definition Join :: "string \<Rightarrow> string \<Rightarrow> string" where
  "Join a b =
     (if a = '''' \<and> b = '''' then ''''
      else if a = '''' then Clean b
      else Clean (a @ slash # b))"

definition Dir :: "string \<Rightarrow> string" where
  "Dir p = Clean (rev (dropWhile (\<lambda>c. c \<noteq> slash) (rev p)))"

definition Base :: "string \<Rightarrow> string" where
  "Base p =
     (if p = '''' then ''.''
      else let q = dropWhile (\<lambda>c. c = slash) (rev p) in
        if q = '''' then [slash] else rev (takeWhile (\<lambda>c. c \<noteq> slash) q))"

section \<open>Clean paths as lists of elements\<close>

lemma split_on_append_sep: "split_on x (xs @ x # ys) = split_on x xs @ split_on x ys"
  by (induction xs) (auto split: list.splits)

lemma split_on_no_sep_elems: "c \<in> set (split_on x xs) \<Longrightarrow> x \<notin> set c"
  by (induction xs arbitrary: c) (auto split: list.splits if_splits)

lemma split_on_join:
  "cs \<noteq> [] \<Longrightarrow> \<forall>c \<in> set cs. slash \<notin> set c \<Longrightarrow> split_on slash (join_slash cs) = cs"
  by (induction cs rule: join_slash.induct) (auto simp: split_on_no_sep split_on_append)

lemma join_slash_append:
  "xs \<noteq> [] \<Longrightarrow> ys \<noteq> [] \<Longrightarrow> join_slash (xs @ ys) = join_slash xs @ slash # join_slash ys"
proof (induction xs rule: join_slash.induct)
  case (2 c)
  then show ?case by (cases ys) simp_all
qed simp_all

lemma join_split_on: "join_slash (split_on slash p) = p"
  by (induction p) (auto split: list.splits simp: neq_Nil_conv, metis join_slash.simps(2,3) append_Cons list.exhaust)

text \<open>
  The elements of a clean path: none is empty or a dot, and \<^verbatim>\<open>..\<close> occurs only in front of
  all others, and only in a path that is not rooted.
\<close>

definition normal :: "bool \<Rightarrow> string list \<Rightarrow> bool" where
  "normal r cs \<longleftrightarrow> (\<forall>c \<in> set cs. c \<noteq> '''' \<and> c \<noteq> ''.'' \<and> slash \<notin> set c)
     \<and> (\<exists>k ns. cs = replicate k ''..'' @ ns \<and> ''..'' \<notin> set ns \<and> (r \<longrightarrow> k = 0))"

definition render :: "bool \<Rightarrow> string list \<Rightarrow> string" where
  "render r cs = (if r then slash # join_slash cs else if cs = [] then ''.'' else join_slash cs)"

lemma normal_Nil [simp]: "normal r []"
  by (simp add: normal_def)

lemma normal_snoc_name:
  assumes "normal r cs" "c \<noteq> ''''" "c \<noteq> ''.''" "c \<noteq> ''..''" "slash \<notin> set c"
  shows "normal r (cs @ [c])"
proof -
  obtain k ns where "cs = replicate k ''..'' @ ns" "''..'' \<notin> set ns" "r \<longrightarrow> k = 0"
    using assms(1) unfolding normal_def by blast
  then have "cs @ [c] = replicate k ''..'' @ (ns @ [c]) \<and> ''..'' \<notin> set (ns @ [c]) \<and> (r \<longrightarrow> k = 0)"
    using assms(4) by simp
  then show ?thesis using assms unfolding normal_def by (metis Un_iff empty_iff insert_iff list.set set_append)
qed

lemma normal_last_up:
  assumes "normal r cs" "cs \<noteq> []" "last cs = ''..''"
  shows "\<not> r" "cs = replicate (length cs) ''..''" "normal r (cs @ [''..''])"
proof -
  obtain k ns where k: "cs = replicate k ''..'' @ ns" "''..'' \<notin> set ns" "r \<longrightarrow> k = 0"
    using assms(1) unfolding normal_def by blast
  then have ns: "ns = []" using assms(2,3) by (cases ns rule: rev_cases) auto
  with k assms(2) show r: "\<not> r" and cs: "cs = replicate (length cs) ''..''" by auto
  have "cs @ [''..''] = replicate (Suc k) ''..'' @ []" using k ns by (simp add: replicate_append_same)
  then show "normal r (cs @ [''..''])" using assms(1) r unfolding normal_def
    by (auto intro: exI [of _ "Suc k"] exI [of _ "[]"])
qed

lemma normal_prefix: "normal r (xs @ ys) \<Longrightarrow> normal r xs"
proof -
  assume "normal r (xs @ ys)"
  then obtain k ns where k: "xs @ ys = replicate k ''..'' @ ns" "''..'' \<notin> set ns" "r \<longrightarrow> k = 0"
      and c: "\<forall>c \<in> set (xs @ ys). c \<noteq> '''' \<and> c \<noteq> ''.'' \<and> slash \<notin> set c"
    unfolding normal_def by blast
  have "xs = take (length xs) (replicate k ''..'' @ ns)" by (simp flip: k(1))
  then have "xs = replicate (min (length xs) k) ''..'' @ take (length xs - k) ns" by simp
  moreover have "''..'' \<notin> set (take (length xs - k) ns)" using k(2) by (meson in_set_takeD)
  ultimately show ?thesis using c k(3) unfolding normal_def by (metis Un_iff min_0R set_append)
qed

text \<open>Behind an element other than \<^verbatim>\<open>..\<close> there is no \<^verbatim>\<open>..\<close>.\<close>

lemma normal_no_up:
  assumes "normal r (xs @ ys)" "xs \<noteq> []" "last xs \<noteq> ''..''"
  shows "''..'' \<notin> set ys"
proof -
  obtain k ns where k: "xs @ ys = replicate k ''..'' @ ns" "''..'' \<notin> set ns"
    using assms(1) unfolding normal_def by blast
  have "\<not> length xs \<le> k"
  proof
    assume "length xs \<le> k"
    moreover have "0 < length xs" using assms(2) by simp
    ultimately have lt: "length xs - 1 < k" by linarith
    have "(xs @ ys) ! (length xs - 1) = ''..''" unfolding k(1) using lt by (simp add: nth_append)
    then show False using assms(2,3) by (simp add: nth_append last_conv_nth)
  qed
  moreover have "ys = drop (length xs) (replicate k ''..'' @ ns)" by (simp flip: k(1))
  ultimately have "ys = drop (length xs - k) ns" by simp
  then show ?thesis using k(2) by (meson in_set_dropD)
qed

lemma clean_comps_normal:
  "normal r (rev st) \<Longrightarrow> \<forall>c \<in> set cs. slash \<notin> set c \<Longrightarrow> normal r (rev (clean_comps r st cs))"
proof (induction r st cs rule: clean_comps.induct)
  case (2 r st c cs)
  show ?case
  proof (cases "c = '''' \<or> c = ''.''")
    case False
    note c = this
    show ?thesis
    proof (cases "c = ''..''")
      case up: True
      show ?thesis
      proof (cases st)
        case Nil
        moreover have "normal r (rev (if r then [] else [''..'']))"
          by (auto simp: normal_def intro: exI [of _ 1] exI [of _ "[]"])
        ultimately show ?thesis using 2 c up by simp
      next
        case (Cons x xs)
        have "normal r (rev xs)" using "2.prems"(1) Cons by (auto intro: normal_prefix)
        moreover have "normal r (rev (''..'' # st))" if "x = ''..''"
          using normal_last_up(3) [OF "2.prems"(1)] Cons that by simp
        ultimately show ?thesis using 2 c up Cons by auto
      qed
    next
      case False
      then have "normal r (rev st @ [c])" using "2.prems" c by (intro normal_snoc_name) auto
      with False show ?thesis using 2 c by simp
    qed
  qed (use 2 in auto)
qed simp

lemma clean_comps_id: "normal r (rev st @ cs) \<Longrightarrow> clean_comps r st cs = rev cs @ st"
proof (induction r st cs rule: clean_comps.induct)
  case (2 r st c cs)
  have c: "c \<noteq> ''''" "c \<noteq> ''.''" using "2.prems" by (auto simp: normal_def)
  have pre: "normal r (rev st @ [c])" using "2.prems" normal_prefix [of r "rev st @ [c]" cs] by simp
  show ?case
  proof (cases "c = ''..''")
    case True
    with normal_last_up [OF pre] have r: "\<not> r" and all: "rev st @ [c] = replicate (Suc (length st)) ''..''" by auto
    have "x = ''..''" if "st = x # xs" for x xs
    proof -
      have "x \<in> set (rev st @ [c])" using that by simp
      then show ?thesis unfolding all by (simp del: replicate.simps)
    qed
    then show ?thesis using 2 c True r by (cases st) auto
  qed (use 2 c in auto)
qed simp

lemma normal_comps: "normal (is_rooted p) (comps p)"
  unfolding comps_def by (rule clean_comps_normal) (simp_all add: split_on_no_sep_elems)

lemma Clean_render: "Clean p = render (is_rooted p) (comps p)"
  by (simp add: Clean_def render_def)

lemma normal_slash: "normal r cs \<Longrightarrow> \<forall>c \<in> set cs. slash \<notin> set c"
  by (simp add: normal_def)

lemma split_render:
  "normal r cs \<Longrightarrow> cs \<noteq> [] \<Longrightarrow> split_on slash (render r cs) = (if r then [''''] else []) @ cs"
  by (simp add: render_def split_on_join normal_slash)

lemma is_rooted_render: "normal r cs \<Longrightarrow> is_rooted (render r cs) = r"
proof (cases cs rule: join_slash.cases)
  case (2 c)
  moreover assume "normal r cs"
  ultimately have "c \<noteq> '''' \<and> slash \<notin> set c" by (simp add: normal_def)
  with 2 show ?thesis by (cases c) (auto simp: render_def is_rooted_def)
next
  case (3 c d cs')
  moreover assume "normal r cs"
  ultimately have "c \<noteq> '''' \<and> slash \<notin> set c" by (simp add: normal_def)
  with 3 show ?thesis by (cases c) (auto simp: render_def is_rooted_def)
qed (simp add: render_def is_rooted_def)

lemma comps_render: "normal r cs \<Longrightarrow> comps (render r cs) = cs"
proof (cases "cs = []")
  case False
  assume n: "normal r cs"
  have "clean_comps r [] ((if r then [''''] else []) @ cs) = rev cs"
    using clean_comps_id [of r "[]" cs] n by (cases r) simp_all
  then show ?thesis using n False by (cases r) (simp_all add: comps_def is_rooted_render split_render)
qed (auto simp: comps_def render_def is_rooted_def)

lemma Clean_idem [simp]: "Clean (Clean p) = Clean p"
  using normal_comps [of p] by (simp add: Clean_render comps_render is_rooted_render)

section \<open>Paths below a directory\<close>

text \<open>\<open>p\<close> is \<open>d\<close> or lies below it, without \<^verbatim>\<open>..\<close> on the way.\<close>

definition within :: "string \<Rightarrow> string \<Rightarrow> bool" where
  "within d p \<longleftrightarrow> p = d \<or> (\<exists>q. p = d @ slash # q \<and> ''..'' \<notin> set (split_on slash q))"

lemma clean_comps_append: "clean_comps r st (xs @ ys) = clean_comps r (clean_comps r st xs) ys"
  by (induction r st xs rule: clean_comps.induct) (auto split: list.splits)

lemma normal_Cons_ne: "normal r (c # cs) \<Longrightarrow> c \<noteq> '''' \<and> c \<noteq> ''.'' \<and> slash \<notin> set c"
  by (simp add: normal_def)

lemma render_ne: "normal r cs \<Longrightarrow> render r cs \<noteq> []"
  by (cases cs rule: join_slash.cases) (auto simp: render_def normal_def)

lemma render_below:
  assumes ds: "normal r ds" and ts: "normal r' ts" and t: "render r' ts = render r ds @ slash # q"
  shows "ds \<noteq> [] \<and> r' = r \<and> ts = ds @ split_on slash q"
proof -
  have len: "length (render r' ts) \<noteq> 1" unfolding t using render_ne [OF ds] by simp
  then have tne: "ts \<noteq> []" by (cases r') (auto simp: render_def)
  note split = split_render [OF ts tne]
  have splitq: "split_on slash (render r' ts) = split_on slash (render r ds) @ split_on slash q"
    unfolding t by (rule split_on_append_sep)
  have ne: "ds \<noteq> []"
  proof
    assume [simp]: "ds = []"
    obtain c cs where c: "ts = c # cs" using tne by (cases ts) auto
    note n = normal_Cons_ne [OF ts [unfolded c]]
    show False
    proof (cases r)
      case True
      then have "split_on slash (render r ds) = [[], []]" by (simp add: render_def)
      with split splitq n c show False by (cases r') auto
    next
      case False
      then have "split_on slash (render r ds) = [''.'']" by (simp add: render_def)
      with split splitq n c show False by (cases r') auto
    qed
  qed
  have "is_rooted (render r' ts) = is_rooted (render r ds)"
    unfolding t using render_ne [OF ds] by (cases "render r ds") (auto simp: is_rooted_def)
  then have r: "r' = r" using is_rooted_render [OF ds] is_rooted_render [OF ts] by simp
  with split splitq split_render [OF ds ne] ne show ?thesis by auto
qed

lemma within_render:
  assumes "normal r ds" "normal r' ts" "ds \<noteq> [] \<Longrightarrow> last ds \<noteq> ''..''" "render r' ts = render r ds @ slash # q"
  shows "within (render r ds) (render r' ts)"
  using normal_no_up [of r ds "split_on slash q"] render_below [OF assms(1,2,4)] assms by (auto simp: within_def)

lemma Dir_render:
  assumes "normal r (us @ [e])" "us \<noteq> []"
  shows "Dir (render r (us @ [e])) = render r us"
proof -
  have e: "slash \<notin> set e" using assms(1) by (simp add: normal_def)
  have us: "normal r us" using normal_prefix [OF assms(1)] .
  let ?u = "render r us"
  note ne = render_ne [OF us]
  have "render r (us @ [e]) = ?u @ slash # e"
    using assms(2) by (simp add: render_def join_slash_append)
  moreover have "dropWhile (\<lambda>c. c \<noteq> slash) (rev e @ slash # xs) = slash # xs" for xs
    using e by (simp add: dropWhile_append)
  ultimately have "Dir (render r (us @ [e])) = Clean (?u @ [slash])" by (simp add: Dir_def)
  moreover have "is_rooted (?u @ [slash]) = r" using is_rooted_render [OF us] ne by (cases ?u) (auto simp: is_rooted_def)
  moreover have "clean_comps r [] (split_on slash (?u @ [slash])) = clean_comps r [] (split_on slash ?u)"
    by (simp add: split_on_append_sep [where ys = "[]", simplified] clean_comps_append)
  ultimately show ?thesis
    using comps_render [OF us] is_rooted_render [OF us] by (simp add: Clean_render comps_def)
qed

lemma within_Dir_render:
  assumes "normal r ds" "normal r' ts" "ds \<noteq> [] \<Longrightarrow> last ds \<noteq> ''..''" "render r' ts = render r ds @ slash # q"
  shows "within (render r ds) (Dir (render r' ts))"
proof -
  let ?es = "split_on slash q"
  have b: "ds \<noteq> []" "r' = r" "ts = ds @ ?es" using render_below [OF assms(1,2,4)] by auto
  have ts: "ts = (ds @ butlast ?es) @ [last ?es]" using b(3) by simp
  have dir: "Dir (render r' ts) = render r (ds @ butlast ?es)"
    unfolding ts b(2) by (rule Dir_render) (use assms(2) b ts in auto)
  have up: "''..'' \<notin> set ?es" using normal_no_up [of r ds ?es] assms b by auto
  show ?thesis
  proof (cases "butlast ?es = []")
    case True
    then show ?thesis unfolding dir by (simp add: within_def)
  next
    case False
    then have "render r (ds @ butlast ?es) = render r ds @ slash # join_slash (butlast ?es)"
      using b(1) by (simp add: render_def join_slash_append)
    moreover have "split_on slash (join_slash (butlast ?es)) = butlast ?es"
      using False split_on_no_sep_elems [where x = slash and xs = q] by (intro split_on_join) (auto dest: in_set_butlastD)
    ultimately show ?thesis using up unfolding dir within_def by (auto dest: in_set_butlastD)
  qed
qed

end
