(* ===== verification/Header.thy ===== *)
theory Header
  imports Go_IO Tags Go_Path "HOL-Library.AList"
begin

text \<open>
  \<^verbatim>\<open>header.go\<close>: the tag store of one header area, its parser \<open>readHeader\<close> and the typed
  accessors.  The Go map \<^verbatim>\<open>entries\<close> is an association list with distinct keys.
\<close>

section \<open>Digests\<close>

text \<open>
  \<^verbatim>\<open>crypto.Hash\<close> is a number; \<open>0\<close> means no algorithm.  The digest functions themselves
  are a parameter: which algorithms are linked into the binary, and the digest each of
  them computes.  \<^verbatim>\<open>New\<close> panics for an algorithm that is not available.
\<close>

type_synonym crypto_hash = nat

abbreviation (input) crypto_MD5 :: crypto_hash where "crypto_MD5 \<equiv> 2"
abbreviation (input) crypto_SHA1 :: crypto_hash where "crypto_SHA1 \<equiv> 3"
abbreviation (input) crypto_SHA224 :: crypto_hash where "crypto_SHA224 \<equiv> 4"
abbreviation (input) crypto_SHA256 :: crypto_hash where "crypto_SHA256 \<equiv> 5"
abbreviation (input) crypto_SHA384 :: crypto_hash where "crypto_SHA384 \<equiv> 6"
abbreviation (input) crypto_SHA512 :: crypto_hash where "crypto_SHA512 \<equiv> 7"

record crypto_env =
  hash_available :: "crypto_hash \<Rightarrow> bool"
  hash_sum :: "crypto_hash \<Rightarrow> bytes \<Rightarrow> bytes"

definition hash_once :: "crypto_env \<Rightarrow> crypto_hash \<Rightarrow> bytes \<Rightarrow> bytes result" where
  "hash_once env h bs =
     (if hash_available env h then Ok (hash_sum env h bs) else Panic HashUnavailable)"

definition hex_digit :: "nat \<Rightarrow> char" where
  "hex_digit n = (if n < 10 then char_of (48 + n) else char_of (87 + n))"

definition hex_encode :: "bytes \<Rightarrow> string" where
  "hex_encode bs = concat (map (\<lambda>b. [hex_digit (unat b div 16), hex_digit (unat b mod 16)]) bs)"

section \<open>Data model\<close>

abbreviation (input) introMagic :: "32 word" where "introMagic \<equiv> 0x8eade801"

record entry =
  dataType :: int
  ecount :: int
  contents :: bytes

record rpmHeader =
  entries :: "(int \<times> entry) list"
  isSource :: bool
  orig :: bytes

record headerIntro =
  hi_Magic :: "32 word"
  hi_Reserved :: "32 word"
  hi_Entries :: "32 word"
  hi_Size :: "32 word"

record headerTag =
  ht_Tag :: int
  ht_DataType :: int
  ht_Offset :: int
  ht_Count :: int

definition get_entry :: "rpmHeader \<Rightarrow> int \<Rightarrow> entry option" where
  "get_entry hdr tag = map_of (entries hdr) tag"

definition readExact :: "'s read_op \<Rightarrow> ('s \<Rightarrow> nat) \<Rightarrow> 's \<Rightarrow> nat \<Rightarrow> (bytes \<times> io_err option) \<times> 's" where
  "readExact read steps f n =
     (case ReadFull read steps f n of
        ((bs, e), f') \<Rightarrow> ((bs @ replicate (n - length bs) 0, e), f'))"

section \<open>Parsing\<close>

definition decode_intro :: "bytes \<Rightarrow> headerIntro" where
  "decode_intro bs =
     \<lparr>hi_Magic = be_decode (take 4 bs), hi_Reserved = be_decode (take 4 (drop 4 bs)),
      hi_Entries = be_decode (take 4 (drop 8 bs)), hi_Size = be_decode (take 4 (drop 12 bs))\<rparr>"

definition int32_at :: "nat \<Rightarrow> bytes \<Rightarrow> int" where
  "int32_at i bs = sint (be_decode (take 4 (drop i bs)) :: 32 word)"

definition decode_tag :: "bytes \<Rightarrow> headerTag" where
  "decode_tag bs =
     \<lparr>ht_Tag = int32_at 0 bs, ht_DataType = int32_at 4 bs,
      ht_Offset = int32_at 8 bs, ht_Count = int32_at 12 bs\<rparr>"

text \<open>The end of \<open>k\<close> NUL-terminated strings that start at \<open>end\<close>.\<close>

primrec strings_end :: "bytes \<Rightarrow> int \<Rightarrow> nat \<Rightarrow> int \<Rightarrow> int result" where
  "strings_end data tag 0 pos = Ok pos"
| "strings_end data tag (Suc k) pos =
     rbind (slice data pos (int (length data))) (\<lambda>rest.
       case index_byte rest 0 of
         None \<Rightarrow> Err (TagTruncated tag)
       | Some nxt \<Rightarrow> strings_end data tag k (pos + int nxt + 1))"

definition parse_entry :: "bytes \<Rightarrow> headerTag \<Rightarrow> entry result" where
  "parse_entry data tag =
     rbind (case typeSizes (ht_DataType tag) of
              Some typeSize \<Rightarrow> Ok (ht_Offset tag + int typeSize * ht_Count tag)
            | None \<Rightarrow> strings_end data (ht_Tag tag) (nat (ht_Count tag)) (ht_Offset tag))
       (\<lambda>stop. rbind (slice data (ht_Offset tag) stop)
       (\<lambda>c. Ok \<lparr>dataType = ht_DataType tag, ecount = ht_Count tag, contents = c\<rparr>))"

text \<open>The loop over the entry table; \<open>buf\<close> is what \<^verbatim>\<open>bytes.Reader\<close> has left of it.\<close>

primrec parse_entries ::
  "bytes \<Rightarrow> nat \<Rightarrow> bytes \<Rightarrow> (int \<times> entry) list \<Rightarrow> (int \<times> entry) list result" where
  "parse_entries data 0 buf ents = Ok ents"
| "parse_entries data (Suc k) buf ents =
     (if length buf < 16 then Err (IOError (if buf = [] then EOF else ErrUnexpectedEOF))
      else let tag = decode_tag (take 16 buf) in
        rbind (parse_entry data tag)
          (\<lambda>e. parse_entries data k (drop 16 buf) (AList.update (ht_Tag tag) e ents)))"

definition check_hash :: "crypto_env \<Rightarrow> string \<Rightarrow> crypto_hash \<Rightarrow> bytes \<Rightarrow> unit result" where
  "check_hash env hash hashType buf =
     (if 1 < length hash
      then rbind (hash_once env hashType buf) (\<lambda>sum.
             if hex_encode sum \<noteq> hash then Err HeaderDigestMismatch else Ok ())
      else Ok ())"

definition data_size :: "bool \<Rightarrow> 32 word \<Rightarrow> 32 word" where
  "data_size sigBlock sz = (if sigBlock then (sz + 7) div 8 * 8 else sz)"

definition readHeader ::
  "crypto_env \<Rightarrow> reader \<Rightarrow> string \<Rightarrow> crypto_hash \<Rightarrow> bool \<Rightarrow> bool \<Rightarrow> (rpmHeader \<times> reader) result" where
  "readHeader env f hash hashType isSrc sigBlock =
     (case tee_ReadFull \<lparr>tee_src = f, tee_buf = []\<rparr> 16 of
        ((_, Some e), _) \<Rightarrow> Err (ReadIntroError e)
      | ((ibs, None), t1) \<Rightarrow>
     (let intro = decode_intro ibs in
      if hi_Magic intro \<noteq> introMagic then Err BadHeaderMagic
      else
     (case readExact tee_Read (\<lambda>t. tee_steps t) t1 (unat (hi_Entries intro * 16)) of
        ((_, Some e), _) \<Rightarrow> Err (ReadTableError e)
      | ((entryTable, None), t2) \<Rightarrow>
     (case readExact tee_Read (\<lambda>t. tee_steps t) t2 (unat (data_size sigBlock (hi_Size intro))) of
        ((_, Some e), _) \<Rightarrow> Err (ReadDataError e)
      | ((data, None), t3) \<Rightarrow>
          rbind (check_hash env hash hashType (tee_buf t3)) (\<lambda>_.
          rbind (parse_entries data (unat (hi_Entries intro)) entryTable []) (\<lambda>ents.
            Ok (\<lparr>entries = ents, isSource = isSrc, orig = tee_buf t3\<rparr>, tee_src t3)))))))"

section \<open>Accessors\<close>

definition HasTag :: "rpmHeader \<Rightarrow> int \<Rightarrow> bool" where
  "HasTag hdr tag = (get_entry hdr tag \<noteq> None)"

definition is_string_type :: "int \<Rightarrow> bool" where
  "is_string_type t \<longleftrightarrow>
     t = RPM_STRING_TYPE \<or> t = RPM_STRING_ARRAY_TYPE \<or> t = RPM_I18NSTRING_TYPE"

datatype go_ints = U8s "8 word list" | U16s "16 word list" | U32s "32 word list" | U64s "64 word list"

definition getInts :: "rpmHeader \<Rightarrow> int \<Rightarrow> (go_ints \<times> nat) result" where
  "getInts hdr tag =
     (case get_entry hdr tag of
        None \<Rightarrow> Err (NoSuchTagError tag)
      | Some ent \<Rightarrow>
          let n = length (contents ent); c = contents ent in
          if dataType ent = RPM_INT8_TYPE \<or> dataType ent = RPM_CHAR_TYPE
          then Ok (U8s (be_array 1 n c), n)
          else if dataType ent = RPM_INT16_TYPE then Ok (U16s (be_array 2 (n div 2) c), n div 2)
          else if dataType ent = RPM_INT32_TYPE then Ok (U32s (be_array 4 (n div 4) c), n div 4)
          else if dataType ent = RPM_INT64_TYPE then Ok (U64s (be_array 8 (n div 8) c), n div 8)
          else Err (NotAnIntType tag))"

primrec ints_of_uint32s :: "int \<Rightarrow> int \<Rightarrow> 32 word list \<Rightarrow> int list result" where
  "ints_of_uint32s tag i [] = Ok []"
| "ints_of_uint32s tag i (v # vs) =
     (if 2 ^ 31 - 1 < v then Err (IntValueOutOfRange i tag)
      else rbind (ints_of_uint32s tag (i + 1) vs) (\<lambda>out. Ok (uint v # out)))"

definition GetInts :: "rpmHeader \<Rightarrow> int \<Rightarrow> int list result" where
  "GetInts hdr tag =
     rbind (getInts hdr tag) (\<lambda>(buf, n).
       case buf of
         U8s vs \<Rightarrow> Ok (map uint vs)
       | U16s vs \<Rightarrow> Ok (map uint vs)
       | U32s vs \<Rightarrow> ints_of_uint32s tag 0 vs
       | U64s vs \<Rightarrow> Err (TooBigForInt tag))"

definition GetUint32s :: "rpmHeader \<Rightarrow> int \<Rightarrow> 32 word list result" where
  "GetUint32s hdr tag =
     rbind (getInts hdr tag) (\<lambda>(buf, n).
       case buf of
         U32s vs \<Rightarrow> Ok vs
       | U8s vs \<Rightarrow> Ok (map ucast vs)
       | U16s vs \<Rightarrow> Ok (map ucast vs)
       | U64s vs \<Rightarrow> Err (TooBigForInt tag))"

definition GetUint64s :: "rpmHeader \<Rightarrow> int \<Rightarrow> 64 word list result" where
  "GetUint64s hdr tag =
     rbind (getInts hdr tag) (\<lambda>(buf, n).
       case buf of
         U64s vs \<Rightarrow> Ok vs
       | U8s vs \<Rightarrow> Ok (map ucast vs)
       | U16s vs \<Rightarrow> Ok (map ucast vs)
       | U32s vs \<Rightarrow> Ok (map ucast vs))"

definition GetUint64Fallback :: "rpmHeader \<Rightarrow> int \<Rightarrow> int \<Rightarrow> 64 word list result" where
  "GetUint64Fallback hdr intTag longTag =
     (if get_entry hdr longTag \<noteq> None then GetUint64s hdr longTag else GetUint64s hdr intTag)"

definition GetBytes :: "rpmHeader \<Rightarrow> int \<Rightarrow> bytes result" where
  "GetBytes hdr tag =
     (case get_entry hdr tag of
        None \<Rightarrow> Err (NoSuchTagError tag)
      | Some ent \<Rightarrow>
          if dataType ent \<noteq> RPM_BIN_TYPE then Err (NotBytesType (dataType ent) tag)
          else Ok (contents ent))"

text \<open>The loop that splices directory and base names together.\<close>

primrec splice_paths :: "string list \<Rightarrow> 32 word list \<Rightarrow> int \<Rightarrow> string list \<Rightarrow> string list result" where
  "splice_paths dirs dirIdxs i [] = Ok []"
| "splice_paths dirs dirIdxs i (base # bases) =
     rbind (index dirIdxs i) (\<lambda>di.
     rbind (index dirs (uint di)) (\<lambda>dir.
     rbind (splice_paths dirs dirIdxs (i + 1) bases) (\<lambda>ps. Ok (Join dir base # ps))))"

text \<open>
  \<open>GetStrings\<close> calls itself for \<open>DIRNAMES\<close> and \<open>BASENAMES\<close>, only when the tag is
  \<open>OLDFILENAMES\<close>; so the recursion is one level deep.
\<close>

function GetStrings :: "rpmHeader \<Rightarrow> int \<Rightarrow> string list result" where
  "GetStrings hdr tag =
     (if tag = OLDFILENAMES \<and> get_entry hdr tag = None
      then rbind (GetStrings hdr DIRNAMES) (\<lambda>dirs.
           rbind (GetUint32s hdr DIRINDEXES) (\<lambda>dirIdxs.
           rbind (GetStrings hdr BASENAMES) (\<lambda>baseNames.
             splice_paths dirs dirIdxs 0 baseNames)))
      else (case get_entry hdr tag of
              None \<Rightarrow> Err (NoSuchTagError tag)
            | Some ent \<Rightarrow>
                if \<not> is_string_type (dataType ent) then Err (NotAStringType (dataType ent) tag)
                else slice (map string_of_bytes (split_on 0 (contents ent))) 0 (ecount ent)))"
  by pat_completeness auto
termination
  by (relation "measure (\<lambda>(hdr, tag). if tag = OLDFILENAMES then 1 else 0)") auto

declare GetStrings.simps [simp del]

datatype go_value = VStrings "string list" | VInts go_ints | VBytes bytes

definition Get :: "rpmHeader \<Rightarrow> int \<Rightarrow> go_value result" where
  "Get hdr tag =
     (case get_entry hdr tag of
        None \<Rightarrow> if tag = OLDFILENAMES then rbind (GetStrings hdr tag) (\<lambda>v. Ok (VStrings v))
                else Err (NoSuchTagError tag)
      | Some ent \<Rightarrow>
          if is_string_type (dataType ent) then rbind (GetStrings hdr tag) (\<lambda>v. Ok (VStrings v))
          else if dataType ent \<in> {RPM_INT8_TYPE, RPM_INT16_TYPE, RPM_INT32_TYPE, RPM_INT64_TYPE, RPM_CHAR_TYPE}
          then rbind (getInts hdr tag) (\<lambda>(out, _). Ok (VInts out))
          else if dataType ent = RPM_BIN_TYPE then rbind (GetBytes hdr tag) (\<lambda>v. Ok (VBytes v))
          else Err UnsupportedDataType)"

section \<open>The parser as a function of the bytes\<close>

text \<open>
  A reference parser on the bytes that are left in the stream and the error that follows
  them; it returns the bytes it leaves over.
\<close>

definition parse_header ::
  "crypto_env \<Rightarrow> bytes \<Rightarrow> io_err \<Rightarrow> string \<Rightarrow> crypto_hash \<Rightarrow> bool \<Rightarrow> bool \<Rightarrow> (rpmHeader \<times> bytes) result" where
  "parse_header env bs fin hash hashType isSrc sigBlock =
     (if length bs < 16 then Err (ReadIntroError (short_err bs fin))
      else
     (let intro = decode_intro (take 16 bs); bs1 = drop 16 bs;
          n = unat (hi_Entries intro * 16); bs2 = drop n bs1;
          m = unat (data_size sigBlock (hi_Size intro));
          buf = take 16 bs @ take n bs1 @ take m bs2 in
      if hi_Magic intro \<noteq> introMagic then Err BadHeaderMagic
      else if length bs1 < n then Err (ReadTableError (short_err bs1 fin))
      else if length bs2 < m then Err (ReadDataError (short_err bs2 fin))
      else
        rbind (check_hash env hash hashType buf) (\<lambda>_.
        rbind (parse_entries (take m bs2) (unat (hi_Entries intro)) (take n bs1) [])
          (\<lambda>ents. Ok (\<lparr>entries = ents, isSource = isSrc, orig = buf\<rparr>, drop m bs2)))))"

lemma readExact_tee_eq:
  "readExact tee_Read (\<lambda>t. tee_steps t) t m =
     (if m \<le> length (tee_pending t) then ((take m (tee_pending t), None), tee_after t m)
      else ((tee_pending t @ replicate (m - length (tee_pending t)) 0,
             Some (short_err (tee_pending t) (tee_fin t))), tee_after t m))"
  by (simp add: readExact_def tee_ReadFull_def [symmetric] tee_ReadFull_eq)

text \<open>
  The refinement: what \<open>readHeader\<close> returns, and what it leaves in the stream, is the
  reference parser's answer on the bytes of the stream, however they are fragmented.
\<close>

lemma readHeader_parse_header:
  "map_result (\<lambda>(h, r). (h, reader_pending r)) (readHeader env f hash hashType isSrc sigBlock)
     = parse_header env (reader_pending f) (rd_fin f) hash hashType isSrc sigBlock"
  by (simp add: readHeader_def parse_header_def tee_ReadFull_eq readExact_tee_eq Let_def
        map_result_rbind)

section \<open>Well-formed headers\<close>

text \<open>\<open>k\<close> NUL-terminated strings, one after the other.\<close>

definition nul_strings :: "nat \<Rightarrow> bytes \<Rightarrow> bool" where
  "nul_strings k bs \<longleftrightarrow> count_list bs 0 = k \<and> (bs \<noteq> [] \<longrightarrow> last bs = 0)"

definition wf_entry :: "entry \<Rightarrow> bool" where
  "wf_entry e \<longleftrightarrow> fits32 (dataType e) \<and> fits32 (ecount e) \<and>
     (case typeSizes (dataType e) of
        Some n \<Rightarrow> int (length (contents e)) = int n * ecount e
      | None \<Rightarrow> nul_strings (nat (ecount e)) (contents e))"

definition wf_header :: "rpmHeader \<Rightarrow> bool" where
  "wf_header hdr \<longleftrightarrow> distinct (map fst (entries hdr)) \<and>
     (\<forall>(k, e) \<in> set (entries hdr). fits32 k \<and> wf_entry e)"

lemma nul_strings_0 [simp]: "nul_strings 0 bs \<longleftrightarrow> bs = []"
  by (cases bs rule: rev_cases) (auto simp: nul_strings_def count_list_0_iff)

lemma nul_strings_Suc_append:
  "0 \<notin> set xs \<Longrightarrow> nul_strings (Suc k) (xs @ 0 # ys) \<longleftrightarrow> nul_strings k ys"
  by (auto simp: nul_strings_def count_list_0_iff)

lemma nul_strings_SucE:
  assumes "nul_strings (Suc k) bs"
  obtains xs ys where "bs = xs @ 0 # ys" "0 \<notin> set xs" "nul_strings k ys"
proof -
  from assms have "0 \<in> set bs" by (auto simp: nul_strings_def intro: ccontr dest: count_list_0_iff [THEN iffD2])
  then obtain xs ys where "bs = xs @ 0 # ys" "0 \<notin> set xs" by (auto dest: split_list_first)
  with assms that show thesis by (simp add: nul_strings_Suc_append)
qed

lemma strings_end_nul_strings:
  assumes "nul_strings k cs"
  shows "strings_end (xs @ cs @ ys) tag k (int (length xs)) = Ok (int (length xs) + int (length cs))"
  using assms
proof (induction k arbitrary: cs xs)
  case (Suc k)
  then obtain us vs where cs: "cs = us @ 0 # vs" "0 \<notin> set us" "nul_strings k vs"
    by (auto elim: nul_strings_SucE)
  have "slice (xs @ cs @ ys) (int (length xs)) (int (length (xs @ cs @ ys))) = Ok (cs @ ys)"
    by (simp add: slice_def nat_add_distrib)
  moreover have "index_byte (cs @ ys) 0 = Some (length us)"
    using cs by (simp add: index_byte_append)
  moreover have "strings_end ((xs @ us @ [0]) @ vs @ ys) tag k (int (length (xs @ us @ [0])))
      = Ok (int (length (xs @ us @ [0])) + int (length vs))"
    using cs by (intro Suc.IH)
  ultimately show ?case using cs by (simp add: algebra_simps)
qed simp

lemma strings_end_mono: "strings_end data tag k pos = Ok stop \<Longrightarrow> pos \<le> stop"
  by (induction k arbitrary: pos) (force simp: result_simps split: option.splits)+

lemma strings_end_Ok:
  assumes "strings_end data tag k pos = Ok stop" "slice data pos stop = Ok cs"
  shows "nul_strings k cs"
  using assms
proof (induction k arbitrary: pos cs)
  case 0
  then show ?case by (auto simp: result_simps)
next
  case (Suc k)
  from Suc.prems(1) obtain nxt where
      pos: "0 \<le> pos" "pos \<le> int (length data)" and
      nxt: "index_byte (drop (nat pos) data) 0 = Some nxt" and
      rest: "strings_end data tag k (pos + int nxt + 1) = Ok stop"
    by (auto simp: result_simps split: option.splits)
  define p where "p = nat pos"
  have p: "pos = int p" using pos by (simp add: p_def)
  have i: "p + nxt < length data" "data ! (p + nxt) = 0" "0 \<notin> set (take nxt (drop p data))"
    using nxt by (auto simp: index_byte_Some p_def)
  have ge: "pos + int nxt + 1 \<le> stop" using rest by (rule strings_end_mono)
  with Suc.prems(2) have "slice data (pos + int nxt + 1) stop = Ok (drop (nxt + 1) cs)"
    by (auto simp: result_simps p nat_add_distrib drop_take add.commute [of p nxt])
  from Suc.IH [OF rest this] have "nul_strings k (drop (nxt + 1) cs)" .
  moreover have "cs = take nxt (drop p data) @ 0 # drop (nxt + 1) cs"
  proof -
    have "nxt < length cs" "take (nxt + 1) cs = take (nxt + 1) (drop p data)"
      using Suc.prems(2) ge i(1) by (auto simp: result_simps p min_def)
    moreover have "take (nxt + 1) (drop p data) = take nxt (drop p data) @ [0]"
      using i by (simp add: take_Suc_conv_app_nth)
    ultimately show ?thesis by (metis append_take_drop_id append.assoc append_Cons append_Nil)
  qed
  ultimately show ?case using i(3) nul_strings_Suc_append by metis
qed

lemma parse_entry_wf:
  assumes "parse_entry data tag = Ok e" "fits32 (ht_DataType tag)" "fits32 (ht_Count tag)"
  shows "wf_entry e"
  using assms
  by (auto simp: parse_entry_def wf_entry_def result_simps nat_diff_distrib dest: strings_end_Ok
      split: option.splits)

lemma decode_tag_fits [simp]:
  "fits32 (ht_Tag (decode_tag bs))" "fits32 (ht_DataType (decode_tag bs))"
  "fits32 (ht_Offset (decode_tag bs))" "fits32 (ht_Count (decode_tag bs))"
  by (simp_all add: decode_tag_def int32_at_def)

lemma set_AList_update_subset: "set (AList.update k v al) \<subseteq> insert (k, v) (set al)"
  by (induction al) auto

lemma parse_entries_wf:
  assumes "parse_entries data k buf ents = Ok ents'"
    and "distinct (map fst ents)" and "\<forall>(k, e) \<in> set ents. fits32 k \<and> wf_entry e"
  shows "distinct (map fst ents') \<and> (\<forall>(k, e) \<in> set ents'. fits32 k \<and> wf_entry e)"
  using assms
proof (induction k arbitrary: buf ents)
  case (Suc k)
  let ?tag = "decode_tag (take 16 buf)"
  from Suc.prems(1) obtain e where e: "parse_entry data ?tag = Ok e"
      and rest: "parse_entries data k (drop 16 buf) (AList.update (ht_Tag ?tag) e ents) = Ok ents'"
    by (auto simp: Let_def result_simps split: if_splits)
  have "wf_entry e" by (rule parse_entry_wf [OF e]) simp_all
  with Suc.prems set_AList_update_subset [of "ht_Tag ?tag" e ents]
  show ?case by (intro Suc.IH [OF rest]) (auto simp: distinct_update)
qed simp

lemma parse_header_entries:
  assumes "parse_header env bs fin hash hashType isSrc sigBlock = Ok (h, rest)"
  obtains data k buf where "parse_entries data k buf [] = Ok (entries h)"
  using assms that
  by (simp add: parse_header_def Let_def rbind_eq_Ok_iff split: if_splits) (elim conjE exE, hypsubst, simp)

lemma parse_header_wf:
  assumes "parse_header env bs fin hash hashType isSrc sigBlock = Ok (h, rest)"
  shows "wf_header h"
  by (rule parse_header_entries [OF assms], drule parse_entries_wf) (simp_all add: wf_header_def)

lemma readHeader_Ok_parse:
  assumes "readHeader env f hash hashType isSrc sigBlock = Ok (h, f')"
  shows "parse_header env (reader_pending f) (rd_fin f) hash hashType isSrc sigBlock
           = Ok (h, reader_pending f')"
  using assms readHeader_parse_header [of env f hash hashType isSrc sigBlock] by simp

lemma readHeader_fin:
  assumes "readHeader env f hash hashType isSrc sigBlock = Ok (h, f')"
  shows "rd_fin f' = rd_fin f"
  using assms
  by (auto simp: readHeader_def tee_ReadFull_eq readExact_tee_eq Let_def rbind_eq_Ok_iff split: if_splits)

lemma parse_header_split:
  "parse_header env bs fin hash hashType isSrc sigBlock = Ok (h, rest) \<Longrightarrow>
     bs = orig h @ rest \<and> isSource h = isSrc"
  by (auto simp: parse_header_def Let_def result_simps split: if_splits)
     (metis append_take_drop_id drop_drop)

lemma parse_header_parts:
  assumes "length ib = 16" "hi_Magic (decode_intro ib) = introMagic"
    and "unat (hi_Entries (decode_intro ib) * 16) = length table"
    and "unat (data_size sigBlock (hi_Size (decode_intro ib))) = length data"
  shows "parse_header env (ib @ table @ data @ rest) fin hash hashType src sigBlock =
     rbind (check_hash env hash hashType (ib @ table @ data)) (\<lambda>_.
     rbind (parse_entries data (unat (hi_Entries (decode_intro ib))) table []) (\<lambda>ents.
       Ok (\<lparr>entries = ents, isSource = src, orig = ib @ table @ data\<rparr>, rest)))"
  using assms by (simp add: parse_header_def Let_def)

text \<open>What follows a header has no influence on it.\<close>

lemma parse_header_rest:
  assumes "parse_header env bs fin hash hashType src sigBlock = Ok (h, rest)"
  shows "parse_header env (orig h @ rest') fin' hash hashType src sigBlock = Ok (h, rest')"
proof -
  let ?ib = "take 16 bs" let ?in = "decode_intro ?ib"
  let ?n = "unat (hi_Entries ?in * 16)" and ?m = "unat (data_size sigBlock (hi_Size ?in))"
  let ?t = "take ?n (drop 16 bs)" and ?d = "take ?m (drop ?n (drop 16 bs))"
  from assms obtain ents where *: "16 \<le> length bs" "hi_Magic ?in = introMagic" "?n \<le> length (drop 16 bs)"
      "?m \<le> length (drop ?n (drop 16 bs))" "check_hash env hash hashType (?ib @ ?t @ ?d) = Ok ()"
      "parse_entries ?d (unat (hi_Entries ?in)) ?t [] = Ok ents"
      "h = \<lparr>entries = ents, isSource = src, orig = ?ib @ ?t @ ?d\<rparr>"
    by (auto simp: parse_header_def Let_def rbind_eq_Ok_iff not_less split: if_splits)
  then show ?thesis using parse_header_parts [of ?ib ?t sigBlock ?d env rest' fin' hash hashType src] by simp
qed

section \<open>What the accessors return\<close>

lemma parse_header_digest:
  assumes "parse_header env bs fin hash hashType isSrc sigBlock = Ok (h, rest)" "1 < length hash"
  shows "hash_available env hashType \<and> hex_encode (hash_sum env hashType (orig h)) = hash"
  using assms
  by (auto simp: parse_header_def Let_def rbind_eq_Ok_iff check_hash_def hash_once_def split: if_splits)

text \<open>The split of NUL-terminated strings: the strings, then one empty piece.\<close>

lemma split_on_nul_strings:
  "nul_strings k bs \<Longrightarrow> \<exists>ss. length ss = k \<and> split_on 0 bs = ss @ [[]] \<and>
     bs = concat (map (\<lambda>s. s @ [0]) ss) \<and> (\<forall>s \<in> set ss. 0 \<notin> set s)"
proof (induction k arbitrary: bs)
  case (Suc k)
  then obtain xs ys where bs: "bs = xs @ 0 # ys" "0 \<notin> set xs" "nul_strings k ys"
    by (auto elim: nul_strings_SucE)
  from Suc.IH [OF bs(3)] obtain ss where
    "length ss = k" "split_on 0 ys = ss @ [[]]" "ys = concat (map (\<lambda>s. s @ [0]) ss)" "\<forall>s \<in> set ss. 0 \<notin> set s"
    by blast
  with bs show ?case by (intro exI [of _ "xs # ss"]) (simp add: split_on_append)
qed simp

lemma get_entry_wf: "wf_header hdr \<Longrightarrow> get_entry hdr tag = Some e \<Longrightarrow> wf_entry e \<and> fits32 tag"
  by (auto simp: wf_header_def get_entry_def dest!: map_of_SomeD)

lemma is_string_type_iff: "is_string_type t \<longleftrightarrow> t \<in> {6, 8, 9}"
  by (auto simp: is_string_type_def)

lemma string_entry_nul:
  "wf_entry e \<Longrightarrow> is_string_type (dataType e) \<Longrightarrow> nul_strings (nat (ecount e)) (contents e)"
  by (auto simp: wf_entry_def is_string_type_iff typeSizes_def)

lemma GetStrings_entry:
  assumes "get_entry hdr tag = Some e"
  shows "GetStrings hdr tag =
     (if is_string_type (dataType e) then slice (map string_of_bytes (split_on 0 (contents e))) 0 (ecount e)
      else Err (NotAStringType (dataType e) tag))"
  using assms by (simp add: GetStrings.simps [of hdr tag])

lemma GetStrings_wf:
  assumes "wf_header hdr" "get_entry hdr tag = Some e" "is_string_type (dataType e)" "0 \<le> ecount e"
  shows "\<exists>ss. GetStrings hdr tag = Ok ss \<and> int (length ss) = ecount e
     \<and> contents e = concat (map (\<lambda>s. bytes_of_string s @ [0]) ss)
     \<and> (\<forall>s \<in> set ss. 0 \<notin> set (bytes_of_string s))"
proof -
  have "nul_strings (nat (ecount e)) (contents e)"
    using get_entry_wf [OF assms(1,2)] assms(3) by (intro string_entry_nul) auto
  then obtain ss where ss: "length ss = nat (ecount e)" "split_on 0 (contents e) = ss @ [[]]"
      "contents e = concat (map (\<lambda>s. s @ [0]) ss)" "\<forall>s \<in> set ss. 0 \<notin> set s"
    using split_on_nul_strings by blast
  then have "GetStrings hdr tag = Ok (map string_of_bytes ss)"
    using assms(3,4) by (simp add: GetStrings_entry [OF assms(2)] slice_def)
  with ss assms(4) show ?thesis by (intro exI [of _ "map string_of_bytes ss"]) (simp add: o_def)
qed

lemma be_array_encode:
  "length bs = n * k \<Longrightarrow> 8 * n \<le> LENGTH('a :: len) \<Longrightarrow>
     concat (map (be_encode n) (be_array n k bs :: 'a word list)) = bs"
proof (induction k arbitrary: bs)
  case (Suc k)
  then have "length (take n bs) = n" by simp
  then have "be_encode n (be_decode (take n bs) :: 'a word) = take n bs"
    using Suc.prems(2) be_encode_decode [of "take n bs", where ?'a = 'a] by simp
  with Suc show ?case by simp
qed simp

lemma be_encode_ucast:
  assumes "8 * n \<le> LENGTH('a)" "8 * n \<le> LENGTH('b)"
  shows "be_encode n (ucast (w :: 'a :: len word) :: 'b :: len word) = be_encode n w"
  using assms
proof (induction n)
  case (Suc n)
  have "ucast (drop_bit (8 * n) (ucast w :: 'b word)) = (ucast (drop_bit (8 * n) w) :: byte)"
    using Suc.prems by (intro bit_word_eqI) (auto simp: bit_ucast_iff bit_drop_bit_eq)
  with Suc show ?case by simp
qed simp

lemma splice_paths_general:
  assumes "int j + int (length bases) \<le> int (length idxs)"
    and "\<forall>i < length bases. unat (idxs ! (j + i)) < length dirs"
  shows "splice_paths dirs idxs (int j) bases
     = Ok (map (\<lambda>i. Join (dirs ! unat (idxs ! (j + i))) (bases ! i)) [0..<length bases])"
  using assms
proof (induction bases arbitrary: j)
  case (Cons b bases)
  have "splice_paths dirs idxs (int (Suc j)) bases
      = Ok (map (\<lambda>i. Join (dirs ! unat (idxs ! (Suc j + i))) (bases ! i)) [0..<length bases])"
  proof (rule Cons.IH)
    show "int (Suc j) + int (length bases) \<le> int (length idxs)" using Cons.prems(1) by simp
    show "\<forall>i < length bases. unat (idxs ! (Suc j + i)) < length dirs"
      using Cons.prems(2) by (metis Suc_less_eq add_Suc_shift length_Cons)
  qed
  moreover have "index idxs (int j) = Ok (idxs ! j)" using Cons.prems(1) by simp
  moreover have "index dirs (uint (idxs ! j)) = Ok (dirs ! unat (idxs ! j))"
    using Cons.prems(2) [rule_format, of 0] by (simp add: index_uint)
  ultimately show ?case
    by (simp add: add.commute map_upt_Suc del: upt_Suc)
qed simp

lemmas splice_paths_Ok = splice_paths_general [where j = 0, simplified]

text \<open>The element size of the integer types.\<close>

definition int_size :: "int \<Rightarrow> nat option" where
  "int_size t =
     (if t = RPM_CHAR_TYPE \<or> t = RPM_INT8_TYPE then Some 1 else if t = RPM_INT16_TYPE then Some 2
      else if t = RPM_INT32_TYPE then Some 4 else if t = RPM_INT64_TYPE then Some 8 else None)"

primrec go_uint64s :: "go_ints \<Rightarrow> 64 word list" where
  "go_uint64s (U8s vs) = map ucast vs"
| "go_uint64s (U16s vs) = map ucast vs"
| "go_uint64s (U32s vs) = map ucast vs"
| "go_uint64s (U64s vs) = vs"

primrec go_width :: "go_ints \<Rightarrow> nat" where
  "go_width (U8s _) = 1" | "go_width (U16s _) = 2" | "go_width (U32s _) = 4" | "go_width (U64s _) = 8"

lemma GetUint64s_eq:
  "GetUint64s hdr tag = rbind (getInts hdr tag) (\<lambda>(buf, n). Ok (go_uint64s buf))"
  by (auto simp: GetUint64s_def intro!: arg_cong [where f = "rbind (getInts hdr tag)"] split: go_ints.splits)

lemma ints_of_uint32s_Ok:
  "ints_of_uint32s tag i vs = Ok xs \<longleftrightarrow> xs = map uint vs \<and> (\<forall>v \<in> set vs. v \<le> 2 ^ 31 - 1)"
  by (induction vs arbitrary: i xs) (auto simp: result_simps not_less)

lemma uint_ucast_up: "LENGTH('a) \<le> LENGTH('b) \<Longrightarrow> uint (ucast (w :: 'a :: len word) :: 'b :: len word) = uint w"
  by (simp add: uint_up_ucast is_up_def target_size source_size)

lemma ucast_ucast_up:
  "LENGTH('a) \<le> LENGTH('b) \<Longrightarrow> ucast (ucast (w :: 'a :: len word) :: 'b :: len word) = (ucast w :: 'c :: len word)"
  by (intro bit_word_eqI) (auto simp: bit_ucast_iff dest: bit_imp_le_length)

lemma uint_narrow: "LENGTH('a) < 32 \<Longrightarrow> uint (w :: 'a :: len word) < 2 ^ 31"
  using power_increasing [of "LENGTH('a)" 31 "2 :: int"] less_le_trans [OF uint_lt2p [of w]] by simp

lemma getInts_wf:
  assumes "wf_header hdr" "get_entry hdr tag = Some e" "int_size (dataType e) = Some n"
  shows "\<exists>buf. getInts hdr tag = Ok (buf, nat (ecount e)) \<and> go_width buf = n
     \<and> int (length (go_uint64s buf)) = ecount e
     \<and> concat (map (be_encode n) (go_uint64s buf)) = contents e"
proof -
  have "wf_entry e" using get_entry_wf assms by blast
  with assms(3) have len: "int (length (contents e)) = int n * ecount e" "0 < n"
    by (auto simp: wf_entry_def int_size_def typeSizes_def split: if_splits)
  then have "0 \<le> int n * ecount e" by linarith
  with len(2) have cnt: "0 \<le> ecount e" by (simp add: zero_le_mult_iff)
  then have "int (length (contents e)) = int (n * nat (ecount e))" using len(1) by simp
  then have len': "length (contents e) = n * nat (ecount e)" by (simp only: of_nat_eq_iff)
  show ?thesis
    using assms(2,3) cnt len'
    by (auto simp: getInts_def Let_def int_size_def be_encode_ucast be_array_encode o_def split: if_splits)
qed

section \<open>Which entry a tag has\<close>

text \<open>
  The table as a list of records, and the store it describes: a record that comes later
  replaces an earlier one of the same tag, as the assignment to the Go map does.
\<close>

primrec table_tags :: "nat \<Rightarrow> bytes \<Rightarrow> headerTag list" where
  "table_tags 0 buf = []"
| "table_tags (Suc k) buf = decode_tag (take 16 buf) # table_tags k (drop 16 buf)"

lemma parse_entries_lookup:
  assumes "parse_entries data k buf ents = Ok ents'"
  shows "(\<forall>t \<in> set (table_tags k buf). is_Ok (parse_entry data t)) \<and>
     (case find (\<lambda>t. ht_Tag t = tag) (rev (table_tags k buf)) of
        None \<Rightarrow> map_of ents' tag = map_of ents tag
      | Some t \<Rightarrow> \<exists>e. parse_entry data t = Ok e \<and> map_of ents' tag = Some e)"
  using assms
proof (induction k arbitrary: buf ents)
  case (Suc k)
  let ?t = "decode_tag (take 16 buf)"
  from Suc.prems obtain e where e: "parse_entry data ?t = Ok e"
      and rest: "parse_entries data k (drop 16 buf) (AList.update (ht_Tag ?t) e ents) = Ok ents'"
    by (auto simp: Let_def result_simps split: if_splits)
  have find_snoc: "find P (xs @ [x]) = (case find P xs of None \<Rightarrow> if P x then Some x else None | Some y \<Rightarrow> Some y)"
    for P and x :: headerTag and xs by (induction xs) auto
  from Suc.IH [OF rest] e show ?case
    by (auto simp: find_snoc update_conv' split: option.splits)
qed simp

lemma strings_end_bounds:
  assumes "0 \<le> pos" "pos \<le> int (length data)"
  shows "no_panic (strings_end data tag k pos) \<and>
      (\<forall>stop. strings_end data tag k pos = Ok stop \<longrightarrow> stop \<le> int (length data))"
  using assms
proof (induction k arbitrary: pos)
  case (Suc k)
  have sl: "slice data pos (int (length data)) = Ok (drop (nat pos) data)"
    using Suc.prems by (simp add: slice_def)
  show ?case
  proof (cases "index_byte (drop (nat pos) data) 0")
    case (Some nxt)
    then have "pos + int nxt + 1 \<le> int (length data)"
      using Suc.prems by (auto simp: index_byte_Some)
    with Suc.IH [of "pos + int nxt + 1"] Suc.prems Some sl show ?thesis by simp
  qed (simp add: sl del: index_byte_None)
qed simp

text \<open>The records of a table that lie inside the data area.\<close>

definition tag_in_range :: "bytes \<Rightarrow> headerTag \<Rightarrow> bool" where
  "tag_in_range data t \<longleftrightarrow> 0 \<le> ht_Offset t \<and> ht_Offset t \<le> int (length data) \<and>
     (case typeSizes (ht_DataType t) of
        None \<Rightarrow> True
      | Some n \<Rightarrow> 0 \<le> int n * ht_Count t \<and> ht_Offset t + int n * ht_Count t \<le> int (length data))"

lemma parse_entry_panic_iff: "no_panic (parse_entry data t) \<longleftrightarrow> tag_in_range data t"
proof (cases "typeSizes (ht_DataType t)")
  case (Some n)
  then show ?thesis by (auto simp: parse_entry_def no_panic_rbind no_panic_slice tag_in_range_def)
next
  case None
  let ?k = "nat (ht_Count t)"
  show ?thesis
  proof (cases "0 \<le> ht_Offset t \<and> ht_Offset t \<le> int (length data)")
    case True
    with None strings_end_bounds [of "ht_Offset t" data "ht_Tag t" ?k] show ?thesis
      by (auto simp: parse_entry_def no_panic_rbind no_panic_slice tag_in_range_def dest: strings_end_mono)
  next
    case False
    then have "strings_end data (ht_Tag t) ?k (ht_Offset t)
        = (if ?k = 0 then Ok (ht_Offset t) else Panic SliceOutOfRange)"
      by (cases ?k) (auto simp: slice_def)
    with None False show ?thesis
      by (auto simp: parse_entry_def slice_def tag_in_range_def)
  qed
qed

lemma parse_entries_no_panic:
  assumes "\<forall>t \<in> set (table_tags k buf). tag_in_range data t"
  shows "no_panic (parse_entries data k buf ents)"
  using assms
  by (induction k arbitrary: buf ents) (auto simp: Let_def no_panic_rbind parse_entry_panic_iff)

lemma slice_Panic: "slice xs lo hi = Panic p \<Longrightarrow> p = SliceOutOfRange"
  by (simp add: slice_def split: if_splits)

lemma strings_end_Panic: "strings_end data tag k pos = Panic p \<Longrightarrow> p = SliceOutOfRange"
  by (induction k arbitrary: pos) (auto simp: result_simps dest: slice_Panic split: option.splits)

lemma parse_entry_out_of_range:
  assumes "\<not> tag_in_range data t"
  shows "parse_entry data t = Panic SliceOutOfRange"
proof -
  have "\<not> no_panic (parse_entry data t)" using assms by (simp add: parse_entry_panic_iff)
  then obtain p where p: "parse_entry data t = Panic p" by (cases "parse_entry data t") auto
  then have "p = SliceOutOfRange"
    by (auto simp: parse_entry_def result_simps dest: slice_Panic strings_end_Panic split: option.splits)
  then show ?thesis using p by simp
qed

lemma parse_entries_out_of_range:
  assumes "table_tags k buf = before @ t # after" "16 * Suc (length before) \<le> length buf"
    and "\<forall>u \<in> set before. is_Ok (parse_entry data u)" "\<not> tag_in_range data t"
  shows "parse_entries data k buf ents = Panic SliceOutOfRange"
  using assms(1-3)
proof (induction k arbitrary: buf ents before)
  case (Suc k)
  show ?case
  proof (cases before)
    case Nil
    then show ?thesis using Suc.prems parse_entry_out_of_range [OF assms(4)] by (simp add: Let_def)
  next
    case (Cons u us)
    then obtain e where "parse_entry data (decode_tag (take 16 buf)) = Ok e"
      using Suc.prems(1,3) by (cases "parse_entry data u") auto
    then show ?thesis using Suc.IH [of "drop 16 buf" us] Suc.prems Cons by (simp add: Let_def)
  qed
qed simp

text \<open>The intro, the table and the data area of the bytes a header was read from.\<close>

definition orig_intro :: "rpmHeader \<Rightarrow> headerIntro" where
  "orig_intro h = decode_intro (take 16 (orig h))"

definition orig_table :: "rpmHeader \<Rightarrow> bytes" where
  "orig_table h = take (unat (hi_Entries (orig_intro h) * 16)) (drop 16 (orig h))"

definition orig_data :: "rpmHeader \<Rightarrow> bytes" where
  "orig_data h = drop (16 + unat (hi_Entries (orig_intro h) * 16)) (orig h)"

lemma parse_header_areas:
  assumes "parse_header env bs fin hash hashType isSrc sigBlock = Ok (h, rest)"
  shows "parse_entries (orig_data h) (unat (hi_Entries (orig_intro h))) (orig_table h) [] = Ok (entries h)"
  using assms
  by (simp add: parse_header_def Let_def rbind_eq_Ok_iff split: if_splits)
     (elim conjE exE, hypsubst, simp add: orig_intro_def orig_table_def orig_data_def)

section \<open>Properties\<close>

text \<open>A header area with two tags, delivered in pieces, and a toy digest.\<close>

definition sample_env :: crypto_env where
  "sample_env = \<lparr>hash_available = (\<lambda>h. h \<in> {2, 3, 5}),
     hash_sum = (\<lambda>h bs. [foldr (XOR) bs (word_of_nat h), word_of_nat (length bs)])\<rparr>"

definition sample_area :: bytes where
  "sample_area =
     [0x8e, 0xad, 0xe8, 0x01, 0, 0, 0, 0, 0, 0, 0, 2, 0, 0, 0, 12,
      0, 0, 3, 0xf1, 0, 0, 0, 4, 0, 0, 0, 0, 0, 0, 0, 2,
      0, 0, 3, 0xe8, 0, 0, 0, 6, 0, 0, 0, 8, 0, 0, 0, 1,
      0, 0, 0, 5, 0, 0, 0x12, 0x34, 0x66, 0x6f, 0x6f, 0]"

definition sample_stream :: reader where
  "sample_stream =
     \<lparr>rd_chunks = [take 7 sample_area, [], drop 7 sample_area @ [1, 2], [3]], rd_fin = EOF, rd_eager = True\<rparr>"

definition sample_header :: rpmHeader where
  "sample_header = \<lparr>entries =
      [(1009, \<lparr>dataType = 4, ecount = 2, contents = [0, 0, 0, 5, 0, 0, 0x12, 0x34]\<rparr>),
       (1000, \<lparr>dataType = 6, ecount = 1, contents = [0x66, 0x6f, 0x6f, 0]\<rparr>)],
     isSource = False, orig = sample_area\<rparr>"

definition sample_rest :: reader where
  "sample_rest = \<lparr>rd_chunks = [[1, 2], [3]], rd_fin = EOF, rd_eager = True\<rparr>"

lemma sample_read:
  "readHeader sample_env sample_stream ''943c'' crypto_SHA256 False False = Ok (sample_header, sample_rest)"
  by code_simp

lemma sample_header_wf: "wf_header sample_header"
  using parse_header_wf readHeader_Ok_parse [OF sample_read] by blast

text \<open>
  C1.  \<open>readHeader\<close> depends only on the bytes of the stream: however its reads are
  fragmented, and whether the error comes with the last bytes or after them, it returns what
  the reference parser \<open>parse_header\<close> returns on the bytes that are left, errors and
  panics included, and leaves exactly the bytes the reference parser leaves.
\<close>

theorem readHeader_refines_parser:
  "map_result (\<lambda>(h, r). (h, reader_pending r)) (readHeader env f hash hashType isSrc sigBlock)
     = parse_header env (reader_pending f) (rd_fin f) hash hashType isSrc sigBlock"
  by (rule readHeader_parse_header)

text \<open>
  C2.  A header that \<open>readHeader\<close> returns is well-formed: no tag twice; every tag, type
  and count a 32-bit number; the contents of a fixed-size type as long as count times size;
  the contents of any other type exactly count NUL-terminated strings.  Its \<open>orig\<close> is
  what was consumed of the stream, byte for byte.
\<close>

theorem readHeader_wf:
  assumes "readHeader env f hash hashType isSrc sigBlock = Ok (h, f')"
  shows "wf_header h \<and> reader_pending f = orig h @ reader_pending f' \<and> isSource h = isSrc"
  using readHeader_Ok_parse [OF assms] parse_header_wf parse_header_split by blast

theorem readHeader_wf_witness:
  "wf_header sample_header \<and> reader_pending sample_stream = orig sample_header @ reader_pending sample_rest
     \<and> isSource sample_header = False"
  by (rule readHeader_wf [OF sample_read])

text \<open>
  When a digest is given (more than one character), a header is only returned if that
  digest is the one of the consumed bytes: the general header of a package cannot be changed
  without its digest in the signature header being changed too, up to collisions.
\<close>

theorem readHeader_checks_digest:
  assumes "readHeader env f hash hashType isSrc sigBlock = Ok (h, f')" "1 < length hash"
  shows "hash_available env hashType \<and> hex_encode (hash_sum env hashType (orig h)) = hash"
  using parse_header_digest [OF readHeader_Ok_parse [OF assms(1)] assms(2)] .

theorem readHeader_checks_digest_witness:
  "hash_available sample_env crypto_SHA256
     \<and> hex_encode (hash_sum sample_env crypto_SHA256 (orig sample_header)) = ''943c''"
  by (rule readHeader_checks_digest [OF sample_read]) simp

text \<open>
  C17.  The entry of a tag is that of the last record of the table with this tag, cut out of
  the data area; a tag without a record is absent.  The table and the data area are the
  bytes after the sixteen bytes of the intro.
\<close>

theorem readHeader_lookup:
  assumes "readHeader env f hash hashType isSrc sigBlock = Ok (h, f')"
  shows "case find (\<lambda>t. ht_Tag t = tag)
             (rev (table_tags (unat (hi_Entries (orig_intro h))) (orig_table h))) of
        None \<Rightarrow> get_entry h tag = None
      | Some t \<Rightarrow> \<exists>e. parse_entry (orig_data h) t = Ok e \<and> get_entry h tag = Some e"
  using parse_entries_lookup [OF parse_header_areas [OF readHeader_Ok_parse [OF assms]], of tag]
  by (auto simp: get_entry_def split: option.splits)

theorem readHeader_lookup_witness:
  "case find (\<lambda>t. ht_Tag t = 1000)
             (rev (table_tags (unat (hi_Entries (orig_intro sample_header))) (orig_table sample_header))) of
        None \<Rightarrow> get_entry sample_header 1000 = None
      | Some t \<Rightarrow> \<exists>e. parse_entry (orig_data sample_header) t = Ok e \<and> get_entry sample_header 1000 = Some e"
  by (rule readHeader_lookup [OF sample_read])

text \<open>
  C18.  \<open>readHeader\<close> does not panic if no digest is given, or the digest algorithm is
  available, and every record of the table that is read points into the data area.
\<close>

theorem readHeader_no_panic:
  assumes "1 < length hash \<longrightarrow> hash_available env hashType"
    and "\<forall>t \<in> set (table_tags (unat (hi_Entries intro)) table). tag_in_range data t"
    and "intro = decode_intro (take 16 (reader_pending f))"
    and "table = take (unat (hi_Entries intro * 16)) (drop 16 (reader_pending f))"
    and "data = take (unat (data_size sigBlock (hi_Size intro)))
           (drop (16 + unat (hi_Entries intro * 16)) (reader_pending f))"
  shows "no_panic (readHeader env f hash hashType isSrc sigBlock)"
proof -
  have "no_panic (parse_header env (reader_pending f) (rd_fin f) hash hashType isSrc sigBlock)"
    using assms parse_entries_no_panic [OF assms(2)]
    by (auto simp: parse_header_def Let_def no_panic_rbind check_hash_def hash_once_def add.commute)
  then show ?thesis
    by (simp flip: readHeader_parse_header)
qed

theorem readHeader_no_panic_witness:
  "no_panic (readHeader sample_env sample_stream '''' 0 False False)"
  by (rule readHeader_no_panic [OF _ _ refl refl refl]) code_simp+


text \<open>
  C19.  The bounds are needed, because the code does not check them: every complete header with the right
  magic and digest that has a record in its table whose offset is negative or behind the data
  area, or whose numbers do not fit into the rest of the data area, makes \<open>readHeader\<close> panic
  with a slice index out of range, if the records before it can be read.
\<close>

theorem readHeader_offset_panic:
  assumes "intro = decode_intro (take 16 (reader_pending f))" "hi_Magic intro = introMagic"
    and "n = unat (hi_Entries intro * 16)" "m = unat (data_size sigBlock (hi_Size intro))"
    and "16 + n + m \<le> length (reader_pending f)"
    and "check_hash env hash hashType (take (16 + n + m) (reader_pending f)) = Ok ()"
    and "data = take m (drop (16 + n) (reader_pending f))"
    and "table_tags (unat (hi_Entries intro)) (take n (drop 16 (reader_pending f))) = before @ t # after"
    and "16 * Suc (length before) \<le> n"
    and "\<forall>u \<in> set before. is_Ok (parse_entry data u)" "\<not> tag_in_range data t"
  shows "readHeader env f hash hashType isSrc sigBlock = Panic SliceOutOfRange"
proof -
  let ?bs = "reader_pending f"
  have "16 * Suc (length before) \<le> length (take n (drop 16 ?bs))" using assms(5,9) by simp
  note panic = parse_entries_out_of_range [OF assms(8) this assms(10,11), of "[]"]
  have buf: "take 16 ?bs @ take n (drop 16 ?bs) @ take m (drop n (drop 16 ?bs)) = take (16 + n + m) ?bs"
    by (simp only: take_add append_assoc drop_drop add.commute [of n 16])
  have data: "take m (drop n (drop 16 ?bs)) = data" by (simp add: assms(7) add.commute)
  have "parse_header env ?bs (rd_fin f) hash hashType isSrc sigBlock = Panic SliceOutOfRange"
    unfolding parse_header_def Let_def assms(1) [symmetric] assms(3,4) [symmetric] buf
    unfolding data using assms(2,5,6) panic by simp arith
  then show ?thesis
    using readHeader_parse_header [of env f hash hashType isSrc sigBlock]
    by (cases "readHeader env f hash hashType isSrc sigBlock") auto
qed

text \<open>A header of two records, the second one with an offset behind the data area.\<close>

definition bad_offset_area :: bytes where
  "bad_offset_area =
     [0x8e, 0xad, 0xe8, 0x01, 0, 0, 0, 0, 0, 0, 0, 2, 0, 0, 0, 4,
      0, 0, 3, 0xf1, 0, 0, 0, 4, 0, 0, 0, 0, 0, 0, 0, 1,
      0, 0, 3, 0xe8, 0, 0, 0, 6, 0, 0, 0, 9, 0, 0, 0, 1,
      0, 0, 0, 5]"

theorem readHeader_offset_panic_witness:
  "readHeader sample_env (reader_of bad_offset_area) '''' 0 False False = Panic SliceOutOfRange"
proof (rule readHeader_offset_panic [OF refl _ refl refl _ _ refl])
  let ?i = "decode_intro (take 16 (reader_pending (reader_of bad_offset_area)))"
  show "table_tags (unat (hi_Entries ?i)) (take (unat (hi_Entries ?i * 16)) (drop 16 (reader_pending (reader_of bad_offset_area))))
     = [\<lparr>ht_Tag = 1009, ht_DataType = 4, ht_Offset = 0, ht_Count = 1\<rparr>]
       @ \<lparr>ht_Tag = 1000, ht_DataType = 6, ht_Offset = 9, ht_Count = 1\<rparr> # []"
    by code_simp
qed code_simp+

text \<open>
  C24.  On a well-formed header \<open>GetStrings\<close> inverts the on-disk form of a string tag: as many
  strings as the count says, none with a NUL byte, which written one after the other with a
  terminating NUL give back the contents of the tag.
\<close>

theorem GetStrings_decodes:
  assumes "wf_header hdr" "get_entry hdr tag = Some e" "is_string_type (dataType e)" "0 \<le> ecount e"
  shows "\<exists>ss. GetStrings hdr tag = Ok ss \<and> int (length ss) = ecount e
     \<and> contents e = concat (map (\<lambda>s. bytes_of_string s @ [0]) ss)
     \<and> (\<forall>s \<in> set ss. 0 \<notin> set (bytes_of_string s))"
  using assms by (rule GetStrings_wf)

theorem GetStrings_decodes_witness:
  "\<exists>ss. GetStrings sample_header 1000 = Ok ss \<and> int (length ss) = 1
     \<and> [0x66, 0x6f, 0x6f, 0] = concat (map (\<lambda>s. bytes_of_string s @ [0]) ss)
     \<and> (\<forall>s \<in> set ss. 0 \<notin> set (bytes_of_string s))"
  using GetStrings_decodes
    [of sample_header 1000 "\<lparr>dataType = 6, ecount = 1, contents = [0x66, 0x6f, 0x6f, 0]\<rparr>"]
  by (simp add: sample_header_wf is_string_type_def) (simp add: sample_header_def get_entry_def)

text \<open>
  C26.  On a well-formed header \<open>GetUint64s\<close> reads every integer type: as many numbers as the
  count says, whose big-endian forms, in the width of the stored type, are the contents of the
  tag.  The narrower accessors agree with it: what \<open>GetUint32s\<close> and \<open>GetInts\<close> return are the
  same numbers, \<open>GetInts\<close> only when all of them are below \<open>2 ^ 31\<close>; and they return
  them for every type but the 64-bit one.
\<close>

theorem integer_accessors:
  assumes "wf_header hdr" "get_entry hdr tag = Some e" "int_size (dataType e) = Some n"
  shows "\<exists>vs. GetUint64s hdr tag = Ok vs \<and> int (length vs) = ecount e
     \<and> concat (map (be_encode n) vs) = contents e
     \<and> (n < 8 \<longleftrightarrow> is_Ok (GetUint32s hdr tag))
     \<and> (\<forall>us. GetUint32s hdr tag = Ok us \<longrightarrow> map ucast us = vs)
     \<and> (\<forall>is. GetInts hdr tag = Ok is \<longleftrightarrow> n < 8 \<and> is = map uint vs \<and> (\<forall>v \<in> set vs. uint v < 2 ^ 31))"
proof -
  obtain buf where buf: "getInts hdr tag = Ok (buf, nat (ecount e))" "go_width buf = n"
      "int (length (go_uint64s buf)) = ecount e" "concat (map (be_encode n) (go_uint64s buf)) = contents e"
    using getInts_wf [OF assms] by blast
  show ?thesis
    using buf
    by (intro exI [of _ "go_uint64s buf"])
       (cases buf; auto simp: GetUint64s_eq GetUint32s_def GetInts_def ints_of_uint32s_Ok uint_ucast_up
          ucast_ucast_up o_def word_le_def uint_narrow [simplified])
qed


theorem integer_accessors_witness:
  "\<exists>vs. GetUint64s sample_header 1009 = Ok vs \<and> int (length vs) = 2
     \<and> concat (map (be_encode 4) vs) = [0, 0, 0, 5, 0, 0, 0x12, 0x34]
     \<and> ((4 :: nat) < 8 \<longleftrightarrow> is_Ok (GetUint32s sample_header 1009))
     \<and> (\<forall>us. GetUint32s sample_header 1009 = Ok us \<longrightarrow> map ucast us = vs)
     \<and> (\<forall>is. GetInts sample_header 1009 = Ok is \<longleftrightarrow>
          (4 :: nat) < 8 \<and> is = map uint vs \<and> (\<forall>v \<in> set vs. uint v < 2 ^ 31))"
proof -
  have "get_entry sample_header 1009 =
      Some \<lparr>dataType = 4, ecount = 2, contents = [0, 0, 0, 5, 0, 0, 0x12, 0x34]\<rparr>"
    by (simp add: sample_header_def get_entry_def)
  from integer_accessors [OF sample_header_wf this, of 4] show ?thesis by (simp add: int_size_def)
qed

text \<open>
  C25.  The untyped accessor respects the types of the tags: on a well-formed header \<open>Get\<close> returns
  the strings of a string tag, the numbers of an integer tag in the width of its type and the
  bytes of a binary tag, in each case as many as the count of the tag says; it returns the
  error for an unsupported type only for other types, and panics only for a string tag with a
  negative count.
\<close>

theorem Get_typed:
  assumes "wf_header hdr" "get_entry hdr tag = Some e"
  shows "case Get hdr tag of
       Ok (VStrings v) \<Rightarrow> is_string_type (dataType e) \<and> int (length v) = ecount e
     | Ok (VInts b) \<Rightarrow> int_size (dataType e) = Some (go_width b) \<and> int (length (go_uint64s b)) = ecount e
     | Ok (VBytes b) \<Rightarrow> dataType e = RPM_BIN_TYPE \<and> int (length b) = ecount e \<and> b = contents e
     | Err x \<Rightarrow> x = UnsupportedDataType \<and> \<not> is_string_type (dataType e) \<and> int_size (dataType e) = None
                 \<and> dataType e \<noteq> RPM_BIN_TYPE
     | Panic p \<Rightarrow> is_string_type (dataType e) \<and> ecount e < 0"
proof -
  consider "is_string_type (dataType e)" "0 \<le> ecount e" | "is_string_type (dataType e)" "ecount e < 0"
    | n where "int_size (dataType e) = Some n" "\<not> is_string_type (dataType e)"
    | "dataType e = RPM_BIN_TYPE"
    | "\<not> is_string_type (dataType e)" "int_size (dataType e) = None" "dataType e \<noteq> RPM_BIN_TYPE"
    by (cases "int_size (dataType e)") force+
  then show ?thesis
  proof cases
    case 1
    then show ?thesis using GetStrings_wf [OF assms] assms(2) by (auto simp: Get_def)
  next
    case 2
    then show ?thesis using assms(2) by (simp add: Get_def GetStrings_entry [OF assms(2)] slice_def)
  next
    case 3
    then have "dataType e \<in> {RPM_INT8_TYPE, RPM_INT16_TYPE, RPM_INT32_TYPE, RPM_INT64_TYPE, RPM_CHAR_TYPE}"
      by (auto simp: int_size_def split: if_splits)
    with 3 getInts_wf [OF assms 3(1)] show ?thesis using assms(2) by (auto simp: Get_def)
  next
    case 4
    have "wf_entry e" using get_entry_wf assms by blast
    then have "int (length (contents e)) = ecount e" using 4 by (simp add: wf_entry_def typeSizes_def)
    with 4 show ?thesis using assms(2) by (simp add: Get_def GetBytes_def is_string_type_def)
  next
    case 5
    then have "dataType e \<notin> {RPM_INT8_TYPE, RPM_INT16_TYPE, RPM_INT32_TYPE, RPM_INT64_TYPE, RPM_CHAR_TYPE}"
      by (auto simp: int_size_def)
    with 5 show ?thesis using assms(2) by (simp add: Get_def)
  qed
qed

theorem Get_typed_witness:
  "\<exists>b. Get sample_header 1009 = Ok (VInts b) \<and> go_width b = 4 \<and> length (go_uint64s b) = 2"
proof -
  have e: "get_entry sample_header 1009 =
      Some \<lparr>dataType = 4, ecount = 2, contents = [0, 0, 0, 5, 0, 0, 0x12, 0x34]\<rparr>"
    by (simp add: sample_header_def get_entry_def)
  from Get_typed [OF sample_header_wf e] show ?thesis
    by (auto simp: int_size_def is_string_type_def split: result.splits go_value.splits)
qed

text \<open>
  C27.  Without an \<open>OLDFILENAMES\<close> tag, \<open>GetStrings\<close> splices the file names together from
  the directory of each file and its base name, provided every directory index is in range.
\<close>

theorem GetStrings_splices:
  assumes "get_entry hdr OLDFILENAMES = None"
    and "GetStrings hdr DIRNAMES = Ok dirs" "GetUint32s hdr DIRINDEXES = Ok idxs"
    and "GetStrings hdr BASENAMES = Ok bases" "length bases \<le> length idxs"
    and "\<forall>i < length bases. unat (idxs ! i) < length dirs"
  shows "GetStrings hdr OLDFILENAMES
     = Ok (map (\<lambda>i. Join (dirs ! unat (idxs ! i)) (bases ! i)) [0..<length bases])"
  using assms by (simp add: GetStrings.simps [of hdr OLDFILENAMES] splice_paths_Ok)

definition spliced_header :: rpmHeader where
  "spliced_header = \<lparr>entries =
      [(1116, \<lparr>dataType = 4, ecount = 1, contents = [0, 0, 0, 0]\<rparr>),
       (1117, \<lparr>dataType = 8, ecount = 1, contents = bytes_of_string ''ls'' @ [0]\<rparr>),
       (1118, \<lparr>dataType = 8, ecount = 1, contents = bytes_of_string ''/bin/'' @ [0]\<rparr>)],
     isSource = False, orig = []\<rparr>"

theorem GetStrings_splices_witness:
  "GetStrings spliced_header OLDFILENAMES = Ok [''/bin/ls'']"
proof -
  have "GetStrings spliced_header OLDFILENAMES
      = Ok (map (\<lambda>i. Join ([''/bin/''] ! unat ([0 :: 32 word] ! i)) ([''ls''] ! i)) [0..<length [''ls'']])"
    by (rule GetStrings_splices) code_simp+
  also have "\<dots> = Ok [''/bin/ls'']" by code_simp
  finally show ?thesis .
qed

end
