(* ===== verification/Vercmp.thy ===== *)
theory Vercmp
  imports Prelude "HOL-Library.Char_ord" "HOL-Library.List_Lexorder" "HOL-Library.Product_Lexorder"
    "HOL-Library.Multiset"
begin

text \<open>
  \<^verbatim>\<open>vercmp.go\<close>: comparison of version strings.  \<open>Vercmp\<close> is the loop of the source over
  the two strings; the three regular expressions are functions that return the submatches.
  The reference is the list of segments of a version string, compared in lexicographic
  order; from it follows that \<open>Vercmp\<close> is a total preorder, which is what
  \<^verbatim>\<open>sort.Sort\<close> asks of \<open>Less\<close>.
\<close>

named_theorems vercmp_chars \<open>character classes of version strings\<close>

section \<open>Regular expressions\<close>

definition is_digit :: "char \<Rightarrow> bool" where
  "is_digit c \<longleftrightarrow> CHR ''0'' \<le> c \<and> c \<le> CHR ''9''"

definition is_alpha :: "char \<Rightarrow> bool" where
  "is_alpha c \<longleftrightarrow> (CHR ''a'' \<le> c \<and> c \<le> CHR ''z'') \<or> (CHR ''A'' \<le> c \<and> c \<le> CHR ''Z'')"

abbreviation (input) tilde :: char where "tilde \<equiv> CHR ''~''"
abbreviation (input) newline :: char where "newline \<equiv> CHR 0x0A"

text \<open>A character matched by the class \<^verbatim>\<open>[^a-zA-Z0-9~]\<close>.\<close>

definition is_junk :: "char \<Rightarrow> bool" where
  "is_junk c \<longleftrightarrow> \<not> (is_alpha c \<or> is_digit c \<or> c = tilde)"

text \<open>
  \<^verbatim>\<open>^([class]*)(.*)$\<close>: the longest prefix in the class and the rest; \<^verbatim>\<open>.\<close> does not match a
  newline and \<^verbatim>\<open>$\<close> only matches at the end, so a newline in the rest is no match.
\<close>

definition submatch :: "(char \<Rightarrow> bool) \<Rightarrow> string \<Rightarrow> (string \<times> string) option" where
  "submatch p s =
     (if newline \<in> set (dropWhile p s) then None else Some (takeWhile p s, dropWhile p s))"

definition R_NONALNUMTILDE :: "string \<Rightarrow> (string \<times> string) option" where
  "R_NONALNUMTILDE s = submatch is_junk s"

definition R_NUM :: "string \<Rightarrow> (string \<times> string) option" where
  "R_NUM s = (if takeWhile is_digit s = [] then None else submatch is_digit s)"

definition R_ALPHA :: "string \<Rightarrow> (string \<times> string) option" where
  "R_ALPHA s = (if takeWhile is_alpha s = [] then None else submatch is_alpha s)"

definition has_tilde :: "string \<Rightarrow> bool" where
  "has_tilde s = (case s of [] \<Rightarrow> False | c # _ \<Rightarrow> c = tilde)"

definition trim_zeros :: "string \<Rightarrow> string" where
  "trim_zeros = dropWhile (\<lambda>c. c = CHR ''0'')"

section \<open>The comparison loop\<close>

lemma submatch_Some:
  "submatch p s = Some (h, r) \<longleftrightarrow>
     newline \<notin> set r \<and> h = takeWhile p s \<and> r = dropWhile p s"
  by (auto simp: submatch_def)

lemma submatch_length: "submatch p s = Some (h, r) \<Longrightarrow> length h + length r = length s"
  by (auto simp: submatch_Some) (metis length_append takeWhile_dropWhile_id)

lemma submatch_shrinks:
  "submatch p s = Some (h, r) \<Longrightarrow> takeWhile p s \<noteq> [] \<Longrightarrow> length r < length s"
  using submatch_length [of p s h r] by (auto simp: submatch_Some simp flip: length_greater_0_conv)

lemma R_NONALNUMTILDE_length:
  "R_NONALNUMTILDE s = Some (h, r) \<Longrightarrow> length s = length h + length r"
  by (auto simp: R_NONALNUMTILDE_def dest: submatch_length)

lemma R_NUM_length: "R_NUM s = Some (h, r) \<Longrightarrow> length r < length s"
  by (auto simp: R_NUM_def split: if_splits dest: submatch_shrinks)

lemma R_ALPHA_length: "R_ALPHA s = Some (h, r) \<Longrightarrow> length r < length s"
  by (auto simp: R_ALPHA_def split: if_splits dest: submatch_shrinks)

text \<open>The code after the loop.\<close>

definition vercmp_end :: "string \<Rightarrow> string \<Rightarrow> int" where
  "vercmp_end first second =
     (if length first = 0 \<and> length second = 0 then 0
      else if length first \<noteq> 0 then 1
      else -1)"

function Vercmp :: "string \<Rightarrow> string \<Rightarrow> int" where
  "Vercmp first second =
     (if first = '''' \<and> second = '''' then vercmp_end first second
      else
     (case (R_NONALNUMTILDE first, R_NONALNUMTILDE second) of
        (Some (m1Head, first1), Some (m2Head, second1)) \<Rightarrow>
          if m1Head \<noteq> '''' \<or> m2Head \<noteq> '''' then Vercmp first1 second1
          else if has_tilde first1 then
            (if \<not> has_tilde second1 then -1 else Vercmp (tl first1) (tl second1))
          else if has_tilde second1 then 1
          else if first1 = '''' \<or> second1 = '''' then vercmp_end first1 second1
          else
         (case R_NUM first1 of
            Some (n1, first2) \<Rightarrow>
              (case R_NUM second1 of
                 None \<Rightarrow> 1
               | Some (n2, second2) \<Rightarrow>
                   let h1 = trim_zeros n1; h2 = trim_zeros n2 in
                   if length h1 < length h2 then -1
                   else if length h1 > length h2 then 1
                   else if h1 < h2 then -1
                   else if h1 > h2 then 1
                   else Vercmp first2 second2)
          | None \<Rightarrow>
              (case R_ALPHA first1 of
                 None \<Rightarrow> -1
               | Some (h1, first2) \<Rightarrow>
                   (case R_ALPHA second1 of
                      None \<Rightarrow> -1
                    | Some (h2, second2) \<Rightarrow>
                        if h1 < h2 then -1
                        else if h1 > h2 then 1
                        else Vercmp first2 second2)))
      | _ \<Rightarrow> 0))"
  by pat_completeness auto
termination
  by (relation "measure (\<lambda>(a, b). length a + length b)")
     (auto simp: has_tilde_def dest!: R_NONALNUMTILDE_length [OF sym] R_NUM_length R_ALPHA_length
        split: list.splits)

declare Vercmp.simps [simp del]

section \<open>Reference: the segments of a version\<close>

text \<open>
  A version is the sequence of its tilde signs, letter runs and digit runs; the rest only
  separates.  A tilde sorts before the end of the version, the end before letters, letters
  before numbers; letter runs compare as strings and digit runs as numbers.
\<close>

datatype seg = STilde | SEnd | SAlpha string | SNum nat

primrec seg_key :: "seg \<Rightarrow> nat \<times> string \<times> nat" where
  "seg_key STilde = (0, [], 0)"
| "seg_key SEnd = (1, [], 0)"
| "seg_key (SAlpha s) = (2, s, 0)"
| "seg_key (SNum n) = (3, [], n)"

lemma seg_key_inject: "seg_key a = seg_key b \<longleftrightarrow> a = b"
  by (cases a; cases b) auto

instantiation seg :: linorder
begin

definition less_eq_seg :: "seg \<Rightarrow> seg \<Rightarrow> bool" where
  "less_eq_seg a b \<longleftrightarrow> seg_key a \<le> seg_key b"

definition less_seg :: "seg \<Rightarrow> seg \<Rightarrow> bool" where
  "less_seg a b \<longleftrightarrow> seg_key a < seg_key b"

instance
proof
  fix x y z :: seg
  show "x < y \<longleftrightarrow> x \<le> y \<and> \<not> y \<le> x" by (simp add: less_eq_seg_def less_seg_def less_le_not_le)
  show "x \<le> x" by (simp add: less_eq_seg_def)
  show "x \<le> z" if "x \<le> y" "y \<le> z" using that by (auto simp: less_eq_seg_def intro: order.trans)
  show "x = y" if "x \<le> y" "y \<le> x"
    using order.antisym [of "seg_key x" "seg_key y"] that by (simp add: less_eq_seg_def seg_key_inject)
  show "x \<le> y \<or> y \<le> x" by (simp add: less_eq_seg_def linear)
qed

end

lemma seg_less_simps [simp]:
  "STilde < SEnd" "STilde < SAlpha s" "STilde < SNum n" "SEnd < SAlpha s" "SEnd < SNum n"
  "SAlpha s < SNum n" "\<not> x < STilde" "\<not> SAlpha s < SEnd" "\<not> SNum n < SEnd"
  "\<not> SNum n < SAlpha s" "SAlpha s < SAlpha t \<longleftrightarrow> s < t" "SNum m < SNum n \<longleftrightarrow> m < n"
  by (simp_all add: less_seg_def) (cases x; simp)

text \<open>The sign of a comparison in a linear order.\<close>

definition order_cmp :: "'a :: linorder \<Rightarrow> 'a \<Rightarrow> int" where
  "order_cmp a b = (if a < b then -1 else if b < a then 1 else 0)"

lemma order_cmp_Cons:
  "order_cmp (x # xs) (y # ys) = (if x < y then -1 else if y < x then 1 else order_cmp xs ys)"
  by (auto simp: order_cmp_def)

lemma order_cmp_less [simp]: "a < b \<Longrightarrow> order_cmp a b = -1" "b < a \<Longrightarrow> order_cmp a b = 1"
  by (auto simp: order_cmp_def)

lemma order_cmp_refl [simp]: "order_cmp a a = 0"
  by (simp add: order_cmp_def)

primrec digits_value :: "string \<Rightarrow> nat" where
  "digits_value [] = 0"
| "digits_value (c # cs) = (of_char c - 48) * 10 ^ length cs + digits_value cs"

function segments :: "string \<Rightarrow> seg list" where
  "segments [] = [SEnd]"
| "segments (c # cs) =
     (if is_digit c then SNum (digits_value (takeWhile is_digit (c # cs))) # segments (dropWhile is_digit (c # cs))
      else if is_alpha c then SAlpha (takeWhile is_alpha (c # cs)) # segments (dropWhile is_alpha (c # cs))
      else if c = tilde then STilde # segments cs
      else segments cs)"
  by pat_completeness auto
termination
  by (relation "measure length") (auto simp: le_imp_less_Suc length_dropWhile_le)

declare segments.simps(2) [simp del]

subsection \<open>Digit runs compare as numbers\<close>

lemma is_digit_iff: "is_digit c \<longleftrightarrow> 48 \<le> (of_char c :: nat) \<and> (of_char c :: nat) \<le> 57"
  by (simp add: is_digit_def less_eq_char_def)

lemma digits_value_bound: "list_all is_digit s \<Longrightarrow> digits_value s < 10 ^ length s"
proof (induction s)
  case (Cons c cs)
  then have "of_char c - 48 \<le> (9 :: nat)" by (auto simp: is_digit_iff)
  then have "(of_char c - (48 :: nat)) * 10 ^ length cs \<le> 9 * 10 ^ length cs" by (rule mult_right_mono) simp
  moreover have "digits_value cs < 10 ^ length cs" using Cons by simp
  ultimately show ?case by (simp only: digits_value.simps length_Cons power_Suc)
qed simp

lemma digits_value_trim [simp]: "digits_value (trim_zeros s) = digits_value s"
  by (induction s) (auto simp: trim_zeros_def)

lemma digits_value_lower:
  assumes "list_all is_digit (c # cs)" "c \<noteq> CHR ''0''"
  shows "10 ^ length cs \<le> digits_value (c # cs)"
proof -
  have "(of_char (CHR ''0'') :: nat) = 48" by simp
  with assms(2) have "of_char c \<noteq> (48 :: nat)" by (metis of_char_eq_iff)
  with assms(1) have "1 \<le> of_char c - (48 :: nat)" by (auto simp: is_digit_iff)
  then have "1 * 10 ^ length cs \<le> (of_char c - (48 :: nat)) * 10 ^ length cs" by (rule mult_right_mono) simp
  then show ?thesis by (simp only: digits_value.simps)
qed

lemma trim_zeros_cases:
  "trim_zeros s = [] \<or> (\<exists>c cs. trim_zeros s = c # cs \<and> c \<noteq> CHR ''0'')"
  by (cases "trim_zeros s") (auto simp: trim_zeros_def dropWhile_eq_Cons_conv)

lemma digits_value_shorter:
  assumes "list_all is_digit u" "list_all is_digit v"
    and "length (trim_zeros u) < length (trim_zeros v)"
  shows "digits_value u < digits_value v"
proof -
  have du: "list_all is_digit (trim_zeros u)" and dv: "list_all is_digit (trim_zeros v)"
    using assms by (auto simp: trim_zeros_def list_all_iff dest: set_dropWhileD)
  obtain c cs where v: "trim_zeros v = c # cs" "c \<noteq> CHR ''0''"
    using trim_zeros_cases [of v] assms(3) by auto
  have "digits_value (trim_zeros u) < 10 ^ length (trim_zeros u)" by (rule digits_value_bound [OF du])
  also have "\<dots> \<le> 10 ^ length cs" using assms(3) v by (intro power_increasing) auto
  also have "\<dots> \<le> digits_value (trim_zeros v)" using digits_value_lower dv v by simp
  finally show ?thesis by simp
qed

lemma digits_value_lex:
  "list_all is_digit u \<Longrightarrow> list_all is_digit v \<Longrightarrow> length u = length v \<Longrightarrow> u < v \<Longrightarrow>
     digits_value u < digits_value v"
proof (induction u v rule: list_induct2')
  case (4 x xs y ys)
  show ?case
  proof (cases "x = y")
    case True
    with 4 show ?thesis by simp
  next
    case False
    with 4 have "x < y" by simp
    then have "of_char x - (48 :: nat) + 1 \<le> of_char y - 48"
      using 4 by (auto simp: is_digit_iff less_char_def)
    then have "(of_char x - (48 :: nat) + 1) * 10 ^ length xs \<le> (of_char y - 48) * 10 ^ length xs"
      by (rule mult_right_mono) simp
    moreover have "digits_value xs < 10 ^ length xs" using 4 by (intro digits_value_bound) simp
    ultimately show ?thesis using 4 by simp
  qed
qed auto

subsection \<open>The loop computes the comparison of the segments\<close>

lemma char_classes:
  "is_digit c \<Longrightarrow> \<not> is_alpha c" "is_digit c \<Longrightarrow> c \<noteq> tilde" "is_alpha c \<Longrightarrow> c \<noteq> tilde"
  by (auto simp: is_digit_def is_alpha_def less_eq_char_def)

lemma segments_junk [simp]: "is_junk c \<Longrightarrow> segments (c # cs) = segments cs"
  by (simp add: segments.simps is_junk_def)

lemma segments_drop_junk [simp]: "segments (dropWhile is_junk s) = segments s"
  by (induction s) auto

lemma segments_tilde: "has_tilde s \<Longrightarrow> segments s = STilde # segments (tl s)"
  by (auto simp: has_tilde_def segments.simps char_classes split: list.splits dest: char_classes)

lemma segments_num:
  assumes "R_NUM s = Some (h, r)"
  shows "segments s = SNum (digits_value h) # segments r" "list_all is_digit h"
proof -
  from assms obtain c cs where "s = c # cs" "is_digit c" "h = takeWhile is_digit s" "r = dropWhile is_digit s"
    by (cases s) (auto simp: R_NUM_def submatch_Some split: if_splits)
  then show "segments s = SNum (digits_value h) # segments r" "list_all is_digit h"
    by (auto simp: segments.simps list_all_iff dest: set_takeWhileD)
qed

lemma segments_alpha:
  assumes "R_ALPHA s = Some (h, r)"
  shows "segments s = SAlpha h # segments r"
proof -
  from assms obtain c cs where "s = c # cs" "is_alpha c" "h = takeWhile is_alpha s" "r = dropWhile is_alpha s"
    by (cases s) (auto simp: R_ALPHA_def submatch_Some split: if_splits)
  then show ?thesis by (auto simp: segments.simps dest: char_classes)
qed

lemma submatch_no_newline: "newline \<notin> set s \<Longrightarrow> submatch p s = Some (takeWhile p s, dropWhile p s)"
  by (auto simp: submatch_def dest: set_dropWhileD)

lemma head_cases:
  assumes "s \<noteq> []" "takeWhile is_junk s = []" "\<not> has_tilde s" "newline \<notin> set s"
  shows "R_NUM s \<noteq> None \<or> R_NUM s = None \<and> R_ALPHA s \<noteq> None"
  using assms
  by (cases s) (auto simp: R_NUM_def R_ALPHA_def submatch_no_newline is_junk_def has_tilde_def split: if_splits)

lemma segments_head:
  assumes "s \<noteq> []" "takeWhile is_junk s = []" "\<not> has_tilde s" "newline \<notin> set s"
  shows "\<exists>x xs. segments s = x # xs \<and> SEnd < x \<and> STilde < x"
  using head_cases [OF assms]
  by (auto dest!: segments_num(1) segments_alpha)

lemma segments_tail:
  assumes "takeWhile is_junk s = []" "\<not> has_tilde s" "newline \<notin> set s"
  shows "\<exists>x xs. segments s = x # xs \<and> STilde < x"
  using segments_head [OF _ assms] by (cases "s = []") auto

lemma numbers_compare:
  assumes "R_NUM a = Some (n1, a')" "R_NUM b = Some (n2, b')"
  shows "length (trim_zeros n1) < length (trim_zeros n2) \<Longrightarrow> digits_value n1 < digits_value n2"
    and "length (trim_zeros n1) = length (trim_zeros n2) \<Longrightarrow> trim_zeros n1 < trim_zeros n2 \<Longrightarrow>
           digits_value n1 < digits_value n2"
    and "trim_zeros n1 = trim_zeros n2 \<Longrightarrow> digits_value n1 = digits_value n2"
proof -
  have d: "list_all is_digit n1" "list_all is_digit n2" using assms segments_num by auto
  then show "length (trim_zeros n1) < length (trim_zeros n2) \<Longrightarrow> digits_value n1 < digits_value n2"
    by (rule digits_value_shorter)
  have "list_all is_digit (trim_zeros n1)" "list_all is_digit (trim_zeros n2)"
    using d by (auto simp: trim_zeros_def list_all_iff dest: set_dropWhileD)
  then show "length (trim_zeros n1) = length (trim_zeros n2) \<Longrightarrow> trim_zeros n1 < trim_zeros n2 \<Longrightarrow>
      digits_value n1 < digits_value n2"
    using digits_value_lex [of "trim_zeros n1" "trim_zeros n2"] by simp
  show "trim_zeros n1 = trim_zeros n2 \<Longrightarrow> digits_value n1 = digits_value n2"
    by (metis digits_value_trim)
qed

lemma R_NUM_rest: "R_NUM s = Some (h, r) \<Longrightarrow> newline \<notin> set r"
  by (auto simp: R_NUM_def submatch_Some split: if_splits)

lemma R_ALPHA_rest: "R_ALPHA s = Some (h, r) \<Longrightarrow> newline \<notin> set r"
  by (auto simp: R_ALPHA_def submatch_Some split: if_splits)

text \<open>One iteration, past the junk and the tildes, on two non-empty strings.\<close>

lemma Vercmp_segment_step:
  assumes "a \<noteq> []" "takeWhile is_junk a = []" "\<not> has_tilde a" "newline \<notin> set a"
    and "b \<noteq> []" "takeWhile is_junk b = []" "\<not> has_tilde b" "newline \<notin> set b"
    and IH_num: "\<And>n1 a' n2 b'. R_NUM a = Some (n1, a') \<Longrightarrow> R_NUM b = Some (n2, b') \<Longrightarrow>
        trim_zeros n1 = trim_zeros n2 \<Longrightarrow> Vercmp a' b' = order_cmp (segments a') (segments b')"
    and IH_alpha: "\<And>h a' b'. R_NUM a = None \<Longrightarrow> R_ALPHA a = Some (h, a') \<Longrightarrow> R_ALPHA b = Some (h, b') \<Longrightarrow>
        Vercmp a' b' = order_cmp (segments a') (segments b')"
  shows "Vercmp a b = order_cmp (segments a) (segments b)"
proof -
  have m: "R_NONALNUMTILDE a = Some ([], a)" "R_NONALNUMTILDE b = Some ([], b)"
    using assms by (simp_all add: R_NONALNUMTILDE_def submatch_no_newline dropWhile_eq_self_iff takeWhile_eq_Nil_iff)
  note unf = Vercmp.simps [of a b] m
  consider (num) n1 a' where "R_NUM a = Some (n1, a')" | (alpha) h a' where "R_NUM a = None" "R_ALPHA a = Some (h, a')"
    using head_cases [of a] assms by auto
  then show ?thesis
  proof cases
    case num
    note sa = segments_num(1) [OF num]
    show ?thesis
    proof (cases "R_NUM b")
      case None
      then obtain h b' where "R_ALPHA b = Some (h, b')" using head_cases [of b] assms by auto
      from segments_alpha [OF this] show ?thesis
        using assms None num sa by (simp add: unf order_cmp_Cons)
    next
      case (Some q)
      then obtain n2 b' where nb: "R_NUM b = Some (n2, b')" by (cases q) auto
      note cmp12 = numbers_compare [OF num nb] and cmp21 = numbers_compare [OF nb num]
      show ?thesis
        using assms(1-8) num nb IH_num [OF num nb] cmp12 cmp21
        by (auto simp: unf sa segments_num(1) [OF nb] order_cmp_Cons Let_def)
    qed
  next
    case alpha
    note sa = segments_alpha [OF alpha(2)]
    show ?thesis
    proof (cases "R_ALPHA b")
      case None
      then obtain n b' where "R_NUM b = Some (n, b')" using head_cases [of b] assms by auto
      from segments_num(1) [OF this] show ?thesis
        using assms None alpha sa by (simp add: unf order_cmp_Cons)
    next
      case (Some q)
      then obtain h2 b' where ab: "R_ALPHA b = Some (h2, b')" by (cases q) auto
      show ?thesis
        using assms(1-8) alpha ab IH_alpha [OF alpha]
        by (auto simp: unf sa segments_alpha [OF ab] order_cmp_Cons)
    qed
  qed
qed

text \<open>One iteration that skips junk, and one that meets a tilde or the end of a string.\<close>

lemma Vercmp_junk_step:
  assumes "newline \<notin> set a" "newline \<notin> set b" "takeWhile is_junk a \<noteq> [] \<or> takeWhile is_junk b \<noteq> []"
  shows "Vercmp a b = Vercmp (dropWhile is_junk a) (dropWhile is_junk b)"
  using assms by (auto simp: Vercmp.simps [of a b] R_NONALNUMTILDE_def submatch_no_newline)

lemma Vercmp_tilde_step:
  assumes "a \<noteq> [] \<or> b \<noteq> []" "takeWhile is_junk a = []" "takeWhile is_junk b = []"
    and "newline \<notin> set a" "newline \<notin> set b" "has_tilde a \<or> has_tilde b \<or> a = [] \<or> b = []"
    and IH: "has_tilde a \<Longrightarrow> has_tilde b \<Longrightarrow> Vercmp (tl a) (tl b) = order_cmp (segments (tl a)) (segments (tl b))"
  shows "Vercmp a b = order_cmp (segments a) (segments b)"
proof -
  have "R_NONALNUMTILDE a = Some ([], a)" "R_NONALNUMTILDE b = Some ([], b)"
    using assms by (simp_all add: R_NONALNUMTILDE_def submatch_no_newline dropWhile_eq_self_iff takeWhile_eq_Nil_iff)
  note unf = Vercmp.simps [of a b] this
  consider (both) "has_tilde a" "has_tilde b" | (left) "has_tilde a" "\<not> has_tilde b"
    | (right) "\<not> has_tilde a" "has_tilde b" | (ends) "\<not> has_tilde a" "\<not> has_tilde b" "a = [] \<or> b = []"
    using assms(6) by blast
  then show ?thesis
  proof cases
    case both
    then have "Vercmp a b = Vercmp (tl a) (tl b)" using assms(1-3) by (auto simp: unf has_tilde_def)
    with both IH show ?thesis by (simp add: segments_tilde order_cmp_Cons)
  next
    case left
    then show ?thesis using assms(1-5) segments_tail [of b] by (auto simp: unf segments_tilde order_cmp_Cons)
  next
    case right
    then show ?thesis using assms(1-5) segments_tail [of a] by (auto simp: unf segments_tilde order_cmp_Cons)
  next
    case ends
    then show ?thesis
      using assms(1-5) segments_head [of a] segments_head [of b] by (auto simp: unf vercmp_end_def order_cmp_Cons)
  qed
qed

lemma Vercmp_segments:
  "newline \<notin> set a \<Longrightarrow> newline \<notin> set b \<Longrightarrow> Vercmp a b = order_cmp (segments a) (segments b)"
proof (induction a b rule: Vercmp.induct)
  case (1 a b)
  have m: "R_NONALNUMTILDE a = Some (takeWhile is_junk a, dropWhile is_junk a)"
      "R_NONALNUMTILDE b = Some (takeWhile is_junk b, dropWhile is_junk b)"
    using "1.prems" by (simp_all add: R_NONALNUMTILDE_def submatch_no_newline)
  consider (empty) "a = []" "b = []"
    | (junk) "takeWhile is_junk a \<noteq> [] \<or> takeWhile is_junk b \<noteq> []"
    | (segs) "a \<noteq> [] \<or> b \<noteq> []" "takeWhile is_junk a = []" "takeWhile is_junk b = []"
    by blast
  then show ?case
  proof cases
    case empty
    then show ?thesis by (simp add: Vercmp.simps vercmp_end_def)
  next
    case junk
    then have "\<not> (a = [] \<and> b = [])" by auto
    moreover have "newline \<notin> set (dropWhile is_junk a)" "newline \<notin> set (dropWhile is_junk b)"
      using "1.prems" by (auto dest: set_dropWhileD)
    ultimately show ?thesis
      using "1.IH"(1) [OF _ refl m(1) refl m(2) refl junk] Vercmp_junk_step [OF "1.prems" junk] by simp
  next
    case segs
    then have d: "dropWhile is_junk a = a" "dropWhile is_junk b = b"
      by (simp_all add: dropWhile_eq_self_iff takeWhile_eq_Nil_iff)
    note hyps = segs "1.prems"
    show ?thesis
    proof (cases "has_tilde a \<or> has_tilde b \<or> a = [] \<or> b = []")
      case True
      from hyps True show ?thesis
      proof (rule Vercmp_tilde_step)
        assume both: "has_tilde a" "has_tilde b"
        then have "newline \<notin> set (tl a)" "newline \<notin> set (tl b)"
          using "1.prems" by (auto simp: has_tilde_def split: list.splits)
        then show "Vercmp (tl a) (tl b) = order_cmp (segments (tl a)) (segments (tl b))"
          using both segs m d by (intro "1.IH"(2) [OF _ refl]) simp_all
      qed
    next
      case False
      show ?thesis
      proof (rule Vercmp_segment_step)
        fix n1 a' n2 b'
        assume "R_NUM a = Some (n1, a')" "R_NUM b = Some (n2, b')" "trim_zeros n1 = trim_zeros n2"
        with False hyps m d show "Vercmp a' b' = order_cmp (segments a') (segments b')"
          by (intro "1.IH"(4)) (auto dest: R_NUM_rest)
      next
        fix h a' b'
        assume "R_NUM a = None" "R_ALPHA a = Some (h, a')" "R_ALPHA b = Some (h, b')"
        with False hyps m d show "Vercmp a' b' = order_cmp (segments a') (segments b')"
          by (intro "1.IH"(3)) (auto dest: R_ALPHA_rest)
      qed (use hyps False in auto)
    qed
  qed
qed

section \<open>Three-way comparison as an interface\<close>

text \<open>
  What a caller of a comparison function relies on, on the values it is meant for: a
  total preorder.  \<open>keyed_cmp\<close> is the stronger contract that the comparison is that of
  keys in a linear order.
\<close>

locale three_way =
  fixes ok :: "'a \<Rightarrow> bool"
    and cmp :: "'a \<Rightarrow> 'a \<Rightarrow> int"
  assumes cmp_range: "ok a \<Longrightarrow> ok b \<Longrightarrow> cmp a b \<in> {-1, 0, 1}"
    and cmp_refl: "ok a \<Longrightarrow> cmp a a = 0"
    and cmp_anti: "ok a \<Longrightarrow> ok b \<Longrightarrow> cmp b a = - cmp a b"
    and cmp_trans: "ok a \<Longrightarrow> ok b \<Longrightarrow> ok c \<Longrightarrow> cmp a b \<le> 0 \<Longrightarrow> cmp b c \<le> 0 \<Longrightarrow> cmp a c \<le> 0"
begin

lemma less_trans:
  assumes "ok a" "ok b" "ok c" "cmp a b = -1" "cmp b c = -1"
  shows "cmp a c = -1"
proof (rule ccontr)
  assume "cmp a c \<noteq> -1"
  with assms cmp_range [of a c] cmp_anti [of a c] have "cmp c a \<le> 0" by auto
  with assms cmp_trans [of c a b] have "cmp c b \<le> 0" by simp
  with assms cmp_anti [of b c] show False by simp
qed

lemma equiv_trans:
  assumes "ok a" "ok b" "ok c" "cmp a b = 0" "cmp b c = 0"
  shows "cmp a c = 0"
  using assms cmp_trans [of a b c] cmp_trans [of c b a] cmp_anti [of a b] cmp_anti [of b c] cmp_anti [of a c]
  by simp

lemma not_less_iff: "ok a \<Longrightarrow> ok b \<Longrightarrow> cmp b a \<noteq> -1 \<longleftrightarrow> cmp a b \<le> 0"
  using cmp_range [of a b] cmp_anti [of a b] by auto

lemma sorted_from_adjacent:
  assumes "list_all ok xs" and "\<And>i. Suc i < length xs \<Longrightarrow> cmp (xs ! Suc i) (xs ! i) \<noteq> -1"
  shows "sorted_wrt (\<lambda>a b. cmp a b \<le> 0) xs"
  using assms
proof (induction xs)
  case (Cons x xs)
  have adj: "cmp (xs ! Suc i) (xs ! i) \<noteq> -1" if "Suc i < length xs" for i
    using Cons.prems(2) [of "Suc i"] that by simp
  then have sorted: "sorted_wrt (\<lambda>a b. cmp a b \<le> 0) xs" using Cons by simp
  have "cmp x y \<le> 0" if "y \<in> set xs" for y
  proof (cases xs)
    case (Cons z zs)
    have "cmp x z \<le> 0" using Cons.prems(1) Cons.prems(2) [of 0] Cons not_less_iff [of x z] by simp
    moreover have "y = z \<or> cmp z y \<le> 0" using that sorted Cons by auto
    ultimately show ?thesis using Cons.prems that Cons cmp_trans [of x z y] by (auto simp: list_all_iff)
  qed (use that in simp)
  with sorted show ?case by simp
qed simp

end

locale keyed_cmp =
  fixes ok :: "'a \<Rightarrow> bool"
    and key :: "'a \<Rightarrow> 'k :: linorder"
    and cmp :: "'a \<Rightarrow> 'a \<Rightarrow> int"
  assumes cmp_key: "ok a \<Longrightarrow> ok b \<Longrightarrow> cmp a b = order_cmp (key a) (key b)"

sublocale keyed_cmp \<subseteq> three_way ok cmp
  by unfold_locales (auto simp: cmp_key order_cmp_def split: if_splits)

interpretation vc: keyed_cmp "\<lambda>s. newline \<notin> set s" segments Vercmp
  by unfold_locales (rule Vercmp_segments)

section \<open>Sorting\<close>

text \<open>
  \<^verbatim>\<open>sort.Sort\<close> reorders a slice by calls of its \<open>Swap\<close> only, and for a \<open>Less\<close> that is a
  strict weak order it ends with no element \<open>Less\<close> than the one before it.
\<close>

definition swap_elems :: "'a list \<Rightarrow> int \<Rightarrow> int \<Rightarrow> 'a list result" where
  "swap_elems xs i j =
     rbind (index xs i) (\<lambda>s1. rbind (index xs j) (\<lambda>s2. Ok (xs[nat i := s2, nat j := s1])))"

inductive swapped :: "('a list \<Rightarrow> int \<Rightarrow> int \<Rightarrow> 'a list result) \<Rightarrow> 'a list \<Rightarrow> 'a list \<Rightarrow> bool" for sw where
  swapped_refl: "swapped sw xs xs"
| swapped_step: "swapped sw xs ys \<Longrightarrow> sw ys i j = Ok zs \<Longrightarrow> swapped sw xs zs"

definition sort_result ::
  "('a list \<Rightarrow> int \<Rightarrow> int \<Rightarrow> bool result) \<Rightarrow> ('a list \<Rightarrow> int \<Rightarrow> int \<Rightarrow> 'a list result) \<Rightarrow> 'a list \<Rightarrow> 'a list \<Rightarrow> bool"
where
  "sort_result lt sw xs ys \<longleftrightarrow>
     swapped sw xs ys \<and> (\<forall>i. Suc i < length ys \<longrightarrow> lt ys (int (Suc i)) (int i) = Ok False)"

lemma mset_swap_elems: "swap_elems xs i j = Ok ys \<Longrightarrow> mset ys = mset xs"
  by (auto simp: swap_elems_def result_simps mset_swap)

text \<open>The interface between a slice type and \<^verbatim>\<open>sort.Sort\<close>: its \<open>Less\<close> is a comparison, its \<open>Swap\<close> exchanges.\<close>

locale sortable = three_way +
  fixes lt :: "'a list \<Rightarrow> int \<Rightarrow> int \<Rightarrow> bool result"
    and sw :: "'a list \<Rightarrow> int \<Rightarrow> int \<Rightarrow> 'a list result"
  assumes lt_cmp: "i < length xs \<Longrightarrow> j < length xs \<Longrightarrow> lt xs (int i) (int j) = Ok (cmp (xs ! i) (xs ! j) = -1)"
    and sw_mset: "sw xs a b = Ok ys \<Longrightarrow> mset ys = mset xs"
begin

lemma swapped_mset: "swapped sw xs ys \<Longrightarrow> mset ys = mset xs"
  by (induction rule: swapped.induct) (simp_all add: sw_mset)

lemma sort_result_sorted:
  assumes "sort_result lt sw xs ys" "list_all ok xs"
  shows "mset ys = mset xs \<and> sorted_wrt (\<lambda>a b. cmp a b \<le> 0) ys"
proof -
  have eq: "mset ys = mset xs" using assms(1) by (auto simp: sort_result_def swapped_mset)
  then have "list_all ok ys" using assms(2) by (metis list_all_iff mset_eq_setD)
  moreover have "cmp (ys ! Suc i) (ys ! i) \<noteq> -1" if "Suc i < length ys" for i
    using assms(1) that lt_cmp [of "Suc i" ys i] by (simp add: sort_result_def)
  ultimately show ?thesis using eq sorted_from_adjacent by blast
qed

end

text \<open>The methods of \<open>VersionSlice\<close>.\<close>

definition VersionSlice_Len :: "string list \<Rightarrow> int" where
  "VersionSlice_Len vs = int (length vs)"

definition VersionSlice_Less :: "string list \<Rightarrow> int \<Rightarrow> int \<Rightarrow> bool result" where
  "VersionSlice_Less vs i j = rbind (index vs i) (\<lambda>a. rbind (index vs j) (\<lambda>b. Ok (Vercmp a b = -1)))"

definition VersionSlice_Swap :: "string list \<Rightarrow> int \<Rightarrow> int \<Rightarrow> string list result" where
  "VersionSlice_Swap vs i j = swap_elems vs i j"

interpretation vs: sortable "\<lambda>s. newline \<notin> set s" Vercmp VersionSlice_Less VersionSlice_Swap
  by unfold_locales (auto simp: VersionSlice_Less_def VersionSlice_Swap_def mset_swap_elems)

section \<open>Properties\<close>

text \<open>
  C16.  The loop of \<open>Vercmp\<close> computes the order of RPM versions: on strings without newlines
  it returns the sign of the lexicographic comparison of their segments, with digit runs
  compared as numbers of any length, letter runs as strings, numbers above letters, a tilde
  below the end of the version, and all other characters as mere separators.
\<close>

theorem Vercmp_is_segment_order:
  assumes "newline \<notin> set a" "newline \<notin> set b"
  shows "Vercmp a b = order_cmp (segments a) (segments b)"
  using assms by (rule Vercmp_segments)

theorem Vercmp_is_segment_order_witness:
  "Vercmp ''1.0~rc1'' ''1.00.a'' = order_cmp (segments ''1.0~rc1'') (segments ''1.00.a'')
     \<and> segments ''1.0~rc1'' = [SNum 1, SNum 0, STilde, SAlpha ''rc'', SNum 1, SEnd]
     \<and> segments ''1.00.a'' = [SNum 1, SNum 0, SAlpha ''a'', SEnd]"
proof (intro conjI)
  show "Vercmp ''1.0~rc1'' ''1.00.a'' = order_cmp (segments ''1.0~rc1'') (segments ''1.00.a'')"
    by (rule Vercmp_is_segment_order) simp_all
qed code_simp+

text \<open>
  \<open>Vercmp\<close> is a total preorder on strings without newlines, as its callers and the
  sorting package need: it answers -1, 0 or 1, is antisymmetric, and is transitive.
\<close>

theorem Vercmp_total_preorder:
  assumes "newline \<notin> set a" "newline \<notin> set b" "newline \<notin> set c"
  shows "Vercmp a b \<in> {-1, 0, 1} \<and> Vercmp a a = 0 \<and> Vercmp b a = - Vercmp a b
     \<and> (Vercmp a b \<le> 0 \<and> Vercmp b c \<le> 0 \<longrightarrow> Vercmp a c \<le> 0)
     \<and> (Vercmp a b = -1 \<and> Vercmp b c = -1 \<longrightarrow> Vercmp a c = -1)"
  using assms vc.cmp_range [of a b] vc.cmp_refl [of a] vc.cmp_anti [of a b] vc.cmp_trans [of a b c]
    vc.less_trans [of a b c]
  by simp

theorem Vercmp_total_preorder_witness:
  "Vercmp ''1.0~rc1'' ''1.0'' = -1 \<and> Vercmp ''1.0'' ''1.0a'' = -1 \<and> Vercmp ''1.0~rc1'' ''1.0a'' = -1"
proof -
  have *: "Vercmp ''1.0~rc1'' ''1.0'' = -1" "Vercmp ''1.0'' ''1.0a'' = -1" by code_simp+
  with Vercmp_total_preorder [of "''1.0~rc1''" "''1.0''" "''1.0a''"]
  show ?thesis by simp
qed

text \<open>
  Sorting a \<open>VersionSlice\<close> gives a permutation of it in ascending version order:
  whatever sequence of \<open>Swap\<close> calls the sorting package makes, when it stops with no element
  \<open>Less\<close> than the one before it.
\<close>

theorem VersionSlice_sorted:
  assumes "sort_result VersionSlice_Less VersionSlice_Swap vs ys" "\<forall>v \<in> set vs. newline \<notin> set v"
  shows "mset ys = mset vs \<and> sorted_wrt (\<lambda>a b. Vercmp a b \<le> 0) ys"
  using vs.sort_result_sorted [OF assms(1)] assms(2) by (simp add: list_all_iff)

theorem VersionSlice_sorted_witness:
  "mset [''9'', ''10''] = mset [''10'', ''9''] \<and> sorted_wrt (\<lambda>a b. Vercmp a b \<le> 0) [''9'', ''10'']"
proof (rule VersionSlice_sorted)
  have "swapped VersionSlice_Swap [''10'', ''9''] [''9'', ''10'']"
    by (rule swapped_step [OF swapped_refl, of _ _ 0 1]) code_simp
  moreover have "VersionSlice_Less [''9'', ''10''] (int (Suc 0)) (int 0) = Ok False" by code_simp
  ultimately show "sort_result VersionSlice_Less VersionSlice_Swap [''10'', ''9''] [''9'', ''10'']"
    by (simp add: sort_result_def)
qed simp

end
