(* ===== verification/Metadata.thy ===== *)
theory Metadata
  imports Header Vercmp
begin

text \<open>
  The package identity (\<^verbatim>\<open>nevra.go\<close>), the attributes of a payload file (\<^verbatim>\<open>fileinfo.go\<close>,
  \<^verbatim>\<open>filesigs.go\<close>) and the two accessors of \<^verbatim>\<open>header.go\<close> that collect them from the tags
  of a header: \<open>GetNEVRA\<close> and \<open>GetFiles\<close>.
\<close>

section \<open>NEVRA\<close>

record NEVRA =
  Name :: string
  Epoch :: string
  Version :: string
  Release :: string
  Arch :: string

definition NEVRA_String :: "NEVRA \<Rightarrow> string" where
  "NEVRA_String n =
     Name n @ ''-'' @ Epoch n @ '':'' @ Version n @ ''-'' @ Release n @ ''.'' @ Arch n @ ''.rpm''"

definition NEVRAcmp :: "NEVRA \<Rightarrow> NEVRA \<Rightarrow> int" where
  "NEVRAcmp a b =
     (let res = Vercmp (Epoch a) (Epoch b) in
      if res \<noteq> 0 then res
      else let res = Vercmp (Version a) (Version b) in
      if res \<noteq> 0 then res
      else let res = Vercmp (Release a) (Release b) in
      if res \<noteq> 0 then res
      else 0)"

definition NEVRASlice_Len :: "NEVRA list \<Rightarrow> int" where
  "NEVRASlice_Len s = int (length s)"

definition NEVRASlice_Less :: "NEVRA list \<Rightarrow> int \<Rightarrow> int \<Rightarrow> bool result" where
  "NEVRASlice_Less s i j = rbind (index s i) (\<lambda>a. rbind (index s j) (\<lambda>b. Ok (NEVRAcmp a b = -1)))"

definition NEVRASlice_Swap :: "NEVRA list \<Rightarrow> int \<Rightarrow> int \<Rightarrow> NEVRA list result" where
  "NEVRASlice_Swap s i j = swap_elems s i j"

text \<open>The comparison is that of epoch, version and release segments, in this order.\<close>

definition nevra_key :: "NEVRA \<Rightarrow> seg list \<times> seg list \<times> seg list" where
  "nevra_key n = (segments (Epoch n), segments (Version n), segments (Release n))"

definition nevra_ok :: "NEVRA \<Rightarrow> bool" where
  "nevra_ok n \<longleftrightarrow> newline \<notin> set (Epoch n) \<and> newline \<notin> set (Version n) \<and> newline \<notin> set (Release n)"

interpretation nc: keyed_cmp nevra_ok nevra_key NEVRAcmp
  by unfold_locales
     (auto simp: NEVRAcmp_def nevra_ok_def nevra_key_def Vercmp_segments order_cmp_def Let_def)

interpretation ns: sortable nevra_ok NEVRAcmp NEVRASlice_Less NEVRASlice_Swap
  by unfold_locales (auto simp: NEVRASlice_Less_def NEVRASlice_Swap_def mset_swap_elems)

section \<open>Payload files\<close>

record fileInfo =
  name :: string
  fsize :: "64 word"
  userName :: string
  groupName :: string
  flags :: "32 word"
  mtime :: "32 word"
  digest :: string
  mode :: "32 word"
  linkName :: string
  device :: "32 word"
  inode :: "32 word"

definition fi_Size :: "fileInfo \<Rightarrow> int" where
  "fi_Size fi = sint (fsize fi)"

definition fi_Name :: "fileInfo \<Rightarrow> string" where "fi_Name fi = name fi"
definition fi_UserName :: "fileInfo \<Rightarrow> string" where "fi_UserName fi = userName fi"
definition fi_GroupName :: "fileInfo \<Rightarrow> string" where "fi_GroupName fi = groupName fi"
definition fi_Digest :: "fileInfo \<Rightarrow> string" where "fi_Digest fi = digest fi"
definition fi_Linkname :: "fileInfo \<Rightarrow> string" where "fi_Linkname fi = linkName fi"
definition fi_Flags :: "fileInfo \<Rightarrow> int" where "fi_Flags fi = uint (flags fi)"
definition fi_Mtime :: "fileInfo \<Rightarrow> int" where "fi_Mtime fi = uint (mtime fi)"
definition fi_Mode :: "fileInfo \<Rightarrow> int" where "fi_Mode fi = uint (mode fi)"
definition fi_Device :: "fileInfo \<Rightarrow> int" where "fi_Device fi = uint (device fi)"
definition fi_Inode :: "fileInfo \<Rightarrow> int" where "fi_Inode fi = uint (inode fi)"

definition fileType :: "fileInfo \<Rightarrow> 32 word" where
  "fileType fi = mode fi AND NOT 0xFFF"

definition inode64 :: "fileInfo \<Rightarrow> 64 word" where
  "inode64 fi = push_bit 32 (ucast (device fi)) OR ucast (inode fi)"

abbreviation (input) PGPHASHALGO_MD5 :: int where "PGPHASHALGO_MD5 \<equiv> 1"
abbreviation (input) PGPHASHALGO_SHA1 :: int where "PGPHASHALGO_SHA1 \<equiv> 2"
abbreviation (input) PGPHASHALGO_RIPEMD160 :: int where "PGPHASHALGO_RIPEMD160 \<equiv> 3"
abbreviation (input) PGPHASHALGO_MD2 :: int where "PGPHASHALGO_MD2 \<equiv> 5"
abbreviation (input) PGPHASHALGO_TIGER192 :: int where "PGPHASHALGO_TIGER192 \<equiv> 6"
abbreviation (input) PGPHASHALGO_HAVAL_5_160 :: int where "PGPHASHALGO_HAVAL_5_160 \<equiv> 7"
abbreviation (input) PGPHASHALGO_SHA256 :: int where "PGPHASHALGO_SHA256 \<equiv> 8"
abbreviation (input) PGPHASHALGO_SHA384 :: int where "PGPHASHALGO_SHA384 \<equiv> 9"
abbreviation (input) PGPHASHALGO_SHA512 :: int where "PGPHASHALGO_SHA512 \<equiv> 10"
abbreviation (input) PGPHASHALGO_SHA224 :: int where "PGPHASHALGO_SHA224 \<equiv> 11"

definition GetFileAlgoName :: "int \<Rightarrow> string" where
  "GetFileAlgoName algo =
     (if algo = PGPHASHALGO_MD5 then ''md5''
      else if algo = PGPHASHALGO_SHA1 then ''sha1''
      else if algo = PGPHASHALGO_RIPEMD160 then ''rmd160''
      else if algo = PGPHASHALGO_MD2 then ''md2''
      else if algo = PGPHASHALGO_TIGER192 then ''tgr192''
      else if algo = PGPHASHALGO_HAVAL_5_160 then ''haval5160''
      else if algo = PGPHASHALGO_SHA256 then ''sha256''
      else if algo = PGPHASHALGO_SHA384 then ''sha384''
      else if algo = PGPHASHALGO_SHA512 then ''sha512''
      else if algo = PGPHASHALGO_SHA224 then ''sha224''
      else ''md5'')"

section \<open>Collecting them from a header\<close>

text \<open>\<^verbatim>\<open>strconv.FormatUint\<close> in base 10.\<close>

fun format_uint :: "nat \<Rightarrow> string" where
  "format_uint n =
     (if n < 10 then [char_of (48 + n)] else format_uint (n div 10) @ [char_of (48 + n mod 10)])"

declare format_uint.simps [simp del]

text \<open>The message of a \<open>NoSuchTagError\<close>.\<close>

definition NoSuchTagError_Error :: "int \<Rightarrow> string" where
  "NoSuchTagError_Error tag = ''No such entry '' @ (if tag < 0 then ''-'' else '''') @ format_uint (nat \<bar>tag\<bar>)"

definition GetEpoch :: "rpmHeader \<Rightarrow> 64 word list result" where
  "GetEpoch hdr =
     (case GetUint64s hdr EPOCH of
        Panic p \<Rightarrow> Panic p
      | Err (NoSuchTagError t) \<Rightarrow> Ok [0]
      | Err e \<Rightarrow> Err e
      | Ok epoch \<Rightarrow> Ok (if epoch = [] then [0] else epoch))"

definition GetNEVRA :: "rpmHeader \<Rightarrow> NEVRA result" where
  "GetNEVRA hdr =
     rbind (GetStrings hdr NAME) (\<lambda>nm.
     rbind (GetEpoch hdr) (\<lambda>epoch.
     rbind (GetStrings hdr VERSION) (\<lambda>version.
     rbind (GetStrings hdr RELEASE) (\<lambda>release.
     rbind (GetStrings hdr ARCH) (\<lambda>arch.
     rbind (index nm 0) (\<lambda>nm0. rbind (index epoch 0) (\<lambda>epoch0. rbind (index version 0) (\<lambda>version0.
     rbind (index release 0) (\<lambda>release0. rbind (index arch 0) (\<lambda>arch0.
       Ok \<lparr>Name = nm0, Epoch = format_uint (unat epoch0), Version = version0,
           Release = release0, Arch = arch0\<rparr>))))))))))"

text \<open>An attribute that is replaced by zeros when its tag cannot be read.\<close>

definition or_zeros :: "nat \<Rightarrow> 32 word list result \<Rightarrow> 32 word list result" where
  "or_zeros n r = (case r of Ok v \<Rightarrow> Ok v | Err _ \<Rightarrow> Ok (replicate n 0) | Panic p \<Rightarrow> Panic p)"

record file_tags =
  ft_sizes :: "64 word list"
  ft_users :: "string list"
  ft_groups :: "string list"
  ft_flags :: "32 word list"
  ft_mtimes :: "32 word list"
  ft_digests :: "string list"
  ft_modes :: "32 word list"
  ft_links :: "string list"
  ft_devices :: "32 word list"
  ft_inodes :: "32 word list"

definition file_at :: "file_tags \<Rightarrow> string \<Rightarrow> int \<Rightarrow> fileInfo result" where
  "file_at ft path i =
     rbind (index (ft_sizes ft) i) (\<lambda>sz. rbind (index (ft_users ft) i) (\<lambda>u.
     rbind (index (ft_groups ft) i) (\<lambda>g. rbind (index (ft_flags ft) i) (\<lambda>fl.
     rbind (index (ft_mtimes ft) i) (\<lambda>mt. rbind (index (ft_digests ft) i) (\<lambda>dg.
     rbind (index (ft_modes ft) i) (\<lambda>md. rbind (index (ft_links ft) i) (\<lambda>ln.
     rbind (index (ft_devices ft) i) (\<lambda>dv. rbind (index (ft_inodes ft) i) (\<lambda>ino.
       Ok \<lparr>name = path, fsize = sz, userName = u, groupName = g, flags = fl, mtime = mt,
           digest = dg, mode = md, linkName = ln, device = dv, inode = ino\<rparr>))))))))))"

primrec collect_files :: "file_tags \<Rightarrow> int \<Rightarrow> string list \<Rightarrow> fileInfo list result" where
  "collect_files ft i [] = Ok []"
| "collect_files ft i (path # paths) =
     rbind (file_at ft path i) (\<lambda>fi. rbind (collect_files ft (i + 1) paths) (\<lambda>fis. Ok (fi # fis)))"

definition GetFiles :: "rpmHeader \<Rightarrow> fileInfo list result" where
  "GetFiles hdr =
     (case GetStrings hdr OLDFILENAMES of
        Panic p \<Rightarrow> Panic p
      | Err (NoSuchTagError t) \<Rightarrow> Ok []
      | Err e \<Rightarrow> Err e
      | Ok paths \<Rightarrow>
     rbind (GetUint64Fallback hdr FILESIZES LONGFILESIZES) (\<lambda>fileSizes.
     rbind (GetStrings hdr FILEUSERNAME) (\<lambda>fileUserName.
     rbind (GetStrings hdr FILEGROUPNAME) (\<lambda>fileGroupName.
     rbind (GetUint32s hdr FILEFLAGS) (\<lambda>fileFlags.
     rbind (GetUint32s hdr FILEMTIMES) (\<lambda>fileMtimes.
     rbind (GetStrings hdr FILEDIGESTS) (\<lambda>fileDigests.
     rbind (GetUint32s hdr FILEMODES) (\<lambda>fileModes.
     rbind (GetStrings hdr FILELINKTOS) (\<lambda>linkTos.
     rbind (or_zeros (length paths) (GetUint32s hdr FILEDEVICES)) (\<lambda>devices.
     rbind (or_zeros (length paths) (GetUint32s hdr FILEINODES)) (\<lambda>inodes.
       collect_files
         \<lparr>ft_sizes = fileSizes, ft_users = fileUserName, ft_groups = fileGroupName,
          ft_flags = fileFlags, ft_mtimes = fileMtimes, ft_digests = fileDigests,
          ft_modes = fileModes, ft_links = linkTos, ft_devices = devices, ft_inodes = inodes\<rparr>
         0 paths)))))))))))"

subsection \<open>Decimal numbers\<close>

lemma digit_char: "d < 10 \<Longrightarrow> is_digit (char_of (48 + d)) \<and> of_char (char_of (48 + d)) = 48 + (d :: nat)"
  by (simp add: is_digit_iff)

lemma format_uint_digits: "list_all is_digit (format_uint n) \<and> format_uint n \<noteq> []"
proof (induction n rule: format_uint.induct)
  case (1 n)
  then show ?case using digit_char [of n] digit_char [of "n mod 10"] by (simp add: format_uint.simps [of n])
qed

lemma digits_value_snoc: "digits_value (s @ [c]) = 10 * digits_value s + (of_char c - 48)"
  by (induction s) (simp_all add: algebra_simps)

lemma digits_value_format: "digits_value (format_uint n) = n"
proof (induction n rule: format_uint.induct)
  case (1 n)
  then show ?case
    using digit_char [of n] digit_char [of "n mod 10"]
    by (simp add: format_uint.simps [of n] digits_value_snoc)
qed

text \<open>The message tells the tag.\<close>

lemma NoSuchTagError_Error_inject: "NoSuchTagError_Error t = NoSuchTagError_Error u \<longleftrightarrow> t = u"
proof
  assume eq: "NoSuchTagError_Error t = NoSuchTagError_Error u"
  have minus: "format_uint n \<noteq> CHR ''-'' # s" for n s
    using format_uint_digits [of n] by (auto simp: is_digit_iff)
  have num: "format_uint m = format_uint n \<longleftrightarrow> m = n" for m n by (metis digits_value_format)
  from eq show "t = u" using minus minus [symmetric] by (auto simp: NoSuchTagError_Error_def num split: if_splits)
qed simp

lemma newline_not_digit: "\<not> is_digit newline"
  by (simp add: is_digit_iff)

lemma segments_format: "segments (format_uint n) = [SNum n, SEnd]"
proof -
  obtain c cs where s: "format_uint n = c # cs" using format_uint_digits [of n] by (cases "format_uint n") auto
  have all: "is_digit c" "\<forall>x \<in> set cs. is_digit x"
    using format_uint_digits [of n] by (simp_all add: s list_all_iff)
  then have cs: "takeWhile is_digit cs = cs" "dropWhile is_digit cs = []" by (simp_all add: takeWhile_eq_all_conv)
  show ?thesis
    using segments.simps(2) [of c cs] digits_value_format [of n] all(1) by (simp add: s cs)
qed

lemma format_uint_no_newline: "newline \<notin> set (format_uint n)"
  using format_uint_digits [of n] newline_not_digit by (auto simp: list_all_iff)

subsection \<open>Parallel arrays\<close>

lemma file_at_index:
  assumes "\<forall>n \<in> {length (ft_sizes ft), length (ft_users ft), length (ft_groups ft), length (ft_flags ft),
      length (ft_mtimes ft), length (ft_digests ft), length (ft_modes ft), length (ft_links ft),
      length (ft_devices ft), length (ft_inodes ft)}. i < n"
  shows "file_at ft path (int i) = Ok
     \<lparr>name = path, fsize = ft_sizes ft ! i, userName = ft_users ft ! i, groupName = ft_groups ft ! i,
      flags = ft_flags ft ! i, mtime = ft_mtimes ft ! i, digest = ft_digests ft ! i, mode = ft_modes ft ! i,
      linkName = ft_links ft ! i, device = ft_devices ft ! i, inode = ft_inodes ft ! i\<rparr>"
  using assms by (simp add: file_at_def)

lemma collect_files_map:
  assumes "\<And>i. i < length paths \<Longrightarrow> file_at ft (paths ! i) (int (j + i)) = Ok (g (j + i) (paths ! i))"
  shows "collect_files ft (int j) paths = Ok (map (\<lambda>i. g (j + i) (paths ! i)) [0..<length paths])"
  using assms
proof (induction paths arbitrary: j)
  case (Cons p ps)
  have "collect_files ft (int (Suc j)) ps = Ok (map (\<lambda>i. g (Suc j + i) (ps ! i)) [0..<length ps])"
    using Cons.prems [of "Suc i" for i] by (intro Cons.IH) simp
  moreover have "file_at ft p (int j) = Ok (g j p)" using Cons.prems [of 0] by simp
  ultimately show ?case by (simp add: add.commute map_upt_Suc del: upt_Suc)
qed simp

lemma collect_files_length: "collect_files ft i paths = Ok fs \<Longrightarrow> map name fs = paths"
  by (induction paths arbitrary: i fs) (auto simp: result_simps file_at_def)

lemma inode64_inode: "ucast (inode64 fi) = inode fi"
  by (rule bit_word_eqI) (simp add: inode64_def bit_ucast_iff bit_or_iff bit_push_bit_iff)

lemma inode64_device: "ucast (drop_bit 32 (inode64 fi)) = device fi"
  by (rule bit_word_eqI)
     (auto simp: inode64_def bit_ucast_iff bit_or_iff bit_push_bit_iff bit_drop_bit_eq
        dest: bit_imp_le_length)

section \<open>Properties\<close>

text \<open>
  C30.  \<open>NEVRAcmp\<close> compares epoch, version and release, the first difference deciding, each
  by its version segments; so it is a total preorder on package identities (without newlines)
  that does not look at the name or the architecture.
\<close>

theorem NEVRAcmp_lexicographic:
  assumes "nevra_ok a" "nevra_ok b" "nevra_ok c"
  shows "NEVRAcmp a b = order_cmp (segments (Epoch a), segments (Version a), segments (Release a))
                                  (segments (Epoch b), segments (Version b), segments (Release b))
     \<and> NEVRAcmp a a = 0 \<and> NEVRAcmp b a = - NEVRAcmp a b
     \<and> (NEVRAcmp a b \<le> 0 \<and> NEVRAcmp b c \<le> 0 \<longrightarrow> NEVRAcmp a c \<le> 0)"
  using assms nc.cmp_key [of a b] nc.cmp_refl [of a] nc.cmp_anti [of a b] nc.cmp_trans [of a b c]
  by (simp add: nevra_key_def)

definition sample_nevra :: "string \<Rightarrow> string \<Rightarrow> string \<Rightarrow> NEVRA" where
  "sample_nevra e v r = \<lparr>Name = ''foo'', Epoch = e, Version = v, Release = r, Arch = ''noarch''\<rparr>"

theorem NEVRAcmp_lexicographic_witness:
  "NEVRAcmp (sample_nevra ''0'' ''2'' ''1'') (sample_nevra ''1'' ''1'' ''1'') = -1
     \<and> NEVRAcmp (sample_nevra ''1'' ''1'' ''1'') (sample_nevra ''0'' ''2'' ''1'') = 1"
proof -
  let ?a = "sample_nevra ''0'' ''2'' ''1''" and ?b = "sample_nevra ''1'' ''1'' ''1''"
  have "nevra_ok ?a" "nevra_ok ?b" by code_simp+
  from NEVRAcmp_lexicographic [OF this this(2)]
  have "NEVRAcmp ?b ?a = - NEVRAcmp ?a ?b" by blast
  moreover have "NEVRAcmp ?a ?b = -1" by code_simp
  ultimately show ?thesis by simp
qed

text \<open>
  Sorting a \<open>NEVRASlice\<close> gives a permutation of it in ascending order of epoch, version
  and release.
\<close>

theorem NEVRASlice_sorted:
  assumes "sort_result NEVRASlice_Less NEVRASlice_Swap xs ys" "\<forall>n \<in> set xs. nevra_ok n"
  shows "mset ys = mset xs \<and> sorted_wrt (\<lambda>a b. NEVRAcmp a b \<le> 0) ys"
  using ns.sort_result_sorted [OF assms(1)] assms(2) by (simp add: list_all_iff)

theorem NEVRASlice_sorted_witness:
  "mset [sample_nevra ''0'' ''2'' ''1'', sample_nevra ''1'' ''1'' ''1'']
       = mset [sample_nevra ''1'' ''1'' ''1'', sample_nevra ''0'' ''2'' ''1'']
     \<and> sorted_wrt (\<lambda>a b. NEVRAcmp a b \<le> 0) [sample_nevra ''0'' ''2'' ''1'', sample_nevra ''1'' ''1'' ''1'']"
proof (rule NEVRASlice_sorted)
  let ?a = "sample_nevra ''0'' ''2'' ''1''" and ?b = "sample_nevra ''1'' ''1'' ''1''"
  have "swapped NEVRASlice_Swap [?b, ?a] [?a, ?b]"
    by (rule swapped_step [OF swapped_refl, of _ _ 0 1]) code_simp
  moreover have "NEVRASlice_Less [?a, ?b] (int (Suc 0)) (int 0) = Ok False" by code_simp
  ultimately show "sort_result NEVRASlice_Less NEVRASlice_Swap [?b, ?a] [?a, ?b]"
    by (simp add: sort_result_def)
  show "\<forall>n \<in> set [?b, ?a]. nevra_ok n" by code_simp
qed

text \<open>The number in the epoch tag of a header, if any.\<close>

definition epoch_number :: "rpmHeader \<Rightarrow> 64 word" where
  "epoch_number hdr = (case GetUint64s hdr EPOCH of Ok (e # _) \<Rightarrow> e | _ \<Rightarrow> 0)"

lemma GetEpoch_Ok: "GetEpoch hdr = Ok es \<Longrightarrow> \<exists>es'. es = epoch_number hdr # es'"
  by (auto simp: GetEpoch_def epoch_number_def split: result.splits go_error.splits list.splits)

text \<open>
  C29.  \<open>GetNEVRA\<close> takes the first string of the name, version, release and architecture
  tags and writes the first number of the epoch tag in decimal, 0 when the tag is absent or
  empty; so packages compare by the numbers in their epoch tags first, whatever their
  versions, a package without epoch below one with a positive epoch.
\<close>

theorem GetNEVRA_epoch_first:
  assumes "GetNEVRA h1 = Ok a" "GetNEVRA h2 = Ok b"
  shows "(\<not> HasTag h1 EPOCH \<longrightarrow> Epoch a = ''0'')
     \<and> (\<forall>es. GetUint64s h1 EPOCH = Ok es \<longrightarrow> Epoch a = format_uint (if es = [] then 0 else unat (hd es)))
     \<and> (\<exists>ns vs rs as. GetStrings h1 NAME = Ok (Name a # ns) \<and> GetStrings h1 VERSION = Ok (Version a # vs)
          \<and> GetStrings h1 RELEASE = Ok (Release a # rs) \<and> GetStrings h1 ARCH = Ok (Arch a # as))
     \<and> (epoch_number h1 < epoch_number h2 \<longrightarrow> NEVRAcmp a b = -1 \<and> NEVRAcmp b a = 1)"
proof -
  have ep: "Epoch a = format_uint (unat (epoch_number h1))" "Epoch b = format_uint (unat (epoch_number h2))"
    using assms by (auto simp: GetNEVRA_def result_simps dest: GetEpoch_Ok)
  have "format_uint 0 = ''0''" by code_simp
  then have "\<not> HasTag h1 EPOCH \<longrightarrow> Epoch a = ''0''"
    by (simp add: ep epoch_number_def HasTag_def GetUint64s_def getInts_def)
  moreover have "\<forall>es. GetUint64s h1 EPOCH = Ok es \<longrightarrow> Epoch a = format_uint (if es = [] then 0 else unat (hd es))"
    by (auto simp: ep epoch_number_def split: list.splits)
  moreover have "\<exists>ns vs rs as. GetStrings h1 NAME = Ok (Name a # ns) \<and> GetStrings h1 VERSION = Ok (Version a # vs)
      \<and> GetStrings h1 RELEASE = Ok (Release a # rs) \<and> GetStrings h1 ARCH = Ok (Arch a # as)"
    using assms(1) by (auto simp: GetNEVRA_def result_simps neq_Nil_conv)
  moreover have "NEVRAcmp a b = -1 \<and> NEVRAcmp b a = 1" if "epoch_number h1 < epoch_number h2"
  proof -
    have "order_cmp (segments (Epoch a)) (segments (Epoch b)) = -1"
        "order_cmp (segments (Epoch b)) (segments (Epoch a)) = 1"
      using that by (simp_all add: ep segments_format order_cmp_Cons word_less_nat_alt)
    then show ?thesis by (simp add: NEVRAcmp_def Let_def Vercmp_segments ep format_uint_no_newline)
  qed
  ultimately show ?thesis by blast
qed

definition nevra_header :: "(int \<times> entry) list \<Rightarrow> rpmHeader" where
  "nevra_header es = \<lparr>entries = es @
      [(1000, \<lparr>dataType = 6, ecount = 1, contents = bytes_of_string ''foo'' @ [0]\<rparr>),
       (1001, \<lparr>dataType = 6, ecount = 1, contents = bytes_of_string ''1.5'' @ [0]\<rparr>),
       (1002, \<lparr>dataType = 6, ecount = 1, contents = bytes_of_string ''2'' @ [0]\<rparr>),
       (1022, \<lparr>dataType = 6, ecount = 1, contents = bytes_of_string ''i686'' @ [0]\<rparr>)],
     isSource = False, orig = []\<rparr>"

definition epoch_tag :: "int \<times> entry" where
  "epoch_tag = (1003, \<lparr>dataType = 4, ecount = 1, contents = [0, 0, 0, 12]\<rparr>)"

theorem GetNEVRA_epoch_first_witness:
  "\<exists>a b. GetNEVRA (nevra_header []) = Ok a \<and> GetNEVRA (nevra_header [epoch_tag]) = Ok b
     \<and> Epoch a = ''0'' \<and> NEVRAcmp a b = -1 \<and> NEVRAcmp b a = 1"
proof -
  let ?a = "\<lparr>Name = ''foo'', Epoch = ''0'', Version = ''1.5'', Release = ''2'', Arch = ''i686''\<rparr>"
  let ?b = "?a\<lparr>Epoch := ''12''\<rparr>"
  have g: "GetNEVRA (nevra_header []) = Ok ?a" "GetNEVRA (nevra_header [epoch_tag]) = Ok ?b" by code_simp+
  have "epoch_number (nevra_header []) < epoch_number (nevra_header [epoch_tag])" "\<not> HasTag (nevra_header []) EPOCH"
    by code_simp+
  with GetNEVRA_epoch_first [OF g] g show ?thesis by blast
qed

text \<open>
  C28.  \<open>GetFiles\<close> returns one file per path, with the attributes found at its position in the
  parallel tags, when these have at least as many elements as there are paths; devices and
  inodes are zero when their tags cannot be read.
\<close>

theorem GetFiles_parallel:
  assumes "GetStrings hdr OLDFILENAMES = Ok paths"
    and "GetUint64Fallback hdr FILESIZES LONGFILESIZES = Ok sizes"
    and "GetStrings hdr FILEUSERNAME = Ok users" "GetStrings hdr FILEGROUPNAME = Ok groups"
    and "GetUint32s hdr FILEFLAGS = Ok fls" "GetUint32s hdr FILEMTIMES = Ok mtimes"
    and "GetStrings hdr FILEDIGESTS = Ok digests" "GetUint32s hdr FILEMODES = Ok modes"
    and "GetStrings hdr FILELINKTOS = Ok links"
    and "(case GetUint32s hdr FILEDEVICES of Err _ \<Rightarrow> Ok (replicate (length paths) 0) | r \<Rightarrow> r) = Ok devices"
    and "(case GetUint32s hdr FILEINODES of Err _ \<Rightarrow> Ok (replicate (length paths) 0) | r \<Rightarrow> r) = Ok inodes"
    and "\<forall>n \<in> {length sizes, length users, length groups, length fls, length mtimes, length digests,
           length modes, length links, length devices, length inodes}. length paths \<le> n"
  shows "GetFiles hdr = Ok (map (\<lambda>i.
     \<lparr>name = paths ! i, fsize = sizes ! i, userName = users ! i, groupName = groups ! i,
      flags = fls ! i, mtime = mtimes ! i, digest = digests ! i, mode = modes ! i,
      linkName = links ! i, device = devices ! i, inode = inodes ! i\<rparr>) [0..<length paths])"
proof -
  let ?ft = "\<lparr>ft_sizes = sizes, ft_users = users, ft_groups = groups, ft_flags = fls, ft_mtimes = mtimes,
      ft_digests = digests, ft_modes = modes, ft_links = links, ft_devices = devices, ft_inodes = inodes\<rparr>"
  let ?g = "\<lambda>i p. \<lparr>name = p, fsize = sizes ! i, userName = users ! i, groupName = groups ! i,
      flags = fls ! i, mtime = mtimes ! i, digest = digests ! i, mode = modes ! i,
      linkName = links ! i, device = devices ! i, inode = inodes ! i\<rparr>"
  have "file_at ?ft (paths ! i) (int (0 + i)) = Ok (?g (0 + i) (paths ! i))" if "i < length paths" for i
    using file_at_index [of ?ft i "paths ! i"] assms(12) that by simp
  note files = collect_files_map [of paths ?ft 0 ?g, OF this, simplified]
  show ?thesis using assms(1-11) files by (simp add: GetFiles_def or_zeros_def)
qed

definition file_header :: rpmHeader where
  "file_header = \<lparr>entries =
      [(1027, \<lparr>dataType = 8, ecount = 1, contents = bytes_of_string ''/etc/motd'' @ [0]\<rparr>),
       (1028, \<lparr>dataType = 4, ecount = 1, contents = [0, 0, 1, 0]\<rparr>),
       (1039, \<lparr>dataType = 8, ecount = 1, contents = bytes_of_string ''root'' @ [0]\<rparr>),
       (1040, \<lparr>dataType = 8, ecount = 1, contents = bytes_of_string ''adm'' @ [0]\<rparr>),
       (1037, \<lparr>dataType = 4, ecount = 1, contents = [0, 0, 0, 1]\<rparr>),
       (1034, \<lparr>dataType = 4, ecount = 1, contents = [0, 0, 0, 2]\<rparr>),
       (1035, \<lparr>dataType = 8, ecount = 1, contents = bytes_of_string ''abcd'' @ [0]\<rparr>),
       (1030, \<lparr>dataType = 3, ecount = 1, contents = [0x81, 0xa4]\<rparr>),
       (1036, \<lparr>dataType = 8, ecount = 1, contents = [0]\<rparr>),
       (1096, \<lparr>dataType = 4, ecount = 1, contents = [0, 0, 0, 7]\<rparr>)],
     isSource = False, orig = []\<rparr>"

theorem GetFiles_parallel_witness:
  "GetFiles file_header = Ok [
     \<lparr>name = ''/etc/motd'', fsize = 256, userName = ''root'', groupName = ''adm'', flags = 1, mtime = 2,
      digest = ''abcd'', mode = 0x81a4, linkName = '''', device = 0, inode = 7\<rparr>]"
proof -
  have "GetFiles file_header = Ok (map (\<lambda>i.
     \<lparr>name = [''/etc/motd''] ! i, fsize = [256] ! i, userName = [''root''] ! i, groupName = [''adm''] ! i,
      flags = [1] ! i, mtime = [2] ! i, digest = [''abcd''] ! i, mode = [0x81a4] ! i,
      linkName = [''''] ! i, device = [0] ! i, inode = [7] ! i\<rparr>) [0..<length [''/etc/motd'']])"
    by (rule GetFiles_parallel) code_simp+
  then show ?thesis by simp
qed

text \<open>
  The key under which hard links of a file are grouped identifies the pair of device and
  inode number.
\<close>

lemma inode64_eq_iff:
  "inode64 a = inode64 b \<longleftrightarrow> device a = device b \<and> inode a = inode b"
  by (metis inode64_device inode64_inode inode64_def)

end
