(* ===== verification/Rpmutils.thy ===== *)
theory Rpmutils
  imports Metadata
begin

text \<open>
  \<^verbatim>\<open>rpmutils.go\<close>: the lead, the signature header and the general header of an RPM file,
  read by \<open>ReadHeader\<close>, and the accessors that draw a tag from one of the two headers.
  The two functions of \<^verbatim>\<open>signatures.go\<close> that find the digest of the general header are
  here too, because \<open>ReadHeader\<close> calls them.
\<close>

record RpmHeader =
  lead :: bytes
  sigHeader :: rpmHeader
  genHeader :: rpmHeader
  rpmIsSource :: bool

record Rpm =
  Header :: RpmHeader
  rpm_f :: reader

section \<open>Reading\<close>

definition readSignatureHeader :: "crypto_env \<Rightarrow> reader \<Rightarrow> (bytes \<times> rpmHeader \<times> reader) result" where
  "readSignatureHeader env f =
     (case readExact reader_Read reader_steps f 96 of
        ((_, Some e), _) \<Rightarrow> Err (ReadLeadError e)
      | ((ld, None), f1) \<Rightarrow>
          let magic = be_decode (take 4 ld) :: 32 word in
          if magic AND 0xffffffff \<noteq> 0xedabeedb then Err NotAnRpm
          else let isSrc = ((be_decode (take 2 (drop 6 ld)) :: 16 word) = 1) in
            rbind (readHeader env f1 '''' 0 isSrc True) (\<lambda>(hdr, f2). Ok (ld, hdr, f2)))"

definition first_string :: "rpmHeader \<Rightarrow> int \<Rightarrow> string result" where
  "first_string hdr tag =
     (case GetStrings hdr tag of
        Err _ \<Rightarrow> Ok ''''
      | Panic p \<Rightarrow> Panic p
      | Ok vals \<Rightarrow> index vals 0)"

definition getSha1 :: "rpmHeader \<Rightarrow> string result" where
  "getSha1 sigh = first_string sigh SIG_SHA1"

definition getSha256 :: "rpmHeader \<Rightarrow> string result" where
  "getSha256 sigh = first_string sigh SIG_SHA256"

definition getHashAndType :: "rpmHeader \<Rightarrow> (string \<times> crypto_hash) result" where
  "getHashAndType sigh =
     rbind (getSha256 sigh) (\<lambda>h.
       if h \<noteq> '''' then Ok (h, crypto_SHA256)
       else rbind (getSha1 sigh) (\<lambda>h1. Ok (h1, crypto_SHA1)))"

definition ReadHeader :: "crypto_env \<Rightarrow> reader \<Rightarrow> (RpmHeader \<times> reader) result" where
  "ReadHeader env f =
     rbind (readSignatureHeader env f) (\<lambda>(ld, sigh, f1).
     rbind (getHashAndType sigh) (\<lambda>(hash, hashType).
     rbind (readHeader env f1 hash hashType (isSource sigh) False) (\<lambda>(gen, f2).
       Ok (\<lparr>lead = ld, sigHeader = sigh, genHeader = gen, rpmIsSource = isSource sigh\<rparr>, f2))))"

definition ReadRpm :: "crypto_env \<Rightarrow> reader \<Rightarrow> Rpm result" where
  "ReadRpm env f = rbind (ReadHeader env f) (\<lambda>(hdr, f1). Ok \<lparr>Header = hdr, rpm_f = f1\<rparr>)"

record HeaderRange =
  Start :: int
  End :: int

definition GetRange :: "RpmHeader \<Rightarrow> HeaderRange" where
  "GetRange hdr =
     (let start = 96 + int (length (orig (sigHeader hdr)));
          stop = start + int (length (orig (genHeader hdr))) in
      \<lparr>Start = start, End = stop\<rparr>)"

section \<open>Accessors\<close>

definition getHeader :: "RpmHeader \<Rightarrow> int \<Rightarrow> rpmHeader \<times> int" where
  "getHeader hdr tag =
     (if SIGHEADER_TAG_BASE < tag then (sigHeader hdr, tag - SIGHEADER_TAG_BASE)
      else if tag < GENERAL_TAG_BASE then (sigHeader hdr, tag)
      else (genHeader hdr, tag))"

definition Rpm_HasTag :: "RpmHeader \<Rightarrow> int \<Rightarrow> bool" where
  "Rpm_HasTag hdr tag = (case getHeader hdr tag of (h, t) \<Rightarrow> HasTag h t)"

definition Rpm_Get :: "RpmHeader \<Rightarrow> int \<Rightarrow> go_value result" where
  "Rpm_Get hdr tag = (case getHeader hdr tag of (h, t) \<Rightarrow> Get h t)"

definition Rpm_GetStrings :: "RpmHeader \<Rightarrow> int \<Rightarrow> string list result" where
  "Rpm_GetStrings hdr tag = (case getHeader hdr tag of (h, t) \<Rightarrow> GetStrings h t)"

definition Rpm_GetInts :: "RpmHeader \<Rightarrow> int \<Rightarrow> int list result" where
  "Rpm_GetInts hdr tag = (case getHeader hdr tag of (h, t) \<Rightarrow> GetInts h t)"

definition Rpm_GetUint32s :: "RpmHeader \<Rightarrow> int \<Rightarrow> 32 word list result" where
  "Rpm_GetUint32s hdr tag = (case getHeader hdr tag of (h, t) \<Rightarrow> GetUint32s h t)"

definition Rpm_GetUint64s :: "RpmHeader \<Rightarrow> int \<Rightarrow> 64 word list result" where
  "Rpm_GetUint64s hdr tag = (case getHeader hdr tag of (h, t) \<Rightarrow> GetUint64s h t)"

definition Rpm_GetBytes :: "RpmHeader \<Rightarrow> int \<Rightarrow> bytes result" where
  "Rpm_GetBytes hdr tag = (case getHeader hdr tag of (h, t) \<Rightarrow> GetBytes h t)"

text \<open>The accessors of a single value: exactly one value, or an error.\<close>

definition single :: "'a list result \<Rightarrow> 'a result" where
  "single r = rbind r (\<lambda>vals. if length vals \<noteq> 1 then Err WrongNumberOfValues else index vals 0)"

definition Rpm_GetString :: "RpmHeader \<Rightarrow> int \<Rightarrow> string result" where
  "Rpm_GetString hdr tag = single (Rpm_GetStrings hdr tag)"

definition Rpm_GetInt :: "RpmHeader \<Rightarrow> int \<Rightarrow> int result" where
  "Rpm_GetInt hdr tag = single (Rpm_GetInts hdr tag)"

definition Rpm_GetUint32 :: "RpmHeader \<Rightarrow> int \<Rightarrow> 32 word result" where
  "Rpm_GetUint32 hdr tag = single (Rpm_GetUint32s hdr tag)"

definition Rpm_GetUint64 :: "RpmHeader \<Rightarrow> int \<Rightarrow> 64 word result" where
  "Rpm_GetUint64 hdr tag = single (Rpm_GetUint64s hdr tag)"

definition Rpm_GetUint64Fallback :: "RpmHeader \<Rightarrow> int \<Rightarrow> int \<Rightarrow> 64 word result" where
  "Rpm_GetUint64Fallback hdr intTag longTag =
     (case Rpm_GetUint64s hdr longTag of
        Panic p \<Rightarrow> Panic p
      | Err _ \<Rightarrow> single (Rpm_GetUint64s hdr intTag)
      | Ok vals \<Rightarrow> if length vals = 1 then index vals 0 else single (Rpm_GetUint64s hdr intTag))"

definition Rpm_GetNEVRA :: "RpmHeader \<Rightarrow> NEVRA result" where
  "Rpm_GetNEVRA hdr = GetNEVRA (genHeader hdr)"

definition Rpm_GetFiles :: "RpmHeader \<Rightarrow> fileInfo list result" where
  "Rpm_GetFiles hdr = GetFiles (genHeader hdr)"

definition InstalledSize :: "RpmHeader \<Rightarrow> int result" where
  "InstalledSize hdr = rbind (Rpm_GetUint64Fallback hdr SIZE LONGSIZE) (\<lambda>u. Ok (sint u))"

definition PayloadSize :: "RpmHeader \<Rightarrow> int result" where
  "PayloadSize hdr =
     rbind (GetUint64Fallback (sigHeader hdr) (SIG_PAYLOADSIZE - SIGHEADER_TAG_BASE) SIG_LONGARCHIVESIZE)
       (\<lambda>u. if length u \<noteq> 1 then Err WrongNumberOfValues else rbind (index u 0) (\<lambda>v. Ok (sint v)))"

definition IsSource :: "RpmHeader \<Rightarrow> bool" where
  "IsSource hdr = rpmIsSource hdr"

section \<open>Reading as a function of the bytes\<close>

definition parse_signature_header :: "crypto_env \<Rightarrow> bytes \<Rightarrow> io_err \<Rightarrow> (bytes \<times> rpmHeader \<times> bytes) result" where
  "parse_signature_header env bs fin =
     (if length bs < 96 then Err (ReadLeadError (short_err bs fin))
      else if (be_decode (take 4 bs) :: 32 word) \<noteq> 0xedabeedb then Err NotAnRpm
      else rbind (parse_header env (drop 96 bs) fin '''' 0 ((be_decode (take 2 (drop 6 bs)) :: 16 word) = 1) True)
             (\<lambda>(hdr, rest). Ok (take 96 bs, hdr, rest)))"

definition parse_rpm :: "crypto_env \<Rightarrow> bytes \<Rightarrow> io_err \<Rightarrow> (RpmHeader \<times> bytes) result" where
  "parse_rpm env bs fin =
     rbind (parse_signature_header env bs fin) (\<lambda>(ld, sigh, bs1).
     rbind (getHashAndType sigh) (\<lambda>(hash, hashType).
     rbind (parse_header env bs1 fin hash hashType (isSource sigh) False) (\<lambda>(gen, rest).
       Ok (\<lparr>lead = ld, sigHeader = sigh, genHeader = gen, rpmIsSource = isSource sigh\<rparr>, rest))))"

lemma readExact_reader_eq:
  "readExact reader_Read reader_steps r m =
     (if m \<le> length (reader_pending r) then ((take m (reader_pending r), None), reader_after r m)
      else ((reader_pending r @ replicate (m - length (reader_pending r)) 0,
             Some (short_err (reader_pending r) (rd_fin r))), reader_after r m))"
  by (simp add: readExact_def reader_ReadFull_def [symmetric] reader_ReadFull_eq)

lemma magic_mask: "(w :: 32 word) AND 0xffffffff = w"
proof -
  have "(0xffffffff :: 32 word) = - 1" by code_simp
  then show ?thesis by (simp only: and.right_neutral)
qed

lemma readSignatureHeader_parse:
  "map_result (\<lambda>(ld, h, r). (ld, h, reader_pending r)) (readSignatureHeader env f)
     = parse_signature_header env (reader_pending f) (rd_fin f)"
proof (cases "96 \<le> length (reader_pending f)")
  case True
  let ?f1 = "reader_after f 96" and ?bs = "reader_pending f"
  let ?src = "(be_decode (take 2 (drop 6 ?bs)) :: 16 word) = 1"
  have P: "map_result (\<lambda>(h, r). (h, reader_pending r)) (readHeader env ?f1 '''' 0 ?src True)
      = parse_header env (drop 96 ?bs) (rd_fin f) '''' 0 ?src True"
    using readHeader_parse_header [of env ?f1 "''''" 0 ?src True] by simp
  show ?thesis
    using True
    by (cases "readHeader env ?f1 '''' 0 ?src True")
       (auto simp: readSignatureHeader_def parse_signature_header_def readExact_reader_eq Let_def magic_mask
          drop_take P [symmetric])
next
  case False
  then show ?thesis
    by (simp add: readSignatureHeader_def parse_signature_header_def readExact_reader_eq)
qed

lemma readSignatureHeader_fin:
  "readSignatureHeader env f = Ok (ld, h, f') \<Longrightarrow> rd_fin f' = rd_fin f"
  by (auto simp: readSignatureHeader_def readExact_reader_eq Let_def result_simps dest!: readHeader_fin
      split: if_splits)

lemma ReadHeader_parse_rpm:
  "map_result (\<lambda>(h, r). (h, reader_pending r)) (ReadHeader env f)
     = parse_rpm env (reader_pending f) (rd_fin f)"
proof (cases "readSignatureHeader env f")
  case (Ok t)
  then obtain ld sigh f1 where sig: "readSignatureHeader env f = Ok (ld, sigh, f1)" by (cases t) auto
  note fin = readSignatureHeader_fin [OF sig]
  have ps: "parse_signature_header env (reader_pending f) (rd_fin f) = Ok (ld, sigh, reader_pending f1)"
    using readSignatureHeader_parse [of env f] sig by simp
  have gen: "map_result (\<lambda>(h, r). (h, reader_pending r)) (readHeader env f1 hash ty src False)
      = parse_header env (reader_pending f1) (rd_fin f) hash ty src False" for hash ty src
    using readHeader_parse_header [of env f1 hash ty src False] fin by simp
  show ?thesis
    by (simp add: ReadHeader_def parse_rpm_def sig ps gen [symmetric] map_result_rbind split_def)
       (auto simp: rbind_map_result intro!: arg_cong [where f = "rbind (getHashAndType sigh)"])
next
  case (Err e)
  then show ?thesis
    using readSignatureHeader_parse [of env f] by (simp add: ReadHeader_def parse_rpm_def flip: readSignatureHeader_parse)
next
  case (Panic p)
  then show ?thesis
    by (simp add: ReadHeader_def parse_rpm_def flip: readSignatureHeader_parse)
qed

lemma parse_signature_header_split:
  assumes "parse_signature_header env bs fin = Ok (ld, h, rest)"
  shows "bs = ld @ orig h @ rest \<and> length ld = 96 \<and> (be_decode (take 4 ld) :: 32 word) = 0xedabeedb \<and> wf_header h
     \<and> isSource h = ((be_decode (take 2 (drop 6 ld)) :: 16 word) = 1)"
proof -
  from assms have parts: "96 \<le> length bs" "ld = take 96 bs" "(be_decode (take 4 bs) :: 32 word) = 0xedabeedb"
    and p: "parse_header env (drop 96 bs) fin '''' 0 ((be_decode (take 2 (drop 6 bs)) :: 16 word) = 1) True = Ok (h, rest)"
    by (auto simp: parse_signature_header_def result_simps split: if_splits)
  from parse_header_split [OF p] parse_header_wf [OF p] parts show ?thesis
    by (auto simp: drop_take) (metis append_take_drop_id)+
qed

lemma parse_rpm_Ok:
  assumes "parse_rpm env bs fin = Ok (hdr, rest)"
  shows "bs = lead hdr @ orig (sigHeader hdr) @ orig (genHeader hdr) @ rest
     \<and> length (lead hdr) = 96 \<and> (be_decode (take 4 (lead hdr)) :: 32 word) = 0xedabeedb
     \<and> wf_header (sigHeader hdr) \<and> wf_header (genHeader hdr)
     \<and> isSource (genHeader hdr) = rpmIsSource hdr
     \<and> rpmIsSource hdr = ((be_decode (take 2 (drop 6 (lead hdr))) :: 16 word) = 1)
     \<and> (\<exists>hash ty. getHashAndType (sigHeader hdr) = Ok (hash, ty) \<and>
          (1 < length hash \<longrightarrow> hash_available env ty \<and> hex_encode (hash_sum env ty (orig (genHeader hdr))) = hash))"
proof -
  from assms obtain ld sigh bs1 hash ty gen where
    s: "parse_signature_header env bs fin = Ok (ld, sigh, bs1)" and
    h: "getHashAndType sigh = Ok (hash, ty)" and
    g: "parse_header env bs1 fin hash ty (isSource sigh) False = Ok (gen, rest)" and
    hdr: "hdr = \<lparr>lead = ld, sigHeader = sigh, genHeader = gen, rpmIsSource = isSource sigh\<rparr>"
    by (auto simp: parse_rpm_def rbind_eq_Ok_iff)
  show ?thesis
    using parse_signature_header_split [OF s] parse_header_split [OF g] parse_header_wf [OF g]
      parse_header_digest [OF g] h
    by (simp add: hdr)
qed

lemma parse_rpm_gen:
  assumes "parse_rpm env bs fin = Ok (hdr, rest)"
  shows "\<exists>hash ty. getHashAndType (sigHeader hdr) = Ok (hash, ty) \<and>
     parse_header env (orig (genHeader hdr) @ rest) fin hash ty (rpmIsSource hdr) False = Ok (genHeader hdr, rest)"
proof -
  from assms obtain ld sigh bs1 hash ty gen where
    h: "getHashAndType sigh = Ok (hash, ty)" and
    g: "parse_header env bs1 fin hash ty (isSource sigh) False = Ok (gen, rest)" and
    hdr: "hdr = \<lparr>lead = ld, sigHeader = sigh, genHeader = gen, rpmIsSource = isSource sigh\<rparr>"
    by (auto simp: parse_rpm_def rbind_eq_Ok_iff)
  with parse_header_split [OF g] show ?thesis by auto
qed

lemma parse_rpm_rest:
  assumes "parse_rpm env bs fin = Ok (hdr, rest)"
  shows "parse_rpm env (lead hdr @ orig (sigHeader hdr) @ orig (genHeader hdr) @ rest') fin' = Ok (hdr, rest')"
proof -
  from assms obtain ld sigh bs1 hash ty gen where
    s: "parse_signature_header env bs fin = Ok (ld, sigh, bs1)" and
    h: "getHashAndType sigh = Ok (hash, ty)" and
    g: "parse_header env bs1 fin hash ty (isSource sigh) False = Ok (gen, rest)" and
    hdr: "hdr = \<lparr>lead = ld, sigHeader = sigh, genHeader = gen, rpmIsSource = isSource sigh\<rparr>"
    by (auto simp: parse_rpm_def rbind_eq_Ok_iff)
  let ?src = "(be_decode (take 2 (drop 6 ld)) :: 16 word) = 1"
  from s have ld: "length ld = 96" "(be_decode (take 4 ld) :: 32 word) = 0xedabeedb"
      and p: "parse_header env (drop 96 bs) fin '''' 0 ?src True = Ok (sigh, bs1)"
    by (auto simp: parse_signature_header_def rbind_eq_Ok_iff drop_take min_def split: if_splits)
  have "parse_signature_header env (ld @ orig sigh @ xs) fin' = Ok (ld, sigh, xs)" for xs
    using ld parse_header_rest [OF p, of xs fin'] by (simp add: parse_signature_header_def)
  then show ?thesis using h parse_header_rest [OF g, of rest' fin'] by (simp add: parse_rpm_def hdr)
qed

lemma ReadHeader_Ok:
  "ReadHeader env f = Ok (hdr, f') \<Longrightarrow> parse_rpm env (reader_pending f) (rd_fin f) = Ok (hdr, reader_pending f')"
  by (simp flip: ReadHeader_parse_rpm)

lemma ReadHeader_fin: "ReadHeader env f = Ok (hdr, f') \<Longrightarrow> rd_fin f' = rd_fin f"
  by (auto simp: ReadHeader_def result_simps dest!: readHeader_fin readSignatureHeader_fin)

text \<open>Reading the headers makes no new ends of pieces.\<close>

lemma tee_ReadFull_cut_at: "cut_at B (tee_src t) \<Longrightarrow> cut_at B (tee_src (snd (ReadFull tee_Read steps t m)))"
proof (rule ReadFull_keeps [where P = "\<lambda>t. cut_at B (tee_src t)"])
  show "cut_at B (tee_src (snd (tee_Read s n)))" if "cut_at B (tee_src s)" for s n
    using reader_Read_cut_at [OF that, of n] by (simp add: tee_Read_def split_def)
qed

lemma readHeader_cut_at:
  assumes "readHeader env f hash ty src sigBlock = Ok (h, f')" "cut_at B f"
  shows "cut_at B f'"
proof -
  have step: "cut_at B (tee_src t')"
    if "readExact tee_Read (\<lambda>t. tee_steps t) t n = (x, t')" "cut_at B (tee_src t)" for t t' n x
    using tee_ReadFull_cut_at [OF that(2)] that(1) by (auto simp: readExact_def split: prod.splits) (metis snd_conv)
  have start: "cut_at B (tee_src t')" if "tee_ReadFull \<lparr>tee_src = f, tee_buf = []\<rparr> n = (x, t')" for t' n x
    using tee_ReadFull_cut_at [of B "\<lparr>tee_src = f, tee_buf = []\<rparr>"] assms(2) that
    by (auto simp: tee_ReadFull_def) (metis snd_conv)
  show ?thesis
    using assms(1) by (auto simp: readHeader_def Let_def result_simps split: prod.splits option.splits if_splits dest!: start step)
qed

lemma ReadHeader_cut_at:
  assumes "ReadHeader env f = Ok (hdr, f')" "cut_at B f"
  shows "cut_at B f'"
proof -
  obtain ld sigh f1 hash ty gen where sig: "readSignatureHeader env f = Ok (ld, sigh, f1)"
      and gen: "readHeader env f1 hash ty (isSource sigh) False = Ok (gen, f')"
    using assms(1) by (auto simp: ReadHeader_def result_simps)
  have "cut_at B (snd (readExact reader_Read reader_steps f 96))"
    using ReadFull_keeps [OF reader_Read_cut_at assms(2)] by (simp add: readExact_def split_def)
  then have "cut_at B f1"
    using sig readHeader_cut_at by (auto simp: readSignatureHeader_def Let_def result_simps split: prod.splits option.splits if_splits)
  with readHeader_cut_at [OF gen] show ?thesis by simp
qed

section \<open>Properties\<close>

text \<open>A package: a lead, a signature header with a digest tag, a general header, a payload.\<close>

definition sample_lead :: bytes where
  "sample_lead = [0xed, 0xab, 0xee, 0xdb, 3, 0, 0, 0] @ replicate 88 0"

definition sample_sig_area :: bytes where
  "sample_sig_area =
     [0x8e, 0xad, 0xe8, 0x01, 0, 0, 0, 0, 0, 0, 0, 1, 0, 0, 0, 5,
      0, 0, 1, 17, 0, 0, 0, 6, 0, 0, 0, 0, 0, 0, 0, 1,
      0x39, 0x34, 0x33, 0x63, 0, 0, 0, 0]"

definition sample_sig_header :: rpmHeader where
  "sample_sig_header = \<lparr>entries = [(273, \<lparr>dataType = 6, ecount = 1, contents = bytes_of_string ''943c'' @ [0]\<rparr>)],
     isSource = False, orig = sample_sig_area\<rparr>"

definition sample_rpm :: reader where
  "sample_rpm = \<lparr>rd_chunks = [take 50 sample_lead, drop 50 sample_lead @ sample_sig_area @ take 9 sample_area,
      drop 9 sample_area @ [1, 2], [3]], rd_fin = EOF, rd_eager = True\<rparr>"

definition sample_rpm_header :: RpmHeader where
  "sample_rpm_header = \<lparr>lead = sample_lead, sigHeader = sample_sig_header, genHeader = sample_header,
     rpmIsSource = False\<rparr>"

lemma sample_ReadHeader: "ReadHeader sample_env sample_rpm = Ok (sample_rpm_header, sample_rest)"
  by code_simp

text \<open>
  C20.  \<open>ReadHeader\<close> depends only on the bytes of the stream, not on how it delivers them: it
  returns what the reference parser \<open>parse_rpm\<close> returns, and leaves the stream at the payload.
\<close>

theorem ReadHeader_refines_parser:
  "map_result (\<lambda>(h, r). (h, reader_pending r)) (ReadHeader env f)
     = parse_rpm env (reader_pending f) (rd_fin f)"
  by (rule ReadHeader_parse_rpm)

text \<open>
  C14.  What \<open>ReadHeader\<close> consumed is the 96 bytes of the lead, then the signature header,
  then the general header, byte for byte; the lead starts with the RPM magic and both
  headers are well-formed; and \<open>GetRange\<close> gives the offsets of the general header in the
  file, its end being where the payload starts.
\<close>

theorem ReadHeader_layout:
  assumes "ReadHeader env f = Ok (hdr, f')" "GetRange hdr = r"
  shows "reader_pending f = lead hdr @ orig (sigHeader hdr) @ orig (genHeader hdr) @ reader_pending f'
     \<and> length (lead hdr) = 96 \<and> (be_decode (take 4 (lead hdr)) :: 32 word) = 0xedabeedb
     \<and> wf_header (sigHeader hdr) \<and> wf_header (genHeader hdr)
     \<and> take (nat (End r - Start r)) (drop (nat (Start r)) (reader_pending f)) = orig (genHeader hdr)
     \<and> drop (nat (End r)) (reader_pending f) = reader_pending f'"
  using parse_rpm_Ok [OF ReadHeader_Ok [OF assms(1)]] assms(2)
  by (auto simp: GetRange_def Let_def nat_add_distrib)

theorem ReadHeader_layout_witness:
  "reader_pending sample_rpm = lead sample_rpm_header @ orig (sigHeader sample_rpm_header)
        @ orig (genHeader sample_rpm_header) @ reader_pending sample_rest
     \<and> drop 196 (reader_pending sample_rpm) = reader_pending sample_rest"
proof -
  have "GetRange sample_rpm_header = \<lparr>Start = 136, End = 196\<rparr>" by code_simp
  from ReadHeader_layout [OF sample_ReadHeader this] show ?thesis
    unfolding HeaderRange.simps nat_numeral by (elim conjE) (rule conjI)
qed

text \<open>The digest of the general header that is recorded in the signature header, as far as it is checked.\<close>

definition header_digest_ok :: "crypto_env \<Rightarrow> rpmHeader \<Rightarrow> rpmHeader \<Rightarrow> bool" where
  "header_digest_ok env sigh gen \<longleftrightarrow>
     (case getHashAndType sigh of
        Ok (dg, alg) \<Rightarrow> length dg \<le> 1 \<or> hash_available env alg \<and> hex_encode (hash_sum env alg (orig gen)) = dg
      | _ \<Rightarrow> False)"

lemma ReadHeader_digest: "ReadHeader env f = Ok (hdr, f') \<Longrightarrow> header_digest_ok env (sigHeader hdr) (genHeader hdr)"
  using parse_rpm_Ok [OF ReadHeader_Ok [of env f hdr f']] by (auto simp: header_digest_ok_def)

text \<open>
  C15.  The general header is protected by the digest in the signature header, with a gap: when
  \<open>ReadHeader\<close> succeeds and the signature header has a non-empty SHA-256 string, then the
  general header has this SHA-256 digest, or the string has a single character; when there is none, the
  general header has the recorded SHA-1 digest, or that string has at most one character.  A string of one
  character is not compared at all, and a SHA-256 one also keeps the SHA-1 digest from being
  looked at.
\<close>

theorem ReadHeader_checks_digest:
  assumes "ReadHeader env f = Ok (hdr, f')"
  shows "\<exists>sha256. getSha256 (sigHeader hdr) = Ok sha256 \<and>
     (if sha256 \<noteq> ''''
      then length sha256 = 1 \<or> hex_encode (hash_sum env crypto_SHA256 (orig (genHeader hdr))) = sha256
      else \<exists>sha1. getSha1 (sigHeader hdr) = Ok sha1 \<and>
             (length sha1 \<le> 1 \<or> hex_encode (hash_sum env crypto_SHA1 (orig (genHeader hdr))) = sha1))"
proof -
  obtain dg alg where "getHashAndType (sigHeader hdr) = Ok (dg, alg)"
      "length dg \<le> 1 \<or> hex_encode (hash_sum env alg (orig (genHeader hdr))) = dg"
    using ReadHeader_digest [OF assms] by (auto simp: header_digest_ok_def split: result.splits)
  then show ?thesis by (auto simp: getHashAndType_def result_simps le_Suc_eq split: if_splits)
qed

theorem ReadHeader_checks_digest_witness:
  "hex_encode (hash_sum sample_env crypto_SHA256 (orig (genHeader sample_rpm_header))) = ''943c''"
proof -
  have "getSha256 (sigHeader sample_rpm_header) = Ok ''943c''" by code_simp
  with ReadHeader_checks_digest [OF sample_ReadHeader] show ?thesis by simp
qed

text \<open>
  Every tag of \<^verbatim>\<open>tags.go\<close> is looked up in the header area it belongs to: the general tags
  under their own number in the general header, the signature tags in the signature header,
  those that share numbers with general tags after subtracting the base of their range.
\<close>

theorem getHeader_routes_tags:
  "list_all (\<lambda>(n, t). getHeader hdr t = (genHeader hdr, t)) general_tags
     \<and> list_all (\<lambda>(n, t). getHeader hdr t
          = (sigHeader hdr, if SIGHEADER_TAG_BASE < t then t - SIGHEADER_TAG_BASE else t)) signature_tags
     \<and> distinct (map snd general_tags)"
  by (simp add: getHeader_def general_tags_def signature_tags_def)

end
