(* ===== verification/Verify.thy ===== *)
theory Verify
  imports Rpmutils
begin

text \<open>
  \<^verbatim>\<open>verify.go\<close>, \<^verbatim>\<open>verify_digests.go\<close>, \<^verbatim>\<open>verify_v4.go\<close>, \<^verbatim>\<open>verify_v3.go\<close> and \<^verbatim>\<open>verify_nov3.go\<close>,
  with \<open>getPayloadDigest\<close> of \<^verbatim>\<open>signatures.go\<close>: the digest over the payload and the OpenPGP
  signatures of a package.

  The OpenPGP package is third-party code.  What the program calls of it is a record of
  functions, a parameter of the definitions.
\<close>

section \<open>Hash objects\<close>

text \<open>A \<^verbatim>\<open>hash.Hash\<close>: its algorithm and what has been written to it.\<close>

record hasher =
  hs_alg :: crypto_hash
  hs_data :: bytes

definition hash_New :: "crypto_env \<Rightarrow> crypto_hash \<Rightarrow> hasher result" where
  "hash_New env alg =
     (if hash_available env alg then Ok \<lparr>hs_alg = alg, hs_data = []\<rparr> else Panic HashUnavailable)"

definition hash_Write :: "bytes \<Rightarrow> hasher \<Rightarrow> hasher" where
  "hash_Write bs h = h\<lparr>hs_data := hs_data h @ bs\<rparr>"

definition hash_Sum :: "crypto_env \<Rightarrow> hasher \<Rightarrow> bytes" where
  "hash_Sum env h = hash_sum env (hs_alg h) (hs_data h)"

section \<open>The OpenPGP package\<close>

record public_key =
  pk_KeyId :: "64 word"
  pk_Fingerprint :: bytes
  pk_PubKeyAlgo :: nat

record private_key =
  sk_PublicKey :: public_key
  sk_secret :: nat

record Entity =
  PrimaryKey :: public_key
  Subkeys :: "public_key list"
  PrimaryIdentity :: "string option"   \<comment> \<open>name of the identity the method returns\<close>

text \<open>\<^verbatim>\<open>packet.Signature\<close>; \<open>ps_body\<close> is what the program does not look at.\<close>

record packet_Signature =
  ps_CreationTime :: int
  ps_PubKeyAlgo :: nat
  ps_Hash :: crypto_hash
  ps_IssuerKeyId :: "64 word option"
  ps_IssuerFingerprint :: "bytes option"
  ps_body :: bytes

text \<open>\<^verbatim>\<open>packet.SignatureV3\<close>, in builds with the tag \<^verbatim>\<open>pgp3\<close>.\<close>

record packet_SignatureV3 =
  p3_CreationTime :: int
  p3_Hash :: crypto_hash
  p3_IssuerKeyId :: "64 word"
  p3_body :: bytes

datatype packet = PacketSignature packet_Signature | PacketSignatureV3 packet_SignatureV3 | PacketOther nat

type_synonym EntityList = "Entity list"

record pgp_env =
  build_pgp3 :: bool                       \<comment> \<open>the build tag\<close>
  packet_Read :: "bytes \<Rightarrow> (packet \<times> bytes) result"   \<comment> \<open>with what the reader has left\<close>
  CheckKeyIdOrFingerprint :: "packet_Signature \<Rightarrow> public_key \<Rightarrow> bool"
  VerifySignature :: "public_key \<Rightarrow> hasher \<Rightarrow> packet_Signature \<Rightarrow> unit result"
  VerifySignatureV3 :: "public_key \<Rightarrow> hasher \<Rightarrow> packet_SignatureV3 \<Rightarrow> unit result"
  KeysById :: "EntityList \<Rightarrow> 64 word \<Rightarrow> (Entity \<times> public_key option) list"
  sig_Sign :: "packet_Signature \<Rightarrow> hasher \<Rightarrow> private_key \<Rightarrow> packet_Signature result"
  sig_Serialize :: "packet_Signature \<Rightarrow> bytes result"

section \<open>Signatures\<close>

text \<open>
  The closure \<open>validate\<close> of a \<open>Signature\<close> refers to the packet and to the known keys; it
  is the packet here, and the keys are passed to \<open>validate\<close>.
\<close>

record Signature =
  Signer :: "Entity option"
  sig_Hash :: crypto_hash
  CreationTime :: int
  HeaderOnly :: bool
  KeyId :: "64 word"
  KeyFingerprint :: "bytes option"
  PrimaryName :: string
  sig_packet :: packet

definition setEntity :: "Signature \<Rightarrow> Entity \<Rightarrow> Signature" where
  "setEntity sg entity =
     (let s1 = sg\<lparr>Signer := Some entity\<rparr>;
          s2 = (if KeyId s1 = 0 then s1\<lparr>KeyId := pk_KeyId (PrimaryKey entity)\<rparr> else s1);
          s3 = (if KeyFingerprint s2 = None
                then s2\<lparr>KeyFingerprint := Some (pk_Fingerprint (PrimaryKey entity))\<rparr> else s2) in
      case PrimaryIdentity entity of
        Some nm \<Rightarrow> s3\<lparr>PrimaryName := nm\<rparr>
      | None \<Rightarrow> s3)"

text \<open>The key of the first entity whose primary key or, next, a subkey matches.\<close>

primrec findKey :: "pgp_env \<Rightarrow> packet_Signature \<Rightarrow> EntityList \<Rightarrow> (Entity \<times> public_key) option" where
  "findKey pgp sg [] = None"
| "findKey pgp sg (entity # knownKeys) =
     (if CheckKeyIdOrFingerprint pgp sg (PrimaryKey entity) then Some (entity, PrimaryKey entity)
      else (case List.find (\<lambda>sub. CheckKeyIdOrFingerprint pgp sg sub) (Subkeys entity) of
              Some sub \<Rightarrow> Some (entity, sub)
            | None \<Rightarrow> findKey pgp sg knownKeys))"

definition parseSignatureV4 :: "packet \<Rightarrow> Signature result" where
  "parseSignatureV4 genpkt =
     (case genpkt of
        PacketSignature pkt \<Rightarrow>
          if ps_IssuerKeyId pkt = None \<and> (ps_IssuerFingerprint pkt = None \<or> ps_IssuerFingerprint pkt = Some [])
          then Err ErrNoPGPSignature
          else Ok \<lparr>Signer = None, sig_Hash = ps_Hash pkt, CreationTime = ps_CreationTime pkt,
                   HeaderOnly = False,
                   KeyId = (case ps_IssuerKeyId pkt of Some k \<Rightarrow> k | None \<Rightarrow> 0),
                   KeyFingerprint = ps_IssuerFingerprint pkt, PrimaryName = '''',
                   sig_packet = genpkt\<rparr>
      | _ \<Rightarrow> Err ErrNoPGPSignature)"

text \<open>\<^verbatim>\<open>parseSignatureMaybeV3\<close> with the build tag, without it, and the one of the build.\<close>

definition parseSignatureMaybeV3_pgp3 :: "packet \<Rightarrow> Signature result" where
  "parseSignatureMaybeV3_pgp3 genpkt =
     (case genpkt of
        PacketSignatureV3 pkt \<Rightarrow>
          Ok \<lparr>Signer = None, sig_Hash = p3_Hash pkt, CreationTime = p3_CreationTime pkt,
              HeaderOnly = False, KeyId = p3_IssuerKeyId pkt, KeyFingerprint = None,
              PrimaryName = '''', sig_packet = genpkt\<rparr>
      | _ \<Rightarrow> parseSignatureV4 genpkt)"

definition parseSignatureMaybeV3_nov3 :: "packet \<Rightarrow> Signature result" where
  "parseSignatureMaybeV3_nov3 genpkt = parseSignatureV4 genpkt"

definition parseSignatureMaybeV3 :: "pgp_env \<Rightarrow> packet \<Rightarrow> Signature result" where
  "parseSignatureMaybeV3 pgp genpkt =
     (if build_pgp3 pgp then parseSignatureMaybeV3_pgp3 genpkt else parseSignatureMaybeV3_nov3 genpkt)"

lemmas parseSignatureMaybeV3_defs =
  parseSignatureMaybeV3_def parseSignatureMaybeV3_pgp3_def parseSignatureMaybeV3_nov3_def

definition parseSignature :: "pgp_env \<Rightarrow> bytes \<Rightarrow> Signature result" where
  "parseSignature pgp blob =
     rbind (packet_Read pgp blob) (\<lambda>(genpkt, rest).
       if 0 < length rest then Err ErrTrailingGarbage else parseSignatureMaybeV3 pgp genpkt)"

text \<open>The two closures stored in \<open>validate\<close>; \<^verbatim>\<open>nil\<close> keys are \<open>None\<close>.\<close>

definition validate :: "pgp_env \<Rightarrow> EntityList option \<Rightarrow> Signature \<Rightarrow> hasher \<Rightarrow> Signature result" where
  "validate pgp knownKeys sg h =
     (case knownKeys of
        None \<Rightarrow> Ok sg
      | Some keys \<Rightarrow>
          (case sig_packet sg of
             PacketSignature pkt \<Rightarrow>
               (case findKey pgp pkt keys of
                  Some (entity, key) \<Rightarrow>
                    rbind (VerifySignature pgp key h pkt) (\<lambda>_. Ok (setEntity sg entity))
                | None \<Rightarrow> Err (KeyNotFoundError (KeyId sg) (KeyFingerprint sg)))
           | PacketSignatureV3 pkt \<Rightarrow>
               (case KeysById pgp keys (p3_IssuerKeyId pkt) of
                  (entity, Some key) # _ \<Rightarrow>
                    rbind (VerifySignatureV3 pgp key h pkt) (\<lambda>_. Ok (setEntity sg entity))
                | _ \<Rightarrow> Err (KeyNotFoundError (p3_IssuerKeyId pkt) None))
           | PacketOther _ \<Rightarrow> Panic NilDereference))"

text \<open>The message of a \<open>KeyNotFoundError\<close>.\<close>

fun format_hex :: "nat \<Rightarrow> string" where
  "format_hex n = (if n < 16 then [hex_digit n] else format_hex (n div 16) @ [hex_digit (n mod 16)])"

declare format_hex.simps [simp del]

definition KeyNotFoundError_Error :: "64 word \<Rightarrow> bytes option \<Rightarrow> string" where
  "KeyNotFoundError_Error keyID fingerprint =
     (let fp = (case fingerprint of Some bs \<Rightarrow> bs | None \<Rightarrow> []); key = format_hex (unat keyID) in
      if keyID = 0 \<and> 0 < length fp then ''key with fingerprint '' @ hex_encode fp @ '' not found''
      else ''keyid '' @ replicate (8 - length key) CHR ''0'' @ key @ '' not found'')"

section \<open>Digests\<close>

abbreviation (input) headerSigTags :: "int list" where "headerSigTags \<equiv> [SIG_RSA, SIG_DSA]"
abbreviation (input) payloadSigTags :: "int list" where
  "payloadSigTags \<equiv> [SIG_PGP - SIGHEADER_TAG_BASE, SIG_GPG - SIGHEADER_TAG_BASE]"

definition setupDigester :: "pgp_env \<Rightarrow> rpmHeader \<Rightarrow> int \<Rightarrow> Signature option result" where
  "setupDigester pgp sigh tag =
     (case GetBytes sigh tag of
        Err (NoSuchTagError _) \<Rightarrow> Ok None
      | Err e \<Rightarrow> Err e
      | Panic p \<Rightarrow> Panic p
      | Ok blob \<Rightarrow> rbind (parseSignature pgp blob) (\<lambda>sg. Ok (Some sg)))"

text \<open>The two loops over the signature tags: signatures with hash objects over the header.\<close>

primrec setup_signatures ::
  "crypto_env \<Rightarrow> pgp_env \<Rightarrow> rpmHeader \<Rightarrow> rpmHeader \<Rightarrow> bool \<Rightarrow> int list \<Rightarrow> (Signature \<times> hasher) list result" where
  "setup_signatures env pgp sigh gen headerOnly [] = Ok []"
| "setup_signatures env pgp sigh gen headerOnly (tag # tags) =
     rbind (setupDigester pgp sigh tag) (\<lambda>s.
       case s of
         None \<Rightarrow> setup_signatures env pgp sigh gen headerOnly tags
       | Some sg \<Rightarrow>
           rbind (hash_New env (sig_Hash sg)) (\<lambda>h.
           rbind (setup_signatures env pgp sigh gen headerOnly tags) (\<lambda>rest.
             Ok ((sg\<lparr>HeaderOnly := headerOnly\<rparr>, hash_Write (orig gen) h) # rest))))"

definition getPayloadDigest :: "rpmHeader \<Rightarrow> (string \<times> crypto_hash) result" where
  "getPayloadDigest header =
     (case GetStrings header PAYLOADDIGEST of
        Err _ \<Rightarrow> Ok ('''', 0)
      | Panic p \<Rightarrow> Panic p
      | Ok [] \<Rightarrow> Ok ('''', 0)
      | Ok (dg # _) \<Rightarrow>
          (case GetUint32s header PAYLOADDIGESTALGO of
             Err _ \<Rightarrow> Ok ('''', 0)
           | Panic p \<Rightarrow> Panic p
           | Ok [] \<Rightarrow> Ok ('''', 0)
           | Ok (algo # _) \<Rightarrow>
               (let a = uint algo in
                if a = HASH_MD5 then Ok (dg, crypto_MD5)
                else if a = HASH_SHA1 then Ok (dg, crypto_SHA1)
                else if a = HASH_SHA256 then Ok (dg, crypto_SHA256)
                else if a = HASH_SHA384 then Ok (dg, crypto_SHA384)
                else if a = HASH_SHA512 then Ok (dg, crypto_SHA512)
                else if a = HASH_SHA224 then Ok (dg, crypto_SHA224)
                else Ok ('''', 0))))"

text \<open>\<^verbatim>\<open>io.Copy\<close> to an \<^verbatim>\<open>io.MultiWriter\<close> of hash objects, which take every write.\<close>

definition copy_to_hashes :: "hasher list \<Rightarrow> reader \<Rightarrow> (hasher list \<times> reader) result" where
  "copy_to_hashes ws f =
     (case reader_Copy f of
        ((bs, None), f') \<Rightarrow> Ok (map (hash_Write bs) ws, f')
      | ((_, Some e), _) \<Rightarrow> Err (IOError e))"

definition digestPayload ::
  "crypto_env \<Rightarrow> rpmHeader \<Rightarrow> rpmHeader \<Rightarrow> reader \<Rightarrow> hasher list \<Rightarrow> (hasher list \<times> reader) result" where
  "digestPayload env sigh gen payloadReader payloadWriters =
     rbind (getPayloadDigest gen) (\<lambda>(payloadValue, payloadType).
       if payloadType \<noteq> 0 then
         (if \<not> hash_available env payloadType then Err (UnknownPayloadDigest payloadType)
          else
         rbind (hash_New env payloadType) (\<lambda>payloadHasher.
         rbind (copy_to_hashes (payloadWriters @ [payloadHasher]) payloadReader) (\<lambda>(ws, f').
           if hex_encode (hash_Sum env (last ws)) \<noteq> payloadValue then Err (PayloadDigestMismatch payloadType)
           else Ok (butlast ws, f'))))
       else
      (let sigmd5 = (case GetBytes sigh (SIG_MD5 - SIGHEADER_TAG_BASE) of Ok bs \<Rightarrow> bs | _ \<Rightarrow> []) in
       if sigmd5 \<noteq> [] then
         (let payloadHasher = hash_Write (orig gen) \<lparr>hs_alg = crypto_MD5, hs_data = []\<rparr> in
          rbind (copy_to_hashes (payloadWriters @ [payloadHasher]) payloadReader) (\<lambda>(ws, f').
            if hash_Sum env (last ws) \<noteq> sigmd5 then Err MD5Mismatch
            else Ok (butlast ws, f')))
       else Err NoPayloadDigest))"

definition digestAndVerify ::
  "crypto_env \<Rightarrow> pgp_env \<Rightarrow> rpmHeader \<Rightarrow> rpmHeader \<Rightarrow> reader \<Rightarrow> ((Signature \<times> hasher) list \<times> reader) result" where
  "digestAndVerify env pgp sigh gen payloadReader =
     rbind (setup_signatures env pgp sigh gen True headerSigTags) (\<lambda>hs.
     rbind (setup_signatures env pgp sigh gen False payloadSigTags) (\<lambda>ps.
     rbind (digestPayload env sigh gen payloadReader (map snd ps)) (\<lambda>(ws, f').
       Ok (hs @ zip (map fst ps) ws, f'))))"

primrec validate_all :: "pgp_env \<Rightarrow> EntityList option \<Rightarrow> (Signature \<times> hasher) list \<Rightarrow> Signature list result" where
  "validate_all pgp knownKeys [] = Ok []"
| "validate_all pgp knownKeys (x # xs) =
     rbind (validate pgp knownKeys (fst x) (snd x)) (\<lambda>sg.
     rbind (validate_all pgp knownKeys xs) (\<lambda>sgs. Ok (sg # sgs)))"

definition Verify :: "crypto_env \<Rightarrow> pgp_env \<Rightarrow> EntityList option \<Rightarrow> reader \<Rightarrow> (RpmHeader \<times> Signature list) result" where
  "Verify env pgp knownKeys stream =
     rbind (readSignatureHeader env stream) (\<lambda>(ld, sigh, f1).
     rbind (getHashAndType sigh) (\<lambda>(headerDigestValue, headerDigestType).
     rbind (readHeader env f1 headerDigestValue headerDigestType (isSource sigh) False) (\<lambda>(gen, f2).
     rbind (digestAndVerify env pgp sigh gen f2) (\<lambda>(sigs, _).
     rbind (validate_all pgp knownKeys sigs) (\<lambda>sgs.
       Ok (\<lparr>lead = ld, sigHeader = sigh, genHeader = gen, rpmIsSource = isSource sigh\<rparr>, sgs))))))"

section \<open>What verification establishes\<close>

lemma hasher_simps [simp]:
  "hs_alg (hash_Write bs h) = hs_alg h" "hs_data (hash_Write bs h) = hs_data h @ bs"
  by (simp_all add: hash_Write_def)

lemma hash_New_Ok [result_simps]:
  "hash_New env alg = Ok h \<longleftrightarrow> hash_available env alg \<and> h = \<lparr>hs_alg = alg, hs_data = []\<rparr>"
  by (auto simp: hash_New_def)

lemma copy_to_hashes_Ok [result_simps]:
  "copy_to_hashes ws f = Ok (ws', f') \<longleftrightarrow>
     rd_fin f = EOF \<and> f' = snd (reader_Copy f) \<and> ws' = map (hash_Write (reader_pending f)) ws"
  using reader_Copy_eq [of f] by (cases "reader_Copy f") (auto simp: copy_to_hashes_def split: if_splits)

text \<open>The digest that covers the payload, as data: the one of the general header, else MD5.\<close>

definition payload_digest_ok :: "crypto_env \<Rightarrow> rpmHeader \<Rightarrow> rpmHeader \<Rightarrow> bytes \<Rightarrow> bool" where
  "payload_digest_ok env sigh gen payload \<longleftrightarrow>
     (case getPayloadDigest gen of
        Ok (dg, alg) \<Rightarrow>
          if alg \<noteq> 0 then hash_available env alg \<and> hex_encode (hash_sum env alg payload) = dg
          else (case GetBytes sigh (SIG_MD5 - SIGHEADER_TAG_BASE) of
                  Ok md5 \<Rightarrow> md5 \<noteq> [] \<and> hash_sum env crypto_MD5 (orig gen @ payload) = md5
                | _ \<Rightarrow> False)
      | _ \<Rightarrow> False)"

lemma digestPayload_Ok_iff:
  "digestPayload env sigh gen f ws = Ok (ws', f') \<longleftrightarrow>
     rd_fin f = EOF \<and> f' = snd (reader_Copy f) \<and> ws' = map (hash_Write (reader_pending f)) ws
     \<and> payload_digest_ok env sigh gen (reader_pending f)"
proof (cases "getPayloadDigest gen")
  case (Ok p)
  obtain dg alg where p: "p = (dg, alg)" by (cases p)
  show ?thesis
  proof (cases "alg = 0")
    case False
    then show ?thesis
      using Ok p by (auto simp: digestPayload_def payload_digest_ok_def result_simps hash_Sum_def)
  next
    case True
    then show ?thesis
      using Ok p
      by (auto simp: digestPayload_def payload_digest_ok_def result_simps hash_Sum_def Let_def split: result.splits)
  qed
qed (simp_all add: digestPayload_def payload_digest_ok_def)

text \<open>One signature tag set up: the parsed signature and a hash object over the header.\<close>

definition set_up :: "crypto_env \<Rightarrow> pgp_env \<Rightarrow> rpmHeader \<Rightarrow> rpmHeader \<Rightarrow> bool \<Rightarrow> int \<Rightarrow> Signature \<times> hasher \<Rightarrow> bool" where
  "set_up env pgp sigh gen ho tag x \<longleftrightarrow>
     (\<exists>blob sg. GetBytes sigh tag = Ok blob \<and> parseSignature pgp blob = Ok sg \<and> hash_available env (sig_Hash sg)
        \<and> x = (sg\<lparr>HeaderOnly := ho\<rparr>, \<lparr>hs_alg = sig_Hash sg, hs_data = orig gen\<rparr>))"

lemma setupDigester_cases:
  "setupDigester pgp sigh tag = Ok None \<longleftrightarrow> \<not> HasTag sigh tag"
  "setupDigester pgp sigh tag = Ok (Some sg) \<longleftrightarrow> (\<exists>blob. GetBytes sigh tag = Ok blob \<and> parseSignature pgp blob = Ok sg)"
  by (auto simp: setupDigester_def GetBytes_def HasTag_def result_simps split: option.splits)

lemma set_up_HasTag: "set_up env pgp sigh gen ho tag x \<Longrightarrow> HasTag sigh tag"
  by (auto simp: set_up_def GetBytes_def HasTag_def split: option.splits)

lemma setup_signatures_Ok_iff:
  "setup_signatures env pgp sigh gen ho tags = Ok xs \<longleftrightarrow>
     list_all2 (set_up env pgp sigh gen ho) (filter (HasTag sigh) tags) xs"
proof (induction tags arbitrary: xs)
  case (Cons tag tags)
  show ?case
  proof (cases "HasTag sigh tag")
    case False
    then have "setupDigester pgp sigh tag = Ok None" by (simp add: setupDigester_cases)
    then show ?thesis using Cons.IH False by simp
  next
    case True
    have "setup_signatures env pgp sigh gen ho (tag # tags) = Ok xs \<longleftrightarrow>
        (\<exists>y ys. xs = y # ys \<and> set_up env pgp sigh gen ho tag y \<and> setup_signatures env pgp sigh gen ho tags = Ok ys)"
    proof (cases "setupDigester pgp sigh tag")
      case (Ok s)
      with True obtain sg where s: "setupDigester pgp sigh tag = Ok (Some sg)"
        using setupDigester_cases(1) [of pgp sigh tag] by (cases s) auto
      then have "set_up env pgp sigh gen ho tag y \<longleftrightarrow> hash_available env (sig_Hash sg)
          \<and> y = (sg\<lparr>HeaderOnly := ho\<rparr>, \<lparr>hs_alg = sig_Hash sg, hs_data = orig gen\<rparr>)" for y
        using setupDigester_cases(2) [of pgp sigh tag] by (auto simp: set_up_def)
      then show ?thesis by (auto simp: s result_simps hash_Write_def)
    qed (use setupDigester_cases(2) [of pgp sigh tag] in \<open>auto simp: set_up_def\<close>)
    then show ?thesis using Cons.IH True by (auto simp: list_all2_Cons1)
  qed
qed auto

text \<open>A packet that some known key of the entity has signed.\<close>

definition signed_by :: "pgp_env \<Rightarrow> EntityList \<Rightarrow> Entity \<Rightarrow> packet \<Rightarrow> hasher \<Rightarrow> bool" where
  "signed_by pgp keys entity pkt h \<longleftrightarrow>
     (case pkt of
        PacketSignature s \<Rightarrow> entity \<in> set keys \<and>
          (\<exists>key \<in> insert (PrimaryKey entity) (set (Subkeys entity)).
             CheckKeyIdOrFingerprint pgp s key \<and> VerifySignature pgp key h s = Ok ())
      | PacketSignatureV3 s \<Rightarrow>
          (\<exists>key rest. KeysById pgp keys (p3_IssuerKeyId s) = (entity, Some key) # rest
             \<and> VerifySignatureV3 pgp key h s = Ok ())
      | PacketOther _ \<Rightarrow> False)"

definition accepted_by :: "pgp_env \<Rightarrow> EntityList option \<Rightarrow> hasher \<Rightarrow> Signature \<Rightarrow> bool" where
  "accepted_by pgp knownKeys h sg \<longleftrightarrow>
     (case knownKeys of
        None \<Rightarrow> Signer sg = None
      | Some keys \<Rightarrow> (\<exists>e. Signer sg = Some e \<and> signed_by pgp keys e (sig_packet sg) h))"

lemma findKey_Some:
  "findKey pgp s keys = Some (entity, key) \<Longrightarrow>
     entity \<in> set keys \<and> key \<in> insert (PrimaryKey entity) (set (Subkeys entity)) \<and> CheckKeyIdOrFingerprint pgp s key"
  by (induction keys) (auto simp: find_Some_iff split: if_splits option.splits)

lemma setEntity_simps [simp]:
  "Signer (setEntity sg e) = Some e" "sig_packet (setEntity sg e) = sig_packet sg"
  "HeaderOnly (setEntity sg e) = HeaderOnly sg" "sig_Hash (setEntity sg e) = sig_Hash sg"
  "CreationTime (setEntity sg e) = CreationTime sg"
  by (simp_all add: setEntity_def Let_def split: option.splits)

lemma validate_Ok:
  assumes "validate pgp knownKeys sg h = Ok sg'" "Signer sg = None"
  shows "accepted_by pgp knownKeys h sg' \<and> sig_packet sg' = sig_packet sg
     \<and> HeaderOnly sg' = HeaderOnly sg \<and> sig_Hash sg' = sig_Hash sg"
proof (cases "\<exists>keys s e k. knownKeys = Some keys \<and> sig_packet sg = PacketSignature s \<and> findKey pgp s keys = Some (e, k)")
  case True
  then obtain keys s e k where k: "knownKeys = Some keys" "sig_packet sg = PacketSignature s" "findKey pgp s keys = Some (e, k)"
    by blast
  with assms(1) have v: "VerifySignature pgp k h s = Ok ()" "sg' = setEntity sg e"
    by (auto simp: validate_def result_simps)
  from findKey_Some [OF k(3)] v(1) k(2) have "signed_by pgp keys e (sig_packet sg) h"
    unfolding signed_by_def by auto
  then show ?thesis using k(1) v(2) by (simp add: accepted_by_def)
next
  case False
  then show ?thesis
    using assms
    by (auto simp: validate_def accepted_by_def signed_by_def result_simps split: option.splits packet.splits list.splits)
qed

lemma validate_all_Ok_iff:
  "validate_all pgp knownKeys xs = Ok sgs \<longleftrightarrow>
     list_all2 (\<lambda>x sg. validate pgp knownKeys (fst x) (snd x) = Ok sg) xs sgs"
  by (induction xs arbitrary: sgs) (auto simp: result_simps list_all2_Cons1)

lemma parseSignature_Ok:
  assumes "parseSignature pgp blob = Ok sg"
  shows "packet_Read pgp blob = Ok (sig_packet sg, []) \<and> Signer sg = None"
  using assms
  by (auto simp: parseSignature_def parseSignatureMaybeV3_defs parseSignatureV4_def result_simps
        split: packet.splits if_splits)

text \<open>\<open>Verify\<close> reads the headers like \<open>ReadHeader\<close>.\<close>

lemma Verify_ReadHeader:
  "Verify env pgp knownKeys f =
     rbind (ReadHeader env f) (\<lambda>(hdr, f2).
     rbind (digestAndVerify env pgp (sigHeader hdr) (genHeader hdr) f2) (\<lambda>(sigs, _).
     rbind (validate_all pgp knownKeys sigs) (\<lambda>sgs. Ok (hdr, sgs))))"
  by (simp add: Verify_def ReadHeader_def rbind_assoc split_def)

text \<open>What a signature tag covers, and the signature and hash object \<open>digestAndVerify\<close> makes of it.\<close>

definition signed_bytes :: "rpmHeader \<Rightarrow> bytes \<Rightarrow> int \<Rightarrow> bytes" where
  "signed_bytes gen payload tag = (if tag \<in> set headerSigTags then orig gen else orig gen @ payload)"

definition digested :: "crypto_env \<Rightarrow> pgp_env \<Rightarrow> rpmHeader \<Rightarrow> rpmHeader \<Rightarrow> bytes \<Rightarrow> int \<Rightarrow> Signature \<times> hasher \<Rightarrow> bool" where
  "digested env pgp sigh gen payload tag x \<longleftrightarrow>
     (\<exists>blob sg. GetBytes sigh tag = Ok blob \<and> parseSignature pgp blob = Ok sg \<and> hash_available env (sig_Hash sg)
        \<and> x = (sg\<lparr>HeaderOnly := tag \<in> set headerSigTags\<rparr>,
               \<lparr>hs_alg = sig_Hash sg, hs_data = signed_bytes gen payload tag\<rparr>))"

lemma list_all2_image:
  "list_all2 (\<lambda>a x. \<exists>y. R a y \<and> x = g y) as xs \<longleftrightarrow> (\<exists>ys. list_all2 R as ys \<and> xs = map g ys)"
proof (induction as arbitrary: xs)
  case (Cons a as)
  show ?case by (cases xs) (auto simp: Cons list_all2_Cons1 Cons_eq_map_conv)
qed auto

lemma digested_header:
  "list_all2 (digested env pgp sigh gen payload) (filter P headerSigTags) xs
     \<longleftrightarrow> list_all2 (set_up env pgp sigh gen True) (filter P headerSigTags) xs"
  by (rule list.rel_cong) (auto simp: digested_def set_up_def signed_bytes_def split: if_splits)

lemma digested_payload:
  "list_all2 (digested env pgp sigh gen payload) (filter P payloadSigTags) xs
     \<longleftrightarrow> (\<exists>ys. list_all2 (set_up env pgp sigh gen False) (filter P payloadSigTags) ys
           \<and> xs = map (\<lambda>y. (fst y, hash_Write payload (snd y))) ys)"
  unfolding list_all2_image [symmetric]
  by (rule list.rel_cong) (auto simp: digested_def set_up_def signed_bytes_def hash_Write_def split: if_splits)

lemma digestAndVerify_Ok_iff:
  "digestAndVerify env pgp sigh gen f = Ok (xs, f') \<longleftrightarrow>
     rd_fin f = EOF \<and> f' = snd (reader_Copy f) \<and> payload_digest_ok env sigh gen (reader_pending f)
     \<and> list_all2 (digested env pgp sigh gen (reader_pending f)) (filter (HasTag sigh) (headerSigTags @ payloadSigTags)) xs"
proof -
  let ?p = "reader_pending f"
  have zip: "zip (map fst ps) (map (hash_Write ?p) (map snd ps)) = map (\<lambda>y. (fst y, hash_Write ?p (snd y))) ps"
    for ps :: "(Signature \<times> hasher) list"
    by (induction ps) auto
  have "digestAndVerify env pgp sigh gen f = Ok (xs, f') \<longleftrightarrow>
      (\<exists>hs ps ws. list_all2 (set_up env pgp sigh gen True) (filter (HasTag sigh) headerSigTags) hs
         \<and> list_all2 (set_up env pgp sigh gen False) (filter (HasTag sigh) payloadSigTags) ps
         \<and> digestPayload env sigh gen f (map snd ps) = Ok (ws, f') \<and> xs = hs @ zip (map fst ps) ws)"
    unfolding digestAndVerify_def rbind_eq_Ok_iff setup_signatures_Ok_iff by (auto simp: split_def simp del: filter.simps)
  also have "\<dots> \<longleftrightarrow> rd_fin f = EOF \<and> f' = snd (reader_Copy f) \<and> payload_digest_ok env sigh gen ?p
      \<and> (\<exists>hs qs. list_all2 (digested env pgp sigh gen ?p) (filter (HasTag sigh) headerSigTags) hs
          \<and> list_all2 (digested env pgp sigh gen ?p) (filter (HasTag sigh) payloadSigTags) qs \<and> xs = hs @ qs)"
    unfolding digested_header digested_payload digestPayload_Ok_iff
    by (auto simp: zip simp del: filter.simps map_map)
  also have "(\<exists>hs qs. list_all2 (digested env pgp sigh gen ?p) (filter (HasTag sigh) headerSigTags) hs
          \<and> list_all2 (digested env pgp sigh gen ?p) (filter (HasTag sigh) payloadSigTags) qs \<and> xs = hs @ qs)
      \<longleftrightarrow> list_all2 (digested env pgp sigh gen ?p) (filter (HasTag sigh) (headerSigTags @ payloadSigTags)) xs"
    unfolding filter_append list_all2_append1 by (metis list_all2_lengthD)
  finally show ?thesis .
qed


text \<open>
  C6.  \<open>Verify\<close> accepts exactly the packages that are in order, and returns exactly the signatures
  that are there: the headers can be read and the payload to its end, the digest over the
  payload agrees, and every signature tag that is present is one OpenPGP signature packet with an
  available hash, which \<open>validate\<close> accepts, when keys are given, for the bytes it covers: the
  general header for RSA and DSA, general header and payload for PGP and GPG.  No other
  condition is imposed; in particular a package without signatures is accepted.
\<close>

theorem Verify_accepts_iff:
  "Verify env pgp knownKeys f = Ok (hdr, sgs) \<longleftrightarrow>
     (\<exists>f'. ReadHeader env f = Ok (hdr, f') \<and> rd_fin f' = EOF
        \<and> payload_digest_ok env (sigHeader hdr) (genHeader hdr) (reader_pending f')
        \<and> list_all2 (\<lambda>tag sg. \<exists>blob s. GetBytes (sigHeader hdr) tag = Ok blob \<and> parseSignature pgp blob = Ok s
              \<and> hash_available env (sig_Hash s)
              \<and> validate pgp knownKeys (s\<lparr>HeaderOnly := tag \<in> {SIG_RSA, SIG_DSA}\<rparr>)
                  \<lparr>hs_alg = sig_Hash s,
                   hs_data = orig (genHeader hdr) @ (if tag \<in> {SIG_RSA, SIG_DSA} then [] else reader_pending f')\<rparr> = Ok sg)
            (filter (HasTag (sigHeader hdr))
               [SIG_RSA, SIG_DSA, SIG_PGP - SIGHEADER_TAG_BASE, SIG_GPG - SIGHEADER_TAG_BASE]) sgs)"
proof -
  let ?tags = "filter (HasTag (sigHeader hdr)) (headerSigTags @ payloadSigTags)"
  let ?D = "\<lambda>f'. digested env pgp (sigHeader hdr) (genHeader hdr) (reader_pending f')"
  let ?V = "\<lambda>x sg. validate pgp knownKeys (fst x) (snd x) = Ok sg"
  let ?S = "\<lambda>f' tag sg. \<exists>blob s. GetBytes (sigHeader hdr) tag = Ok blob \<and> parseSignature pgp blob = Ok s
              \<and> hash_available env (sig_Hash s)
              \<and> validate pgp knownKeys (s\<lparr>HeaderOnly := tag \<in> {SIG_RSA, SIG_DSA}\<rparr>)
                  \<lparr>hs_alg = sig_Hash s,
                   hs_data = orig (genHeader hdr) @ (if tag \<in> {SIG_RSA, SIG_DSA} then [] else reader_pending f')\<rparr> = Ok sg"
  have "Verify env pgp knownKeys f = Ok (hdr, sgs) \<longleftrightarrow>
      (\<exists>f' xs. ReadHeader env f = Ok (hdr, f') \<and> rd_fin f' = EOF
         \<and> payload_digest_ok env (sigHeader hdr) (genHeader hdr) (reader_pending f')
         \<and> list_all2 (?D f') ?tags xs \<and> list_all2 ?V xs sgs)"
    unfolding Verify_ReadHeader rbind_eq_Ok_iff
    by (auto simp: result_simps digestAndVerify_Ok_iff validate_all_Ok_iff simp del: filter.simps)
  also have "\<dots> \<longleftrightarrow> (\<exists>f'. ReadHeader env f = Ok (hdr, f') \<and> rd_fin f' = EOF
         \<and> payload_digest_ok env (sigHeader hdr) (genHeader hdr) (reader_pending f')
         \<and> list_all2 (?D f' OO ?V) ?tags sgs)"
    by (auto simp: list.rel_compp relcompp_apply simp del: filter.simps)
  moreover have "?D f' OO ?V = ?S f'" for f'
  proof (intro ext)
    show "(?D f' OO ?V) tag sg = ?S f' tag sg" for tag sg
      unfolding relcompp_apply digested_def signed_bytes_def by (cases "tag \<in> set headerSigTags") auto
  qed
  ultimately show ?thesis unfolding append_Cons append_Nil by simp
qed

text \<open>
  A signed package for the examples, with a toy signature scheme: a packet is a key number,
  a hash algorithm and the digest masked with the key number.
\<close>

definition sample_pgp :: pgp_env where
  "sample_pgp =
     \<lparr>build_pgp3 = False,
      packet_Read = (\<lambda>bs. case bs of
          k # a # x # y # rest \<Rightarrow>
            Ok (PacketSignature \<lparr>ps_CreationTime = 0, ps_PubKeyAlgo = 1, ps_Hash = unat a,
                  ps_IssuerKeyId = Some (ucast k), ps_IssuerFingerprint = None, ps_body = [x, y]\<rparr>, rest)
        | _ \<Rightarrow> Err (PGPError 1)),
      CheckKeyIdOrFingerprint = (\<lambda>s k. case ps_IssuerFingerprint s of
          Some fp \<Rightarrow> fp = pk_Fingerprint k
        | None \<Rightarrow> ps_IssuerKeyId s = Some (pk_KeyId k)),
      VerifySignature = (\<lambda>k h s. if ps_body s = map ((XOR) (ucast (pk_KeyId k))) (hash_Sum sample_env h)
                                 then Ok () else Err (PGPError 2)),
      VerifySignatureV3 = (\<lambda>_ _ _. Err (PGPError 3)),
      KeysById = (\<lambda>_ _. []),
      sig_Sign = (\<lambda>s h k. Ok (s\<lparr>ps_body := map ((XOR) (ucast (pk_KeyId (sk_PublicKey k)))) (hash_Sum sample_env h)\<rparr>)),
      sig_Serialize = (\<lambda>s. case ps_IssuerKeyId s of
          Some k \<Rightarrow> Ok (ucast k # word_of_nat (ps_Hash s) # ps_body s)
        | None \<Rightarrow> Err (PGPError 4))\<rparr>"

definition sample_key :: public_key where
  "sample_key = \<lparr>pk_KeyId = 7, pk_Fingerprint = [7], pk_PubKeyAlgo = 1\<rparr>"

definition sample_entity :: Entity where
  "sample_entity = \<lparr>PrimaryKey = sample_key, Subkeys = [], PrimaryIdentity = Some ''packager''\<rparr>"

definition signed_sig_area :: bytes where
  "signed_sig_area =
     [0x8e, 0xad, 0xe8, 0x01, 0, 0, 0, 0, 0, 0, 0, 4, 0, 0, 0, 15,
      0, 0, 1, 12, 0, 0, 0, 7, 0, 0, 0, 0, 0, 0, 0, 4,
      0, 0, 1, 17, 0, 0, 0, 6, 0, 0, 0, 4, 0, 0, 0, 1,
      0, 0, 3, 0xea, 0, 0, 0, 7, 0, 0, 0, 9, 0, 0, 0, 4,
      0, 0, 3, 0xec, 0, 0, 0, 7, 0, 0, 0, 13, 0, 0, 0, 2,
      7, 5, 0x93, 0x3b, 0x39, 0x34, 0x33, 0x63, 0, 7, 5, 0x93, 0x38, 0x93, 0x3f, 0]"

definition signed_rpm :: reader where
  "signed_rpm = reader_of (sample_lead @ signed_sig_area @ sample_area @ [1, 2, 3])"

definition signed_rpm_header :: RpmHeader where
  "signed_rpm_header = \<lparr>lead = sample_lead,
     sigHeader = \<lparr>entries =
        [(268, \<lparr>dataType = 7, ecount = 4, contents = [7, 5, 0x93, 0x3b]\<rparr>),
         (273, \<lparr>dataType = 6, ecount = 1, contents = [0x39, 0x34, 0x33, 0x63, 0]\<rparr>),
         (1002, \<lparr>dataType = 7, ecount = 4, contents = [7, 5, 0x93, 0x38]\<rparr>),
         (1004, \<lparr>dataType = 7, ecount = 2, contents = [0x93, 0x3f]\<rparr>)],
       isSource = False, orig = signed_sig_area\<rparr>,
     genHeader = sample_header, rpmIsSource = False\<rparr>"

lemma signed_rpm_ReadHeader: "ReadHeader sample_env signed_rpm = Ok (signed_rpm_header, reader_of [1, 2, 3])"
  by code_simp

lemma signed_rpm_Verify:
  "\<exists>sgs. Verify sample_env sample_pgp (Some [sample_entity]) signed_rpm = Ok (signed_rpm_header, sgs) \<and> length sgs = 2"
proof -
  let ?h = "sigHeader signed_rpm_header" and ?g = "genHeader signed_rpm_header"
  obtain s1 where s1: "parseSignature sample_pgp [7, 5, 0x93, 0x3b] = Ok s1" "sig_Hash s1 = 5"
      "sig_packet s1 = PacketSignature \<lparr>ps_CreationTime = 0, ps_PubKeyAlgo = 1, ps_Hash = 5,
         ps_IssuerKeyId = Some 7, ps_IssuerFingerprint = None, ps_body = [0x93, 0x3b]\<rparr>"
    by (simp add: parseSignature_def sample_pgp_def parseSignatureMaybeV3_defs parseSignatureV4_def)
  obtain s2 where s2: "parseSignature sample_pgp [7, 5, 0x93, 0x38] = Ok s2" "sig_Hash s2 = 5"
      "sig_packet s2 = PacketSignature \<lparr>ps_CreationTime = 0, ps_PubKeyAlgo = 1, ps_Hash = 5,
         ps_IssuerKeyId = Some 7, ps_IssuerFingerprint = None, ps_body = [0x93, 0x38]\<rparr>"
    by (simp add: parseSignature_def sample_pgp_def parseSignatureMaybeV3_defs parseSignatureV4_def)
  let ?x1 = "(s1\<lparr>HeaderOnly := True\<rparr>, \<lparr>hs_alg = 5, hs_data = sample_area\<rparr>)"
  let ?x2 = "(s2\<lparr>HeaderOnly := False\<rparr>, \<lparr>hs_alg = 5, hs_data = sample_area @ [1, 2, 3]\<rparr>)"
  have bytes: "GetBytes ?h 268 = Ok [7, 5, 0x93, 0x3b]" "GetBytes ?h 1002 = Ok [7, 5, 0x93, 0x38]"
      "HasTag ?h 268" "\<not> HasTag ?h 267" "HasTag ?h 1002" "\<not> HasTag ?h 1005" "orig ?g = sample_area"
    by code_simp+
  have "digested sample_env sample_pgp ?h ?g [1, 2, 3] 268 ?x1" "digested sample_env sample_pgp ?h ?g [1, 2, 3] 1002 ?x2"
    using s1(1,2) s2(1,2) by (simp_all add: digested_def bytes signed_bytes_def) (simp_all add: sample_env_def)
  moreover have "payload_digest_ok sample_env ?h ?g [1, 2, 3]" by code_simp
  ultimately have d: "digestAndVerify sample_env sample_pgp ?h ?g (reader_of [1, 2, 3])
      = Ok ([?x1, ?x2], snd (reader_Copy (reader_of [1, 2, 3])))"
    by (simp add: digestAndVerify_Ok_iff bytes)
  have sums: "hash_Sum sample_env \<lparr>hs_alg = 5, hs_data = sample_area\<rparr> = [0x94, 0x3c]"
      "hash_Sum sample_env \<lparr>hs_alg = 5, hs_data = sample_area @ [1, 2, 3]\<rparr> = [0x94, 0x3f]"
    by code_simp+
  have "\<exists>sgs. validate_all sample_pgp (Some [sample_entity]) [?x1, ?x2] = Ok sgs \<and> length sgs = 2"
    using s1(3) s2(3)
    by (simp add: validate_def sample_pgp_def sample_entity_def sample_key_def sums)
  then show ?thesis by (auto simp: Verify_ReadHeader signed_rpm_ReadHeader d)
qed


end
