(* ===== verification/Go_OS.thy ===== *)
theory Go_OS
  imports Go_IO
begin

text \<open>
  The part of Go's \<^verbatim>\<open>os\<close> package that rewriting a package file uses: names and the files
  behind them, opening, creating, writing and renaming, and \<^verbatim>\<open>io.Copy\<close> into any writer.

  Which system calls fail is a parameter: a function of the state and the call.
\<close>

section \<open>Writers\<close>

text \<open>A writer that accepts every \<^verbatim>\<open>Write\<close> and keeps account of what it got.\<close>

locale total_writer =
  fixes wr :: "'w \<Rightarrow> bytes \<Rightarrow> io_err option \<times> 'w"
    and upd :: "'w \<Rightarrow> bytes \<Rightarrow> 'w"
  assumes upd_Nil: "upd w [] = w"
    and upd_append: "upd w (xs @ ys) = upd (upd w xs) ys"
    and write_upd: "wr w bs = (None, upd w bs)"

definition reader_CopyTo :: "'w write_op \<Rightarrow> reader \<Rightarrow> 'w \<Rightarrow> io_err option \<times> 'w" where
  "reader_CopyTo write r w =
     (case CopyTo reader_Read write 32768 (Suc (reader_steps r)) r w of (e, _, w') \<Rightarrow> (e, w'))"

context total_writer
begin

lemma foldl_upd: "foldl upd w cs = upd w (concat cs)"
  by (induction cs arbitrary: w) (simp_all add: upd_Nil upd_append)

lemma CopyTo_upd:
  assumes "reader_steps r < fuel" "0 < bufsize"
  shows "\<exists>r'. CopyTo reader_Read wr bufsize fuel r w =
     (if rd_fin r = EOF then None else Some (rd_fin r), r', upd w (reader_pending r))"
  using rd.CopyTo_pieces [OF TrueI assms, of wr w] by (auto simp: write_upd foldl_upd)

lemma reader_CopyTo_upd:
  "reader_CopyTo wr r w = (if rd_fin r = EOF then None else Some (rd_fin r), upd w (reader_pending r))"
  using CopyTo_upd [of r "Suc (reader_steps r)" 32768 w] by (auto simp: reader_CopyTo_def simp del: CopyTo.simps)

end

section \<open>Files\<close>

text \<open>
  What \<^verbatim>\<open>os.FileInfo.Sys()\<close> holds: the library fills in \<^verbatim>\<open>*syscall.Stat_t\<close>; the type
  \<^verbatim>\<open>*unix.Stat_t\<close> of \<^verbatim>\<open>golang.org/x/sys\<close> is another one.  Both carry the link count.
\<close>

datatype sys_stat = SyscallStat nat | UnixStat nat | OtherStat

record FileInfo =
  info_regular :: bool
  info_ino :: nat
  info_Sys :: sys_stat

record inode =
  ino_regular :: bool
  ino_nlink :: nat
  ino_data :: bytes

text \<open>Directory entries, the files behind them, the offsets of open files, and standard output.\<close>

record os_state =
  os_dir :: "string \<Rightarrow> nat option"
  os_inodes :: "nat \<Rightarrow> inode"
  os_next :: nat
  os_pos :: "nat \<Rightarrow> nat"
  os_stdout :: bytes

datatype os_op =
    OpFstat nat | OpLstat string | OpOpen string | OpCreate string | OpCreateTemp string string
  | OpWrite nat bytes | OpWriteStdout bytes | OpChmod nat | OpClose nat | OpRename string string | OpRemove string

record os_env =
  os_fault :: "os_state \<Rightarrow> os_op \<Rightarrow> os_err option"
  os_temp_name :: "os_state \<Rightarrow> string \<Rightarrow> string \<Rightarrow> string"

definition os_call :: "os_env \<Rightarrow> os_op \<Rightarrow> (os_state \<Rightarrow> 'a result \<times> os_state) \<Rightarrow> os_state \<Rightarrow> 'a result \<times> os_state" where
  "os_call os op f st = (case os_fault os st op of Some e \<Rightarrow> (Err (IOError (ErrOS e)), st) | None \<Rightarrow> f st)"

definition info_of :: "os_state \<Rightarrow> nat \<Rightarrow> FileInfo" where
  "info_of st i = \<lparr>info_regular = ino_regular (os_inodes st i), info_ino = i,
                   info_Sys = SyscallStat (ino_nlink (os_inodes st i))\<rparr>"

definition os_Fstat :: "os_env \<Rightarrow> nat \<Rightarrow> os_state \<Rightarrow> FileInfo result \<times> os_state" where
  "os_Fstat os i = os_call os (OpFstat i) (\<lambda>st. (Ok (info_of st i), st))"

definition os_Lstat :: "os_env \<Rightarrow> string \<Rightarrow> os_state \<Rightarrow> FileInfo result \<times> os_state" where
  "os_Lstat os p = os_call os (OpLstat p) (\<lambda>st.
     case os_dir st p of
       None \<Rightarrow> (Err (IOError (ErrOS ErrNotExist)), st)
     | Some i \<Rightarrow> (Ok (info_of st i), st))"

text \<open>\<^verbatim>\<open>os.OpenFile\<close> with \<^verbatim>\<open>O_RDWR\<close>, \<^verbatim>\<open>os.Create\<close> and \<^verbatim>\<open>os.CreateTemp\<close>: the file they open.\<close>

definition os_OpenFile :: "os_env \<Rightarrow> string \<Rightarrow> os_state \<Rightarrow> nat result \<times> os_state" where
  "os_OpenFile os p = os_call os (OpOpen p) (\<lambda>st.
     case os_dir st p of
       None \<Rightarrow> (Err (IOError (ErrOS ErrNotExist)), st)
     | Some i \<Rightarrow> (Ok i, st\<lparr>os_pos := (os_pos st)(i := 0)\<rparr>))"

definition new_file :: "string \<Rightarrow> os_state \<Rightarrow> os_state" where
  "new_file p st =
     st\<lparr>os_dir := (os_dir st)(p \<mapsto> os_next st),
        os_inodes := (os_inodes st)(os_next st := \<lparr>ino_regular = True, ino_nlink = 1, ino_data = []\<rparr>),
        os_pos := (os_pos st)(os_next st := 0), os_next := Suc (os_next st)\<rparr>"

definition os_Create :: "os_env \<Rightarrow> string \<Rightarrow> os_state \<Rightarrow> nat result \<times> os_state" where
  "os_Create os p = os_call os (OpCreate p) (\<lambda>st.
     case os_dir st p of
       None \<Rightarrow> (Ok (os_next st), new_file p st)
     | Some i \<Rightarrow> (Ok i, st\<lparr>os_inodes := (os_inodes st)(i := (os_inodes st i)\<lparr>ino_data := []\<rparr>),
                            os_pos := (os_pos st)(i := 0)\<rparr>))"

definition os_CreateTemp :: "os_env \<Rightarrow> string \<Rightarrow> string \<Rightarrow> os_state \<Rightarrow> (string \<times> nat) result \<times> os_state" where
  "os_CreateTemp os dir pattern = os_call os (OpCreateTemp dir pattern) (\<lambda>st.
     let nm = os_temp_name os st dir pattern in
     if os_dir st nm \<noteq> None then (Err (IOError (ErrOS ErrExist)), st)
     else (Ok (nm, os_next st), new_file nm st))"

text \<open>A write at an offset; a gap behind the end of the file is filled with zeros.\<close>

definition write_at :: "nat \<Rightarrow> bytes \<Rightarrow> bytes \<Rightarrow> bytes" where
  "write_at n bs old = take n (old @ replicate (n - length old) 0) @ bs @ drop (n + length bs) old"

definition put_bytes :: "nat \<Rightarrow> os_state \<Rightarrow> bytes \<Rightarrow> os_state" where
  "put_bytes i st bs =
     (if bs = [] then st else
     st\<lparr>os_inodes := (os_inodes st)(i := (os_inodes st i)\<lparr>ino_data := write_at (os_pos st i) bs (ino_data (os_inodes st i))\<rparr>),
        os_pos := (os_pos st)(i := os_pos st i + length bs)\<rparr>)"

definition file_Write :: "os_env \<Rightarrow> nat \<Rightarrow> os_state write_op" where
  "file_Write os i st bs =
     (case os_fault os st (OpWrite i bs) of
        Some e \<Rightarrow> (Some (ErrOS e), st)
      | None \<Rightarrow> (None, put_bytes i st bs))"

definition stdout_Write :: "os_env \<Rightarrow> os_state write_op" where
  "stdout_Write os st bs =
     (case os_fault os st (OpWriteStdout bs) of
        Some e \<Rightarrow> (Some (ErrOS e), st)
      | None \<Rightarrow> (None, st\<lparr>os_stdout := os_stdout st @ bs\<rparr>))"

text \<open>Changing permissions and closing a file leave its contents alone.\<close>

definition os_Chmod :: "os_env \<Rightarrow> nat \<Rightarrow> os_state \<Rightarrow> unit result \<times> os_state" where
  "os_Chmod os i = os_call os (OpChmod i) (\<lambda>st. (Ok (), st))"

definition os_Close :: "os_env \<Rightarrow> nat \<Rightarrow> os_state \<Rightarrow> unit result \<times> os_state" where
  "os_Close os i = os_call os (OpClose i) (\<lambda>st. (Ok (), st))"

definition os_Rename :: "os_env \<Rightarrow> string \<Rightarrow> string \<Rightarrow> os_state \<Rightarrow> unit result \<times> os_state" where
  "os_Rename os a b = os_call os (OpRename a b) (\<lambda>st.
     case os_dir st a of
       None \<Rightarrow> (Err (IOError (ErrOS ErrNotExist)), st)
     | Some i \<Rightarrow> (Ok (), st\<lparr>os_dir := (os_dir st)(a := None, b := Some i)\<rparr>))"

definition os_Remove :: "os_env \<Rightarrow> string \<Rightarrow> os_state \<Rightarrow> unit result \<times> os_state" where
  "os_Remove os p = os_call os (OpRemove p) (\<lambda>st.
     case os_dir st p of
       None \<Rightarrow> (Err (IOError (ErrOS ErrNotExist)), st)
     | Some _ \<Rightarrow> (Ok (), st\<lparr>os_dir := (os_dir st)(p := None)\<rparr>))"

definition file_data :: "os_state \<Rightarrow> string \<Rightarrow> bytes option" where
  "file_data st p = map_option (\<lambda>i. ino_data (os_inodes st i)) (os_dir st p)"

section \<open>A system on which every call succeeds\<close>

definition os_ok :: "(os_state \<Rightarrow> string \<Rightarrow> string \<Rightarrow> string) \<Rightarrow> os_env" where
  "os_ok nm = \<lparr>os_fault = (\<lambda>st op. None), os_temp_name = nm\<rparr>"

lemma os_ok_simps [simp]: "os_fault (os_ok nm) st op = None" "os_temp_name (os_ok nm) = nm"
  by (simp_all add: os_ok_def)

lemma os_call_ok [simp]: "os_call (os_ok nm) op f st = f st"
  by (simp add: os_call_def)

lemma write_at_append: "write_at n (xs @ ys) old = write_at (n + length xs) ys (write_at n xs old)"
proof -
  let ?old = "take n (old @ replicate (n - length old) 0)"
  have len: "length ?old = n" by simp
  have eq: "write_at n xs old = ?old @ xs @ drop (n + length xs) old" by (simp add: write_at_def)
  have "drop (n + length xs + length ys) (?old @ xs @ drop (n + length xs) old) = drop (n + length xs + length ys) old"
    unfolding drop_append len by (simp add: add.commute)
  moreover have "take (n + length xs) ((?old @ xs @ drop (n + length xs) old) @ zs) = ?old @ xs" for zs
    unfolding append_assoc take_append len by simp
  ultimately show ?thesis
    unfolding write_at_def [of "n + length xs"] eq by (simp only: write_at_def length_append append_assoc add.assoc)
qed

lemma put_bytes_append: "put_bytes i st (xs @ ys) = put_bytes i (put_bytes i st xs) ys"
  by (cases "xs = []"; cases "ys = []") (simp_all add: put_bytes_def write_at_append add.assoc)

interpretation fw: total_writer "file_Write (os_ok nm) i" "put_bytes i" for nm i
  by unfold_locales (simp_all add: file_Write_def put_bytes_append, simp add: put_bytes_def)

interpretation ow: total_writer "stdout_Write (os_ok nm)" "\<lambda>st bs. st\<lparr>os_stdout := os_stdout st @ bs\<rparr>" for nm
  by unfold_locales (simp_all add: stdout_Write_def)

text \<open>What a sequence of writes from the start of a file leaves in it.\<close>

lemma put_bytes_simps [simp]:
  "os_dir (put_bytes i st bs) = os_dir st" "os_next (put_bytes i st bs) = os_next st"
  "os_stdout (put_bytes i st bs) = os_stdout st"
  "j \<noteq> i \<Longrightarrow> os_inodes (put_bytes i st bs) j = os_inodes st j"
  by (simp_all add: put_bytes_def)

lemma put_bytes_data:
  "os_pos st i = 0 \<Longrightarrow> ino_data (os_inodes (put_bytes i st bs) i) = bs @ drop (length bs) (ino_data (os_inodes st i))"
  by (simp add: put_bytes_def write_at_def)

end
