(* ===== verification/WriteHeader.thy ===== *)
theory WriteHeader
  imports Rpmutils Go_OS
begin

text \<open>
  \<^verbatim>\<open>writeheader.go\<close>: serialisation of a header (\<open>WriteTo\<close>) and of the lead with the
  signature header (\<open>DumpSignatureHeader\<close>).  A writer is any state with a \<^verbatim>\<open>Write\<close>
  operation; a \<^verbatim>\<open>bytes.Buffer\<close> and the \<open>byteCountSink\<close> of the source are the two the
  functions of this file use.
\<close>

section \<open>Writers\<close>

definition buffer_Write :: "bytes \<Rightarrow> bytes \<Rightarrow> io_err option \<times> bytes" where
  "buffer_Write b data = (None, b @ data)"

definition byteCountSink_Write :: "64 word \<Rightarrow> bytes \<Rightarrow> io_err option \<times> 64 word" where
  "byteCountSink_Write sink data = (None, sink + word_of_nat (length data))"

text \<open>\<^verbatim>\<open>io.Copy\<close> from a \<^verbatim>\<open>bytes.Buffer\<close>: one \<^verbatim>\<open>Write\<close>, unless the buffer is empty.\<close>

definition copy_buffer :: "'w write_op \<Rightarrow> 'w \<Rightarrow> bytes \<Rightarrow> io_err option \<times> 'w" where
  "copy_buffer write w b = (if b = [] then (None, w) else write w b)"

section \<open>Tags\<close>

definition encode_int32 :: "int \<Rightarrow> bytes" where
  "encode_int32 x = be_encode 4 (word_of_int x :: 32 word)"

definition encode_tag :: "headerTag \<Rightarrow> bytes" where
  "encode_tag t =
     encode_int32 (ht_Tag t) @ encode_int32 (ht_DataType t) @ encode_int32 (ht_Offset t)
     @ encode_int32 (ht_Count t)"

definition encode_intro :: "headerIntro \<Rightarrow> bytes" where
  "encode_intro i =
     be_encode 4 (hi_Magic i) @ be_encode 4 (hi_Reserved i) @ be_encode 4 (hi_Entries i)
     @ be_encode 4 (hi_Size i)"

definition align_blobs :: "int \<Rightarrow> bytes \<Rightarrow> bytes" where
  "align_blobs dt blobs =
     (case typeAlign dt of
        None \<Rightarrow> blobs
      | Some align \<Rightarrow>
          let n = length blobs mod align in
          if n \<noteq> 0 then blobs @ replicate (align - n) 0 else blobs)"

definition writeTag :: "'w write_op \<Rightarrow> 'w \<Rightarrow> bytes \<Rightarrow> int \<Rightarrow> entry \<Rightarrow> io_err option \<times> 'w \<times> bytes" where
  "writeTag write ents blobs tag e =
     (let blobs1 = align_blobs (dataType e) blobs;
          ht = \<lparr>ht_Tag = to_int32 tag, ht_DataType = dataType e,
                ht_Offset = to_int32 (int (length blobs1)), ht_Count = ecount e\<rparr> in
      case write ents (encode_tag ht) of
        (Some err, ents1) \<Rightarrow> (Some err, ents1, blobs1)
      | (None, ents1) \<Rightarrow> (None, ents1, blobs1 @ contents e))"

definition writeRegion :: "'w write_op \<Rightarrow> 'w \<Rightarrow> bytes \<Rightarrow> int \<Rightarrow> nat \<Rightarrow> io_err option \<times> 'w \<times> bytes" where
  "writeRegion write ents blobs regionTag tagCount =
     (let regionValue = \<lparr>ht_Tag = to_int32 regionTag, ht_DataType = RPM_BIN_TYPE,
                         ht_Offset = to_int32 (-16 * (1 + int tagCount)), ht_Count = 16\<rparr>;
          regionEntry = \<lparr>dataType = RPM_BIN_TYPE, ecount = 16, contents = encode_tag regionValue\<rparr> in
      writeTag write ents blobs regionTag regionEntry)"

section \<open>Headers\<close>

definition zero_entry :: entry where
  "zero_entry = \<lparr>dataType = 0, ecount = 0, contents = []\<rparr>"

definition entry_at :: "rpmHeader \<Rightarrow> int \<Rightarrow> entry" where
  "entry_at hdr k = (case get_entry hdr k of Some e \<Rightarrow> e | None \<Rightarrow> zero_entry)"

definition sorted_keys :: "rpmHeader \<Rightarrow> int list" where
  "sorted_keys hdr = sort (filter (\<lambda>k. \<not> k < RPMTAG_HEADERREGIONS) (map fst (entries hdr)))"

primrec writeTags :: "rpmHeader \<Rightarrow> int \<Rightarrow> int list \<Rightarrow> bytes \<Rightarrow> bytes \<Rightarrow> io_err option \<times> bytes \<times> bytes" where
  "writeTags hdr regionTag [] ents blobs = (None, ents, blobs)"
| "writeTags hdr regionTag (k # ks) ents blobs =
     (if k = regionTag then writeTags hdr regionTag ks ents blobs
      else case writeTag buffer_Write ents blobs k (entry_at hdr k) of
             (Some err, ents1, blobs1) \<Rightarrow> (Some err, ents1, blobs1)
           | (None, ents1, blobs1) \<Rightarrow> writeTags hdr regionTag ks ents1 blobs1)"

definition WriteTo :: "'w write_op \<Rightarrow> rpmHeader \<Rightarrow> 'w \<Rightarrow> int \<Rightarrow> unit result \<times> 'w" where
  "WriteTo write hdr outfile regionTag =
     (if regionTag \<noteq> 0 \<and> RPMTAG_HEADERREGIONS \<le> regionTag then (Err InvalidRegionTag, outfile)
      else
     (let keys = sorted_keys hdr in
      case writeTags hdr regionTag keys [] [] of
        (Some err, _, _) \<Rightarrow> (Err (IOError err), outfile)
      | (None, ents, blobs) \<Rightarrow>
     (case write outfile (encode_intro
             \<lparr>hi_Magic = introMagic, hi_Reserved = 0, hi_Entries = word_of_nat (length keys + 1),
              hi_Size = word_of_nat (length blobs + 16)\<rparr>) of
        (Some err, w1) \<Rightarrow> (Err (IOError err), w1)
      | (None, w1) \<Rightarrow>
     (case writeRegion write w1 blobs regionTag (length keys) of
        (Some err, w2, _) \<Rightarrow> (Err (IOError err), w2)
      | (None, w2, blobs2) \<Rightarrow>
     (let totalSize = 96 + length blobs2 + length ents in
      case copy_buffer write w2 ents of
        (Some err, w3) \<Rightarrow> (Err (IOError err), w3)
      | (None, w3) \<Rightarrow>
     (case copy_buffer write w3 blobs2 of
        (Some err, w4) \<Rightarrow> (Err (IOError err), w4)
      | (None, w4) \<Rightarrow>
          if regionTag = RPMTAG_HEADERSIGNATURES \<and> totalSize mod 8 \<noteq> 0
          then (case write w4 (replicate (8 - totalSize mod 8) 0) of
                  (Some err, w5) \<Rightarrow> (Err (IOError err), w5)
                | (None, w5) \<Rightarrow> (Ok (), w5))
          else (Ok (), w4)))))))"

definition header_size :: "rpmHeader \<Rightarrow> int \<Rightarrow> 64 word result" where
  "header_size hdr regionTag =
     (case WriteTo byteCountSink_Write hdr 0 regionTag of
        (r, sink) \<Rightarrow> rbind r (\<lambda>_. Ok sink))"

section \<open>The lead and the signature header\<close>

definition OriginalSignatureHeaderSize :: "RpmHeader \<Rightarrow> int" where
  "OriginalSignatureHeaderSize hdr = int (length (orig (sigHeader hdr))) + 96"

abbreviation (input) "RESERVED_TAG \<equiv> SIG_RESERVEDSPACE - SIGHEADER_TAG_BASE"

definition delete_tag :: "rpmHeader \<Rightarrow> int \<Rightarrow> rpmHeader" where
  "delete_tag hdr tag = hdr\<lparr>entries := AList.delete tag (entries hdr)\<rparr>"

definition set_tag :: "rpmHeader \<Rightarrow> int \<Rightarrow> entry \<Rightarrow> rpmHeader" where
  "set_tag hdr tag e = hdr\<lparr>entries := AList.update tag e (entries hdr)\<rparr>"

text \<open>The signature header is changed in place: the updated header is returned too.\<close>

definition reserve_space :: "rpmHeader \<Rightarrow> int \<Rightarrow> rpmHeader result" where
  "reserve_space sigh regionTag =
     rbind (header_size sigh regionTag) (\<lambda>needed.
       let available = word_of_nat (length (orig sigh)) :: 64 word in
       if needed + 16 \<le> available
       then let padding = replicate (unat (available - needed - 16)) 0 in
            Ok (set_tag sigh RESERVED_TAG
                  \<lparr>dataType = RPM_BIN_TYPE, ecount = to_int32 (int (length padding)), contents = padding\<rparr>)
       else Ok sigh)"

definition DumpSignatureHeader :: "RpmHeader \<Rightarrow> bool \<Rightarrow> (bytes \<times> RpmHeader) result" where
  "DumpSignatureHeader hdr sameSize =
     (if length (lead hdr) \<noteq> 96 then Err InvalidLead
      else
     (let regionTag = RPMTAG_HEADERSIGNATURES; sigh = delete_tag (sigHeader hdr) RESERVED_TAG in
      rbind (if sameSize then reserve_space sigh regionTag else Ok sigh) (\<lambda>sigh1.
        case WriteTo buffer_Write sigh1 (lead hdr) regionTag of
          (r, buf) \<Rightarrow> rbind r (\<lambda>_. Ok (buf, hdr\<lparr>sigHeader := sigh1\<rparr>)))))"

section \<open>The bytes that are written\<close>

definition region_value :: "int \<Rightarrow> nat \<Rightarrow> bytes" where
  "region_value regionTag n =
     encode_tag \<lparr>ht_Tag = to_int32 regionTag, ht_DataType = RPM_BIN_TYPE,
                 ht_Offset = to_int32 (-16 * (1 + int n)), ht_Count = 16\<rparr>"

definition region_entry :: "int \<Rightarrow> nat \<Rightarrow> entry" where
  "region_entry regionTag n = \<lparr>dataType = RPM_BIN_TYPE, ecount = 16, contents = region_value regionTag n\<rparr>"

text \<open>The entry table and the data area, tag by tag.\<close>

primrec lay_tags :: "rpmHeader \<Rightarrow> int list \<Rightarrow> bytes \<Rightarrow> headerTag list" where
  "lay_tags hdr [] blobs = []"
| "lay_tags hdr (k # ks) blobs =
     (let e = entry_at hdr k; blobs1 = align_blobs (dataType e) blobs in
      \<lparr>ht_Tag = to_int32 k, ht_DataType = dataType e, ht_Offset = to_int32 (int (length blobs1)),
       ht_Count = ecount e\<rparr> # lay_tags hdr ks (blobs1 @ contents e))"

primrec lay_blobs :: "rpmHeader \<Rightarrow> int list \<Rightarrow> bytes \<Rightarrow> bytes" where
  "lay_blobs hdr [] blobs = blobs"
| "lay_blobs hdr (k # ks) blobs =
     lay_blobs hdr ks (align_blobs (dataType (entry_at hdr k)) blobs @ contents (entry_at hdr k))"

definition header_padding :: "int \<Rightarrow> nat \<Rightarrow> bytes" where
  "header_padding regionTag n =
     (if regionTag = RPMTAG_HEADERSIGNATURES \<and> n mod 8 \<noteq> 0 then replicate (8 - n mod 8) 0 else [])"

definition header_bytes :: "rpmHeader \<Rightarrow> int \<Rightarrow> bytes" where
  "header_bytes hdr regionTag =
     (let keys = sorted_keys hdr; n = length keys; blobs = lay_blobs hdr keys []; m = length blobs in
      encode_intro \<lparr>hi_Magic = introMagic, hi_Reserved = 0, hi_Entries = word_of_nat (n + 1),
                    hi_Size = word_of_nat (m + 16)\<rparr>
      @ encode_tag \<lparr>ht_Tag = to_int32 regionTag, ht_DataType = RPM_BIN_TYPE,
                    ht_Offset = to_int32 (int m), ht_Count = 16\<rparr>
      @ concat (map encode_tag (lay_tags hdr keys []))
      @ blobs @ region_value regionTag n @ header_padding regionTag m)"

lemma length_encode_tag [simp]: "length (encode_tag t) = 16"
  by (simp add: encode_tag_def encode_int32_def)

lemma length_encode_intro [simp]: "length (encode_intro i) = 16"
  by (simp add: encode_intro_def)

lemma length_region_value [simp]: "length (region_value t n) = 16"
  by (simp add: region_value_def)

lemma length_lay_tags [simp]: "length (lay_tags hdr ks blobs) = length ks"
  by (induction ks arbitrary: blobs) (auto simp: Let_def)

lemma length_tag_table [simp]: "length (concat (map encode_tag ts)) = 16 * length ts"
  by (induction ts) auto

lemma writeTags_lay:
  "regionTag \<notin> set ks \<Longrightarrow>
     writeTags hdr regionTag ks ents blobs =
       (None, ents @ concat (map encode_tag (lay_tags hdr ks blobs)), lay_blobs hdr ks blobs)"
  by (induction ks arbitrary: ents blobs) (auto simp: writeTag_def buffer_Write_def Let_def)

lemma sorted_keys_no_region:
  "regionTag = 0 \<or> regionTag < RPMTAG_HEADERREGIONS \<Longrightarrow> regionTag \<notin> set (sorted_keys hdr)"
  by (auto simp: sorted_keys_def)

lemma header_padding_total:
  "header_padding regionTag m =
     (if regionTag = RPMTAG_HEADERSIGNATURES \<and> (96 + (m + 16) + 16 * n) mod 8 \<noteq> 0
      then replicate (8 - (96 + (m + 16) + 16 * n) mod 8) 0 else [])"
proof -
  have "(96 + (m + 16) + 16 * n) mod 8 = m mod 8"
    using mod_mult_self1 [of m "14 + 2 * n" 8] by (simp add: algebra_simps)
  then show ?thesis by (simp only: header_padding_def)
qed

context total_writer
begin

lemma copy_buffer_upd: "copy_buffer wr w b = (None, upd w b)"
  by (simp add: copy_buffer_def upd_Nil write_upd)

lemma WriteTo_upd:
  assumes "regionTag = 0 \<or> regionTag < RPMTAG_HEADERREGIONS"
  shows "WriteTo wr hdr w regionTag = (Ok (), upd w (header_bytes hdr regionTag))"
proof -
  let ?ks = "sorted_keys hdr"
  note lay = writeTags_lay [OF sorted_keys_no_region [OF assms], of hdr hdr "[]" "[]", simplified]
  have align: "align_blobs RPM_BIN_TYPE b = b" for b by (simp add: align_blobs_def typeAlign_def)
  show ?thesis
    using assms
    by (auto simp: WriteTo_def Let_def lay write_upd copy_buffer_upd writeRegion_def writeTag_def
          align header_bytes_def region_value_def upd_append upd_Nil
          header_padding_total [where n = "length ?ks"])
qed

end

interpretation buf: total_writer buffer_Write "(@)"
  by unfold_locales (simp_all add: buffer_Write_def)

interpretation cnt: total_writer byteCountSink_Write "\<lambda>w bs. w + word_of_nat (length bs)"
  by unfold_locales (simp_all add: byteCountSink_Write_def)

lemma header_size_bytes:
  assumes "regionTag = 0 \<or> regionTag < RPMTAG_HEADERREGIONS"
  shows "header_size hdr regionTag = Ok (word_of_nat (length (header_bytes hdr regionTag)))"
  by (simp add: header_size_def cnt.WriteTo_upd [OF assms])

section \<open>Reading back what was written\<close>

lemma decode_encode_tag:
  assumes "fits32 (ht_Tag t)" "fits32 (ht_DataType t)" "fits32 (ht_Offset t)" "fits32 (ht_Count t)"
  shows "decode_tag (encode_tag t) = t"
  using assms
  by (cases t) (simp add: decode_tag_def encode_tag_def int32_at_def encode_int32_def be_decode_encode)

lemma decode_encode_intro: "decode_intro (encode_intro i) = i"
  by (cases i) (simp add: decode_intro_def encode_intro_def be_decode_encode)

lemma parse_entry_contents:
  assumes "wf_entry e"
  shows "parse_entry (xs @ contents e @ ys)
     \<lparr>ht_Tag = tag, ht_DataType = dataType e, ht_Offset = int (length xs), ht_Count = ecount e\<rparr> = Ok e"
proof -
  have sl: "slice (xs @ contents e @ ys) (int (length xs)) (int (length xs) + int (length (contents e)))
      = Ok (contents e)"
    by (rule slice_append_mid) simp_all
  show ?thesis
    using assms sl strings_end_nul_strings [of "nat (ecount e)" "contents e" xs ys tag]
    by (auto simp: parse_entry_def wf_entry_def split: option.splits)
qed

lemma lay_blobs_prefix: "\<exists>ys. lay_blobs hdr ks blobs = blobs @ ys"
proof (induction ks arbitrary: blobs)
  case (Cons k ks)
  have "\<exists>zs. align_blobs dt blobs = blobs @ zs" for dt
    by (auto simp: align_blobs_def Let_def split: option.splits)
  with Cons show ?case by (metis append.assoc lay_blobs.simps(2))
qed simp

lemma length_lay_blobs_mono: "length blobs \<le> length (lay_blobs hdr ks blobs)"
  using lay_blobs_prefix [of hdr ks blobs] by auto

text \<open>The entries of a header fit the fields of the on-disk format.\<close>

definition tags_ok :: "rpmHeader \<Rightarrow> int list \<Rightarrow> bool" where
  "tags_ok hdr ks \<longleftrightarrow> (\<forall>k \<in> set ks. fits32 k \<and> wf_entry (entry_at hdr k))"

lemma fits32_offset: "n < 2 ^ 31 \<Longrightarrow> fits32 (int n)"
  by (simp add: fits32_def)

lemma parse_entries_lay:
  assumes "tags_ok hdr ks" and "length (lay_blobs hdr ks blobs) < 2 ^ 31"
  shows "parse_entries (lay_blobs hdr ks blobs @ rest) (length ks)
           (concat (map encode_tag (lay_tags hdr ks blobs))) acc
         = Ok (foldl (\<lambda>al k. AList.update k (entry_at hdr k) al) acc ks)"
  using assms
proof (induction ks arbitrary: blobs acc)
  case (Cons k ks)
  let ?e = "entry_at hdr k"
  define b1 where "b1 = align_blobs (dataType ?e) blobs"
  define t where "t = \<lparr>ht_Tag = k, ht_DataType = dataType ?e, ht_Offset = int (length b1), ht_Count = ecount ?e\<rparr>"
  have ok: "fits32 k" "wf_entry ?e" "tags_ok hdr ks" using Cons.prems by (auto simp: tags_ok_def)
  have lay: "lay_blobs hdr (k # ks) blobs = lay_blobs hdr ks (b1 @ contents ?e)" by (simp add: b1_def)
  have small: "length b1 < 2 ^ 31"
    using Cons.prems(2) length_lay_blobs_mono [of "b1 @ contents ?e" hdr ks] unfolding lay by simp
  then have "fits32 (int (length b1))" by (rule fits32_offset)
  then have tags: "lay_tags hdr (k # ks) blobs = t # lay_tags hdr ks (b1 @ contents ?e)"
      and dec: "decode_tag (encode_tag t) = t"
    using ok by (simp_all add: t_def b1_def Let_def wf_entry_def decode_encode_tag)
  obtain ys where "lay_blobs hdr ks (b1 @ contents ?e) = b1 @ contents ?e @ ys"
    using lay_blobs_prefix [of hdr ks "b1 @ contents ?e"] by auto
  then have "parse_entry (lay_blobs hdr (k # ks) blobs @ rest) t = Ok ?e"
    using parse_entry_contents [OF ok(2), of b1 "ys @ rest" k] by (simp only: lay t_def append.assoc)
  moreover have "ht_Tag t = k" by (simp add: t_def)
  ultimately show ?case
    using Cons.IH [OF ok(3), of "b1 @ contents ?e"] Cons.prems(2)
    unfolding lay tags by (simp add: dec Let_def)
qed simp

lemma update_new: "k \<notin> fst ` set al \<Longrightarrow> AList.update k v al = al @ [(k, v)]"
  by (induction al) auto

lemma foldl_update_new:
  "distinct ks \<Longrightarrow> set ks \<inter> fst ` set acc = {} \<Longrightarrow>
     foldl (\<lambda>al k. AList.update k (f k) al) acc ks = acc @ map (\<lambda>k. (k, f k)) ks"
  by (induction ks arbitrary: acc) (auto simp: update_new)

text \<open>
  A header that the on-disk format can hold: well-formed, fewer than \<open>2 ^ 28 - 1\<close> tags, and
  a data area below \<open>2 ^ 31\<close> bytes (offsets are signed 32-bit numbers).
\<close>

definition storable :: "rpmHeader \<Rightarrow> bool" where
  "storable hdr \<longleftrightarrow> wf_header hdr \<and> length (sorted_keys hdr) + 1 < 2 ^ 28 \<and>
     length (lay_blobs hdr (sorted_keys hdr) []) + 16 < 2 ^ 31"

lemma entry_at_mem:
  "distinct (map fst (entries hdr)) \<Longrightarrow> (k, e) \<in> set (entries hdr) \<Longrightarrow> entry_at hdr k = e"
  by (simp add: entry_at_def get_entry_def)

lemma tags_ok_sorted_keys: "wf_header hdr \<Longrightarrow> tags_ok hdr (sorted_keys hdr)"
  by (fastforce simp: wf_header_def tags_ok_def sorted_keys_def entry_at_mem)

lemma distinct_sorted_keys: "wf_header hdr \<Longrightarrow> distinct (sorted_keys hdr)"
  by (simp add: wf_header_def sorted_keys_def)

lemma wf_region_entry: "wf_entry (region_entry regionTag n)"
  by (simp add: wf_entry_def region_entry_def typeSizes_def fits32_def)

lemma round_up_8: "(m + 23) div 8 * 8 = m + 16 + (if m mod 8 \<noteq> 0 then 8 - m mod 8 else (0 :: nat))"
proof -
  define q r where "q = m div 8" and "r = m mod 8"
  have m: "m = r + 8 * q" and r: "r \<in> {..<8}" by (simp_all add: q_def r_def)
  have "(m + 23) div 8 = q + (r + 23) div 8"
    by (simp only: m add.assoc add.commute [of "8 * q"] div_mult_self2 flip: add.assoc)
  moreover have "(r + 23) div 8 * 8 = r + 16 + (if r \<noteq> 0 then 8 - r else 0)"
    using r by (auto simp: lessThan_nat_numeral lessThan_Suc)
  ultimately show ?thesis 
    unfolding r_def [symmetric] by (simp only: m distrib_right)
qed

lemma data_size_padded:
  assumes "m + 16 < 2 ^ 31"
  shows "unat (data_size (regionTag = RPMTAG_HEADERSIGNATURES) (word_of_nat m + 16))
       = m + 16 + length (header_padding regionTag m)"
proof -
  have u: "unat (word_of_nat m :: 32 word) = m" using assms by (simp add: unat_of_nat)
  then have w: "unat (word_of_nat m + 16 :: 32 word) = m + 16" using assms by (simp add: unat_word_ariths)
  from u have w7: "unat (word_of_nat m + 16 + 7 :: 32 word) = m + 23"
    using assms by (simp add: unat_word_ariths)
  then have "unat ((word_of_nat m + 16 + 7 :: 32 word) div 8 * 8) = (m + 23) div 8 * 8 mod 2 ^ 32"
    by (simp only: unat_word_ariths unat_div) simp
  also have "\<dots> = (m + 23) div 8 * 8"
    using assms by (intro mod_less le_less_trans [OF div_times_less_eq_dividend]) simp
  also have "\<dots> = m + 16 + (if m mod 8 \<noteq> 0 then 8 - m mod 8 else 0)"
    by (rule round_up_8)
  finally show ?thesis using w by (simp add: data_size_def header_padding_def)
qed

lemma entries_size:
  assumes "n + 1 < 2 ^ 28"
  shows "unat ((word_of_nat n + 1) * 16 :: 32 word) = 16 * (n + 1)" "unat (word_of_nat n + 1 :: 32 word) = n + 1"
proof -
  have "unat (word_of_nat n :: 32 word) = n" using assms by (simp add: unat_of_nat)
  then show w: "unat (word_of_nat n + 1 :: 32 word) = n + 1" using assms by (simp add: unat_word_ariths)
  show "unat ((word_of_nat n + 1) * 16 :: 32 word) = 16 * (n + 1)"
    unfolding unat_word_ariths(2) w using assms by simp
qed

text \<open>What is read back: the region tag first, then the written tags in ascending order.\<close>

definition written_entries :: "rpmHeader \<Rightarrow> int \<Rightarrow> (int \<times> entry) list" where
  "written_entries hdr regionTag =
     (regionTag, region_entry regionTag (length (sorted_keys hdr)))
     # map (\<lambda>k. (k, entry_at hdr k)) (sorted_keys hdr)"

lemma parse_written_entries:
  assumes "storable hdr" "regionTag < RPMTAG_HEADERREGIONS" "fits32 regionTag"
    and blobs: "blobs = lay_blobs hdr (sorted_keys hdr) []"
  shows "parse_entries (blobs @ region_value regionTag (length (sorted_keys hdr)) @ pad)
           (length (sorted_keys hdr) + 1)
           (encode_tag \<lparr>ht_Tag = to_int32 regionTag, ht_DataType = RPM_BIN_TYPE,
                        ht_Offset = to_int32 (int (length blobs)), ht_Count = 16\<rparr>
            @ concat (map encode_tag (lay_tags hdr (sorted_keys hdr) []))) []
         = Ok (written_entries hdr regionTag)"
proof -
  let ?ks = "sorted_keys hdr" and ?re = "region_entry regionTag (length (sorted_keys hdr))"
  define t where "t = \<lparr>ht_Tag = regionTag, ht_DataType = RPM_BIN_TYPE, ht_Offset = int (length blobs), ht_Count = 16\<rparr>"
  have small: "length blobs + 16 < 2 ^ 31" and wf: "wf_header hdr"
    using assms(1) blobs by (auto simp: storable_def)
  then have fits: "fits32 (int (length blobs))" by (intro fits32_offset) simp
  have t: "t = \<lparr>ht_Tag = to_int32 regionTag, ht_DataType = RPM_BIN_TYPE,
                ht_Offset = to_int32 (int (length blobs)), ht_Count = 16\<rparr>"
    using fits assms(3) by (simp add: t_def)
  have dec: "decode_tag (encode_tag t) = t"
    using fits assms(3) by (intro decode_encode_tag) (simp_all add: t_def fits32_def)
  have "parse_entry (blobs @ region_value regionTag (length ?ks) @ pad) t = Ok ?re"
    using parse_entry_contents [OF wf_region_entry, of blobs regionTag "length ?ks" pad regionTag]
    by (simp add: region_entry_def t_def)
  moreover have "parse_entries (blobs @ region_value regionTag (length ?ks) @ pad) (length ?ks)
      (concat (map encode_tag (lay_tags hdr ?ks []))) [(regionTag, ?re)]
      = Ok (foldl (\<lambda>al k. AList.update k (entry_at hdr k) al) [(regionTag, ?re)] ?ks)"
    unfolding blobs using small blobs wf by (intro parse_entries_lay tags_ok_sorted_keys) simp_all
  moreover have "ht_Tag t = regionTag" by (simp add: t_def)
  moreover have "foldl (\<lambda>al k. AList.update k (entry_at hdr k) al) [(regionTag, ?re)] ?ks
      = written_entries hdr regionTag"
    using distinct_sorted_keys [OF wf] sorted_keys_no_region [of regionTag hdr] assms(2)
    by (simp add: foldl_update_new written_entries_def)
  ultimately show ?thesis
    unfolding t [symmetric] by (simp add: dec Let_def)
qed

lemma parse_header_bytes:
  assumes "storable hdr" "regionTag < RPMTAG_HEADERREGIONS" "fits32 regionTag"
  shows "parse_header env (header_bytes hdr regionTag @ rest) fin '''' hashType src
           (regionTag = RPMTAG_HEADERSIGNATURES)
         = Ok (\<lparr>entries = written_entries hdr regionTag, isSource = src,
                orig = header_bytes hdr regionTag\<rparr>, rest)"
proof -
  define n where "n = length (sorted_keys hdr)"
  define blobs where "blobs = lay_blobs hdr (sorted_keys hdr) []"
  define m where "m = length blobs"
  define ib where "ib = encode_intro \<lparr>hi_Magic = introMagic, hi_Reserved = 0,
      hi_Entries = word_of_nat n + 1, hi_Size = word_of_nat m + 16\<rparr>"
  define tab where "tab = encode_tag \<lparr>ht_Tag = to_int32 regionTag, ht_DataType = RPM_BIN_TYPE,
      ht_Offset = to_int32 (int m), ht_Count = 16\<rparr> @ concat (map encode_tag (lay_tags hdr (sorted_keys hdr) []))"
  define data where "data = blobs @ region_value regionTag n @ header_padding regionTag m"
  have hb: "header_bytes hdr regionTag = ib @ tab @ data"
    by (simp add: header_bytes_def Let_def ib_def tab_def data_def n_def m_def blobs_def add.commute)
  have small: "n + 1 < 2 ^ 28" "m + 16 < 2 ^ 31"
    using assms(1) by (simp_all add: storable_def n_def m_def blobs_def)
  have len: "length ib = 16" "length tab = 16 * (n + 1)"
      "length data = unat (data_size (regionTag = RPMTAG_HEADERSIGNATURES) (word_of_nat m + 16))"
    using data_size_padded [OF small(2)] by (simp_all add: ib_def tab_def data_def n_def m_def)
  have dec: "decode_intro ib = \<lparr>hi_Magic = introMagic, hi_Reserved = 0,
      hi_Entries = word_of_nat n + 1, hi_Size = word_of_nat m + 16\<rparr>"
    by (simp add: ib_def decode_encode_intro)
  have ents: "parse_entries data (n + 1) tab [] = Ok (written_entries hdr regionTag)"
    using parse_written_entries [OF assms blobs_def] by (simp add: data_def tab_def n_def m_def)
  have "unat (hi_Entries (decode_intro ib) * 16) = length tab" "unat (hi_Entries (decode_intro ib)) = n + 1"
    using entries_size [OF small(1)] len(2) by (simp_all only: dec headerIntro.simps)
  then show ?thesis
    using parse_header_parts [OF len(1), of tab "regionTag = RPMTAG_HEADERSIGNATURES" data] len(3) ents
    by (simp add: hb dec check_hash_def del: parse_entries.simps)
qed

lemma length_header_bytes:
  "length (header_bytes hdr regionTag) =
     48 + 16 * length (sorted_keys hdr) + length (lay_blobs hdr (sorted_keys hdr) [])
     + length (header_padding regionTag (length (lay_blobs hdr (sorted_keys hdr) [])))"
  by (simp add: header_bytes_def Let_def)

lemma padded_dvd_8: "8 dvd m + length (header_padding RPMTAG_HEADERSIGNATURES m)"
  by (simp add: header_padding_def) presburger

lemma header_bytes_dvd_8: "8 dvd length (header_bytes hdr RPMTAG_HEADERSIGNATURES)"
proof -
  let ?m = "length (lay_blobs hdr (sorted_keys hdr) [])"
  have "length (header_bytes hdr RPMTAG_HEADERSIGNATURES)
      = 8 * (6 + 2 * length (sorted_keys hdr)) + (?m + length (header_padding RPMTAG_HEADERSIGNATURES ?m))"
    by (simp add: length_header_bytes)
  then show ?thesis using padded_dvd_8 [of ?m] by (simp only: dvd_add dvd_triv_left)
qed

lemma get_written_entry:
  assumes "wf_header hdr" "RPMTAG_HEADERREGIONS \<le> k" "regionTag < RPMTAG_HEADERREGIONS"
  shows "map_of (written_entries hdr regionTag) k = get_entry hdr k"
proof -
  have "map_of (map (\<lambda>k. (k, entry_at hdr k)) ks) k = (if k \<in> set ks then Some (entry_at hdr k) else None)" for ks
    by (induction ks) auto
  moreover have "k \<in> set (sorted_keys hdr) \<longleftrightarrow> get_entry hdr k \<noteq> None"
    using assms(2) by (auto simp: sorted_keys_def get_entry_def map_of_eq_None_iff)
  ultimately show ?thesis
    using assms by (auto simp: written_entries_def entry_at_def)
qed

lemma align_blobs_dvd:
  assumes "typeAlign dt = Some a"
  shows "a dvd length (align_blobs dt blobs)"
proof -
  let ?n = "length blobs"
  have "?n mod a < a" using typeAlign_dvd_8 [OF assms] by simp
  then have "?n + (a - ?n mod a) = a * (?n div a) + a" using mult_div_mod_eq [of a ?n] by linarith
  then have "a dvd ?n + (a - ?n mod a)" by (metis dvd_add dvd_refl dvd_triv_left)
  then show ?thesis using assms by (simp add: align_blobs_def Let_def mod_eq_0_iff_dvd)
qed

lemma lay_tags_aligned:
  assumes "length (lay_blobs hdr ks blobs) < 2 ^ 31" "t \<in> set (lay_tags hdr ks blobs)"
    and "typeAlign (ht_DataType t) = Some a"
  shows "0 \<le> ht_Offset t \<and> int a dvd ht_Offset t"
  using assms
proof (induction ks arbitrary: blobs)
  case (Cons k ks)
  let ?e = "entry_at hdr k"
  let ?b = "align_blobs (dataType ?e) blobs"
  have "length (?b @ contents ?e) \<le> length (lay_blobs hdr (k # ks) blobs)"
    using length_lay_blobs_mono [of "?b @ contents ?e" hdr ks] by simp
  then have "fits32 (int (length ?b))" using Cons.prems(1) by (intro fits32_offset) simp
  moreover have "typeAlign (dataType ?e) = Some a \<Longrightarrow> a dvd length ?b" by (rule align_blobs_dvd)
  ultimately show ?case
    using Cons by (auto simp: Let_def)
qed simp

section \<open>Changing the tags of a header\<close>

lemma get_entry_delete [simp]: "get_entry (delete_tag hdr t) k = (if k = t then None else get_entry hdr k)"
  by (simp add: get_entry_def delete_tag_def delete_conv')

lemma get_entry_set [simp]: "get_entry (set_tag hdr t e) k = (if k = t then Some e else get_entry hdr k)"
  by (simp add: get_entry_def set_tag_def update_conv')

lemma tag_update_orig [simp]:
  "orig (delete_tag hdr t) = orig hdr" "orig (set_tag hdr t e) = orig hdr"
  "isSource (delete_tag hdr t) = isSource hdr" "isSource (set_tag hdr t e) = isSource hdr"
  by (simp_all add: delete_tag_def set_tag_def)

lemma wf_delete_tag [intro]: "wf_header hdr \<Longrightarrow> wf_header (delete_tag hdr t)"
  using distinct_delete [of "entries hdr" t] by (auto simp: wf_header_def delete_tag_def AList.delete_eq)

lemma wf_set_tag [intro]:
  "wf_header hdr \<Longrightarrow> fits32 t \<Longrightarrow> wf_entry e \<Longrightarrow> wf_header (set_tag hdr t e)"
  using set_AList_update_subset [of t e "entries hdr"]
  by (auto simp: wf_header_def set_tag_def distinct_update)

lemma lay_blobs_append: "lay_blobs hdr (xs @ ys) blobs = lay_blobs hdr ys (lay_blobs hdr xs blobs)"
  by (induction xs arbitrary: blobs) auto

lemma lay_blobs_cong:
  "(\<And>k. k \<in> set ks \<Longrightarrow> entry_at h k = entry_at g k) \<Longrightarrow> lay_blobs h ks blobs = lay_blobs g ks blobs"
  by (induction ks arbitrary: blobs) auto

lemma lay_tags_cong:
  "(\<And>k. k \<in> set ks \<Longrightarrow> entry_at h k = entry_at g k) \<Longrightarrow> lay_tags h ks blobs = lay_tags g ks blobs"
  by (induction ks arbitrary: blobs) (auto simp: Let_def)

lemma sorted_keys_set_last:
  assumes "\<forall>k \<in> fst ` set (entries hdr). k < t" "RPMTAG_HEADERREGIONS \<le> t"
  shows "sorted_keys (set_tag hdr t e) = sorted_keys hdr @ [t]"
proof -
  have "entries (set_tag hdr t e) = entries hdr @ [(t, e)]"
    using assms(1) by (auto simp: set_tag_def intro!: update_new)
  moreover have "sorted (sorted_keys hdr @ [t])"
    using assms(1) by (auto simp: sorted_keys_def sorted_append intro: order.strict_implies_order)
  ultimately show ?thesis
    using assms(2) unfolding sorted_keys_def by (intro properties_for_sort) (auto simp: sorted_keys_def)
qed

lemma lay_blobs_set_last:
  assumes "\<forall>k \<in> fst ` set (entries hdr). k < t" "RPMTAG_HEADERREGIONS \<le> t" "dataType e = RPM_BIN_TYPE"
  shows "lay_blobs (set_tag hdr t e) (sorted_keys (set_tag hdr t e)) []
       = lay_blobs hdr (sorted_keys hdr) [] @ contents e"
proof -
  have "k \<noteq> t" if "k \<in> set (sorted_keys hdr)" for k using that assms(1) by (auto simp: sorted_keys_def)
  then have "lay_blobs (set_tag hdr t e) (sorted_keys hdr) [] = lay_blobs hdr (sorted_keys hdr) []"
    by (intro lay_blobs_cong) (simp add: entry_at_def)
  then show ?thesis
    using assms
    by (simp add: sorted_keys_set_last lay_blobs_append entry_at_def align_blobs_def typeAlign_def)
qed

text \<open>The order in which Go iterates over the map of entries does not matter.\<close>

lemma same_entries:
  assumes "distinct (map fst (entries h))" "distinct (map fst (entries g))" "set (entries h) = set (entries g)"
  shows "entry_at h = entry_at g" "sorted_keys h = sorted_keys g"
proof -
  have "map_of (entries h) = map_of (entries g)" using assms by (simp add: map_of_inject_set)
  then show "entry_at h = entry_at g" by (simp add: entry_at_def get_entry_def fun_eq_iff)
  have "set (map fst (entries h)) = set (map fst (entries g))" using assms(3) by simp
  then show "sorted_keys h = sorted_keys g"
    using assms(1,2) unfolding sorted_keys_def by (intro sorted_distinct_set_unique) auto
qed

section \<open>Dumping the signature header\<close>

abbreviation unreserved :: "RpmHeader \<Rightarrow> rpmHeader" where
  "unreserved hdr \<equiv> delete_tag (sigHeader hdr) RESERVED_TAG"

lemma reserve_space_eq:
  "reserve_space sigh RPMTAG_HEADERSIGNATURES = Ok
     (if (word_of_nat (length (header_bytes sigh RPMTAG_HEADERSIGNATURES)) + 16 :: 64 word)
           \<le> word_of_nat (length (orig sigh))
      then let padding = replicate (unat (word_of_nat (length (orig sigh))
                 - word_of_nat (length (header_bytes sigh RPMTAG_HEADERSIGNATURES)) - 16 :: 64 word)) 0 in
           set_tag sigh RESERVED_TAG
             \<lparr>dataType = RPM_BIN_TYPE, ecount = to_int32 (int (length padding)), contents = padding\<rparr>
      else sigh)"
  using header_size_bytes [of RPMTAG_HEADERSIGNATURES sigh] by (simp add: reserve_space_def Let_def)

lemma reserve_space_small:
  fixes sigh :: rpmHeader
  defines "needed \<equiv> length (header_bytes sigh RPMTAG_HEADERSIGNATURES)" and "available \<equiv> length (orig sigh)"
  assumes "needed < 2 ^ 32" "available < 2 ^ 31"
  shows "reserve_space sigh RPMTAG_HEADERSIGNATURES = Ok
     (if needed + 16 \<le> available
      then set_tag sigh RESERVED_TAG
             \<lparr>dataType = RPM_BIN_TYPE, ecount = int (available - needed - 16),
              contents = replicate (available - needed - 16) 0\<rparr>
      else sigh)"
proof -
  have u: "unat (word_of_nat needed + 16 :: 64 word) = needed + 16" "unat (word_of_nat available :: 64 word) = available"
    using assms(3,4) by (simp_all add: unat_word_ariths unat_of_nat)
  have c: "(word_of_nat needed + 16 :: 64 word) \<le> word_of_nat available \<longleftrightarrow> needed + 16 \<le> available"
    by (simp only: word_le_nat_alt u)
  have d: "unat (word_of_nat available - word_of_nat needed - 16 :: 64 word) = available - needed - 16"
    if "needed + 16 \<le> available"
    using that c u unat_sub [of "word_of_nat needed + 16 :: 64 word" "word_of_nat available"]
    by (simp add: algebra_simps diff_diff_eq)
  have "fits32 (int (available - needed - 16))" using assms(4) by (intro fits32_offset) simp
  then show ?thesis
    unfolding reserve_space_eq needed_def [symmetric] available_def [symmetric] c
    by (simp add: d Let_def del: of_nat_diff)
qed

lemma DumpSignatureHeader_eq:
  assumes "length (lead hdr) = 96"
  shows "DumpSignatureHeader hdr sameSize =
     rbind (if sameSize then reserve_space (unreserved hdr) RPMTAG_HEADERSIGNATURES else Ok (unreserved hdr))
       (\<lambda>sigh. Ok (lead hdr @ header_bytes sigh RPMTAG_HEADERSIGNATURES, hdr\<lparr>sigHeader := sigh\<rparr>))"
  using assms by (simp add: DumpSignatureHeader_def Let_def buf.WriteTo_upd)

lemma unat_mult_dvd: "c dvd 2 ^ 32 \<Longrightarrow> unat (c' :: 32 word) = c \<Longrightarrow> c dvd unat (w * c')"
  by (simp add: unat_word_ariths dvd_mod)

lemma parse_sig_header_dvd_8:
  assumes "parse_header env bs fin hash hashType isSrc True = Ok (h, rest)"
  shows "8 dvd length (orig h)"
proof -
  obtain n m where nm: "length (orig h) = 16 + unat (n * 16 :: 32 word) + unat (m * 8 :: 32 word)"
    using assms
    by (simp add: parse_header_def Let_def rbind_eq_Ok_iff data_size_def split: if_splits)
       (elim conjE exE, hypsubst, force)
  have "16 dvd unat (n * 16 :: 32 word)" "8 dvd unat (m * 8 :: 32 word)"
    by (rule unat_mult_dvd; simp)+
  then have "8 dvd unat (n * 16 :: 32 word)" "8 dvd unat (m * 8 :: 32 word)"
    by (auto intro: dvd_trans [of 8 16])
  then show ?thesis unfolding nm by simp
qed

text \<open>
  The reserved space is the last tag of the signature header: its padding shifts no other
  tag, so the dump grows by what was asked for.
\<close>

lemma length_reserved:
  fixes sigh :: rpmHeader
  defines "needed \<equiv> length (header_bytes sigh RPMTAG_HEADERSIGNATURES)"
  assumes last: "\<forall>k \<in> fst ` set (entries sigh). k < RESERVED_TAG"
    and "needed + 16 \<le> available" "8 dvd available"
    and e: "dataType e = RPM_BIN_TYPE" "contents e = replicate (available - needed - 16) 0"
  shows "length (header_bytes (set_tag sigh RESERVED_TAG e) RPMTAG_HEADERSIGNATURES) = available"
proof -
  let ?m = "length (lay_blobs sigh (sorted_keys sigh) [])" and ?n = "length (sorted_keys sigh)"
  let ?p = "available - needed - 16"
  let ?pad = "\<lambda>m. length (header_padding RPMTAG_HEADERSIGNATURES m)"
  have needed: "needed = 48 + 16 * ?n + ?m + ?pad ?m" by (simp add: needed_def length_header_bytes)
  then have "?m + ?p = available - (64 + 16 * ?n + ?pad ?m)" "64 + 16 * ?n + ?pad ?m \<le> available"
    using assms(3) by simp_all
  then have sum: "?m + ?p + (64 + 16 * ?n + ?pad ?m) = available" by simp
  have "8 dvd needed" unfolding needed_def by (rule header_bytes_dvd_8)
  then have "8 dvd available - needed" using assms(4) by (rule dvd_diff_nat [rotated])
  then have "8 dvd ?p" by (rule dvd_diff_nat) simp
  then obtain q where q: "?p = 8 * q" ..
  then have "(?m + ?p) mod 8 = ?m mod 8" by simp
  then have pad: "?pad (?m + ?p) = ?pad ?m" by (simp only: header_padding_def)
  have "length (header_bytes (set_tag sigh RESERVED_TAG e) RPMTAG_HEADERSIGNATURES)
      = 48 + 16 * (?n + 1) + (?m + ?p) + ?pad (?m + ?p)"
    using lay_blobs_set_last [OF last _ e(1)] sorted_keys_set_last [OF last, of e] e(2)
    by (simp add: length_header_bytes)
  then show ?thesis using sum unfolding pad by simp
qed

lemma GetStrings_cong:
  "tag \<noteq> OLDFILENAMES \<Longrightarrow> get_entry g tag = get_entry h tag \<Longrightarrow> GetStrings g tag = GetStrings h tag"
  by (simp add: GetStrings.simps [of g] GetStrings.simps [of h])

lemma getHashAndType_cong:
  assumes "\<And>k. k \<in> {SIG_SHA1, SIG_SHA256} \<Longrightarrow> get_entry g k = get_entry h k"
  shows "getHashAndType g = getHashAndType h"
proof -
  have "getSha1 g = getSha1 h" "getSha256 g = getSha256 h"
    using assms GetStrings_cong [of SIG_SHA1 g h] GetStrings_cong [of SIG_SHA256 g h]
    by (simp_all add: getSha1_def getSha256_def first_string_def)
  then show ?thesis by (simp only: getHashAndType_def)
qed

text \<open>The header whose bytes \<open>DumpSignatureHeader\<close> writes, on sizes below the limits of the format.\<close>

definition dumpable :: "RpmHeader \<Rightarrow> bool" where
  "dumpable hdr \<longleftrightarrow> length (lead hdr) = 96 \<and> wf_header (sigHeader hdr)
     \<and> (\<forall>k \<in> fst ` set (entries (unreserved hdr)). k < RESERVED_TAG)
     \<and> length (sorted_keys (unreserved hdr)) + 2 < 2 ^ 28
     \<and> length (header_bytes (unreserved hdr) RPMTAG_HEADERSIGNATURES) < 2 ^ 30
     \<and> length (orig (sigHeader hdr)) < 2 ^ 30 \<and> 8 dvd length (orig (sigHeader hdr))"

lemma DumpSignatureHeader_dumpable:
  assumes "dumpable hdr"
  obtains sigh where "DumpSignatureHeader hdr sameSize
       = Ok (lead hdr @ header_bytes sigh RPMTAG_HEADERSIGNATURES, hdr\<lparr>sigHeader := sigh\<rparr>)"
    and "storable sigh" "\<And>k. k \<noteq> RESERVED_TAG \<Longrightarrow> get_entry sigh k = get_entry (sigHeader hdr) k"
    and "let needed = length (header_bytes (unreserved hdr) RPMTAG_HEADERSIGNATURES);
             available = length (orig (sigHeader hdr)) in
         length (header_bytes sigh RPMTAG_HEADERSIGNATURES)
           = (if sameSize \<and> needed + 16 \<le> available then available else needed)"
proof -
  let ?u = "unreserved hdr"
  define needed where "needed = length (header_bytes ?u RPMTAG_HEADERSIGNATURES)"
  define available where "available = length (orig (sigHeader hdr))"
  define e where "e = \<lparr>dataType = RPM_BIN_TYPE, ecount = int (available - needed - 16),
      contents = replicate (available - needed - 16) (0 :: byte)\<rparr>"
  define sigh where "sigh = (if sameSize \<and> needed + 16 \<le> available then set_tag ?u RESERVED_TAG e else ?u)"
  note d = assms [unfolded dumpable_def]
  have wf: "wf_header ?u" using d by blast
  have blobs: "length (lay_blobs ?u (sorted_keys ?u) []) \<le> needed"
    by (simp add: needed_def length_header_bytes)
  have avail: "available < 2 ^ 30" "needed < 2 ^ 30" using d by (simp_all add: available_def needed_def)
  have "fits32 (int (available - needed - 16))" using avail by (intro fits32_offset) simp
  then have wfe: "wf_entry e" by (simp add: e_def wf_entry_def typeSizes_def fits32_def)
  have e: "dataType e = RPM_BIN_TYPE" "contents e = replicate (available - needed - 16) 0" by (simp_all add: e_def)
  have wf1: "wf_header (set_tag ?u RESERVED_TAG e)" using wf wfe by (intro wf_set_tag) (simp_all add: fits32_def)
  have st: "storable sigh"
    using d wf wf1 blobs avail lay_blobs_set_last [of ?u RESERVED_TAG e] sorted_keys_set_last [of ?u RESERVED_TAG e]
    by (simp add: sigh_def storable_def e) linarith
  have dump: "DumpSignatureHeader hdr sameSize
       = Ok (lead hdr @ header_bytes sigh RPMTAG_HEADERSIGNATURES, hdr\<lparr>sigHeader := sigh\<rparr>)"
    using d avail reserve_space_small [of ?u] e_def
    by (simp add: DumpSignatureHeader_eq sigh_def needed_def available_def)
  have len: "length (header_bytes sigh RPMTAG_HEADERSIGNATURES)
      = (if sameSize \<and> needed + 16 \<le> available then available else needed)"
    using d length_reserved [of ?u available e] e by (simp add: sigh_def needed_def available_def)
  show thesis
    using that [OF dump st _ ] len by (simp add: sigh_def needed_def available_def Let_def split: if_splits)
qed

lemma DumpSignatureHeader_Ok:
  assumes "dumpable hdr" "DumpSignatureHeader hdr sameSize = Ok (bs, hdr')"
  shows "\<exists>sigh. bs = lead hdr @ header_bytes sigh RPMTAG_HEADERSIGNATURES \<and> hdr' = hdr\<lparr>sigHeader := sigh\<rparr>
     \<and> storable sigh \<and> (\<forall>k. k \<noteq> RESERVED_TAG \<longrightarrow> get_entry sigh k = get_entry (sigHeader hdr) k)
     \<and> length (header_bytes sigh RPMTAG_HEADERSIGNATURES)
         = (if sameSize \<and> length (header_bytes (unreserved hdr) RPMTAG_HEADERSIGNATURES) + 16
                \<le> length (orig (sigHeader hdr))
            then length (orig (sigHeader hdr)) else length (header_bytes (unreserved hdr) RPMTAG_HEADERSIGNATURES))"
proof (rule DumpSignatureHeader_dumpable [OF assms(1), of sameSize], goal_cases)
  case (1 sigh)
  then show ?case using assms(2) by (intro exI [of _ sigh]) (simp add: Let_def)
qed

lemma table_tags_encode:
  assumes "\<forall>t \<in> set ts. fits32 (ht_Tag t) \<and> fits32 (ht_DataType t) \<and> fits32 (ht_Offset t) \<and> fits32 (ht_Count t)"
  shows "table_tags (length ts) (concat (map encode_tag ts) @ rest) = ts"
  using assms by (induction ts) (auto simp: decode_encode_tag)

lemma lay_tags_fits:
  "tags_ok hdr ks \<Longrightarrow> t \<in> set (lay_tags hdr ks blobs) \<Longrightarrow>
     fits32 (ht_Tag t) \<and> fits32 (ht_DataType t) \<and> fits32 (ht_Offset t) \<and> fits32 (ht_Count t)"
  by (induction ks arbitrary: blobs) (auto simp: Let_def tags_ok_def wf_entry_def)

lemma dump_reread:
  assumes "dumpable hdr" and d: "DumpSignatureHeader hdr sameSize = Ok (bs, hdr')"
    and magic: "(be_decode (take 4 (lead hdr)) :: 32 word) = 0xedabeedb"
  shows "\<exists>h. parse_signature_header env (bs @ rest) fin = Ok (lead hdr, h, rest)
     \<and> isSource h = ((be_decode (take 2 (drop 6 (lead hdr))) :: 16 word) = 1)
     \<and> (\<forall>k. RPMTAG_HEADERREGIONS \<le> k \<and> k \<noteq> RESERVED_TAG \<longrightarrow> get_entry h k = get_entry (sigHeader hdr) k)"
proof -
  obtain sigh where sigh: "bs = lead hdr @ header_bytes sigh RPMTAG_HEADERSIGNATURES" "storable sigh"
      "\<And>k. k \<noteq> RESERVED_TAG \<Longrightarrow> get_entry sigh k = get_entry (sigHeader hdr) k"
    using DumpSignatureHeader_Ok [OF assms(1) d] by blast
  have len: "length (lead hdr) = 96" using assms(1) by (simp add: dumpable_def)
  let ?src = "(be_decode (take 2 (drop 6 (lead hdr))) :: 16 word) = 1"
  let ?h = "\<lparr>entries = written_entries sigh RPMTAG_HEADERSIGNATURES, isSource = ?src,
      orig = header_bytes sigh RPMTAG_HEADERSIGNATURES\<rparr>"
  have "parse_header env (header_bytes sigh RPMTAG_HEADERSIGNATURES @ rest) fin '''' 0 ?src True = Ok (?h, rest)"
    using parse_header_bytes [OF sigh(2), of RPMTAG_HEADERSIGNATURES env rest fin 0 ?src] by (simp add: fits32_def)
  then have "parse_signature_header env (bs @ rest) fin = Ok (lead hdr, ?h, rest)"
    using len magic by (simp add: parse_signature_header_def sigh(1))
  moreover have "get_entry ?h k = get_entry (sigHeader hdr) k" if "RPMTAG_HEADERREGIONS \<le> k \<and> k \<noteq> RESERVED_TAG" for k
    using that sigh(2,3) get_written_entry [of sigh k RPMTAG_HEADERSIGNATURES]
    by (simp add: get_entry_def [of ?h] storable_def)
  ultimately show ?thesis by (intro exI [of _ ?h]) simp
qed

text \<open>
  A package file whose lead and signature header are replaced by a dump of \<open>hdr\<close>, where
  \<open>hdr\<close> differs from the headers read from the file at most in tags that are not digests.
\<close>

lemma dump_ReadHeader:
  assumes "parse_rpm env bs0 fin = Ok (hdr0, rest)" "dumpable hdr"
    and "DumpSignatureHeader hdr sameSize = Ok (bs, hdr')"
    and same: "lead hdr = lead hdr0" "genHeader hdr = genHeader hdr0" "rpmIsSource hdr = rpmIsSource hdr0"
      "getHashAndType (sigHeader hdr) = getHashAndType (sigHeader hdr0)"
    and g: "reader_pending g = bs @ orig (genHeader hdr) @ rest" "rd_fin g = fin"
  shows "\<exists>hdr2 g'. ReadHeader env g = Ok (hdr2, g') \<and> lead hdr2 = lead hdr \<and> genHeader hdr2 = genHeader hdr
     \<and> reader_pending g' = rest \<and> rd_fin g' = fin \<and> rpmIsSource hdr2 = rpmIsSource hdr
     \<and> (\<forall>k. RPMTAG_HEADERREGIONS \<le> k \<and> k \<noteq> RESERVED_TAG \<longrightarrow>
          get_entry (sigHeader hdr2) k = get_entry (sigHeader hdr) k)"
proof -
  note ok = parse_rpm_Ok [OF assms(1), folded same(1-3)]
  let ?rest = "orig (genHeader hdr) @ rest"
  obtain h where h: "parse_signature_header env (bs @ ?rest) fin = Ok (lead hdr, h, ?rest)"
      "isSource h = rpmIsSource hdr"
      "\<forall>k. RPMTAG_HEADERREGIONS \<le> k \<and> k \<noteq> RESERVED_TAG \<longrightarrow> get_entry h k = get_entry (sigHeader hdr) k"
    using dump_reread [OF assms(2,3)] ok by metis
  then have "getHashAndType h = getHashAndType (sigHeader hdr0)" unfolding same(4) [symmetric]
    by (intro getHashAndType_cong) auto
  with parse_rpm_gen [OF assms(1), folded same(1-3)] h
  have "parse_rpm env (bs @ ?rest) fin
      = Ok (\<lparr>lead = lead hdr, sigHeader = h, genHeader = genHeader hdr, rpmIsSource = rpmIsSource hdr\<rparr>, rest)"
    by (auto simp: parse_rpm_def)
  then have r: "map_result (\<lambda>(h, r). (h, reader_pending r)) (ReadHeader env g)
      = Ok (\<lparr>lead = lead hdr, sigHeader = h, genHeader = genHeader hdr, rpmIsSource = rpmIsSource hdr\<rparr>, rest)"
    by (simp only: ReadHeader_parse_rpm g)
  then obtain g' where "ReadHeader env g = Ok (\<lparr>lead = lead hdr, sigHeader = h, genHeader = genHeader hdr,
      rpmIsSource = rpmIsSource hdr\<rparr>, g')" "reader_pending g' = rest"
    by (cases "ReadHeader env g") auto
  with h(3) ReadHeader_fin [OF this(1)] g(2) show ?thesis by auto
qed

section \<open>Properties\<close>

text \<open>
  C3.  What \<open>WriteTo\<close> writes, \<open>readHeader\<close> reads back: on a header within the limits of the
  format, writing into a buffer succeeds, and a stream that starts with these bytes gives a
  header with the same entry for every tag outside the region range, whose \<open>orig\<close> are the
  written bytes, and leaves the rest of the stream.  The alignment padding of a signature
  header is the one the reader skips.
\<close>

theorem WriteTo_readHeader:
  assumes "storable hdr" "regionTag < RPMTAG_HEADERREGIONS" "fits32 regionTag"
    and "reader_pending f = snd (WriteTo buffer_Write hdr [] regionTag) @ rest"
  shows "fst (WriteTo buffer_Write hdr [] regionTag) = Ok () \<and>
     (\<exists>h f'. readHeader env f '''' hashType src (regionTag = RPMTAG_HEADERSIGNATURES) = Ok (h, f')
        \<and> reader_pending f' = rest \<and> orig h = snd (WriteTo buffer_Write hdr [] regionTag) \<and> isSource h = src
        \<and> (\<forall>k. RPMTAG_HEADERREGIONS \<le> k \<longrightarrow> get_entry h k = get_entry hdr k))"
proof -
  have w: "WriteTo buffer_Write hdr [] regionTag = (Ok (), header_bytes hdr regionTag)"
    using assms(2) by (simp add: buf.WriteTo_upd)
  let ?h = "\<lparr>entries = written_entries hdr regionTag, isSource = src, orig = header_bytes hdr regionTag\<rparr>"
  have "map_result (\<lambda>(h, r). (h, reader_pending r))
      (readHeader env f '''' hashType src (regionTag = RPMTAG_HEADERSIGNATURES)) = Ok (?h, rest)"
    using assms parse_header_bytes [OF assms(1-3)] by (simp add: readHeader_parse_header w)
  then obtain f' where "readHeader env f '''' hashType src (regionTag = RPMTAG_HEADERSIGNATURES) = Ok (?h, f')"
      "reader_pending f' = rest"
    by (cases "readHeader env f '''' hashType src (regionTag = RPMTAG_HEADERSIGNATURES)") auto
  moreover have "get_entry ?h k = get_entry hdr k" if "RPMTAG_HEADERREGIONS \<le> k" for k
    using assms(1,2) that by (simp add: get_entry_def [of ?h] get_written_entry storable_def)
  ultimately show ?thesis by (auto simp: w)
qed

definition unsorted_header :: rpmHeader where
  "unsorted_header = \<lparr>entries =
      [(1007, \<lparr>dataType = 4, ecount = 1, contents = [0, 0, 0, 9]\<rparr>),
       (269, \<lparr>dataType = 6, ecount = 1, contents = [0x61, 0x62, 0]\<rparr>),
       (62, \<lparr>dataType = 7, ecount = 2, contents = [1, 2]\<rparr>)],
     isSource = False, orig = []\<rparr>"

lemma storable_unsorted: "storable unsorted_header"
proof -
  have "wf_header unsorted_header" "sorted_keys unsorted_header = [269, 1007]"
    "lay_blobs unsorted_header [269, 1007] [] = [0x61, 0x62, 0, 0, 0, 0, 0, 9]"
    by code_simp+
  then show ?thesis by (simp add: storable_def)
qed

theorem WriteTo_readHeader_witness:
  "\<exists>h f'. readHeader sample_env (reader_of (snd (WriteTo buffer_Write unsorted_header [] 62) @ [7])) '''' 0 False True
      = Ok (h, f') \<and> reader_pending f' = [7] \<and> get_entry h 269 = get_entry unsorted_header 269"
proof -
  let ?f = "reader_of (snd (WriteTo buffer_Write unsorted_header [] 62) @ [7])"
  have 1: "(62 :: int) < RPMTAG_HEADERREGIONS" "fits32 62" by (simp_all add: fits32_def)
  have 2: "reader_pending ?f = snd (WriteTo buffer_Write unsorted_header [] 62) @ [7]" by simp
  have 3: "((62 :: int) = RPMTAG_HEADERSIGNATURES) = True" by simp
  from WriteTo_readHeader [OF storable_unsorted 1 2, of sample_env 0 False]
  obtain h f' where "readHeader sample_env ?f '''' 0 False True = Ok (h, f')" "reader_pending f' = [7]"
    and "\<forall>k. RPMTAG_HEADERREGIONS \<le> k \<longrightarrow> get_entry h k = get_entry unsorted_header k"
    unfolding 3 by blast
  moreover from this(3) have "get_entry h 269 = get_entry unsorted_header 269" by simp
  ultimately show ?thesis by blast
qed

text \<open>
  C23.  The output does not depend on the order in which Go iterates over the map of entries:
  two headers with the same entries are written alike, to any writer.
\<close>

theorem WriteTo_map_order:
  assumes "distinct (map fst (entries h))" "distinct (map fst (entries g))" "set (entries h) = set (entries g)"
  shows "WriteTo wr h w regionTag = WriteTo wr g w regionTag"
proof -
  note same = same_entries [OF assms]
  have "writeTags h regionTag ks ents blobs = writeTags g regionTag ks ents blobs" for ks ents blobs
    by (induction ks arbitrary: ents blobs) (simp_all add: same split: prod.splits option.splits)
  then have "writeTags h regionTag = writeTags g regionTag" by (intro ext)
  then show ?thesis by (simp only: WriteTo_def same)
qed

theorem WriteTo_map_order_witness:
  "WriteTo buffer_Write unsorted_header [] 62
     = WriteTo buffer_Write (unsorted_header\<lparr>entries := rev (entries unsorted_header)\<rparr>) [] 62"
  by (rule WriteTo_map_order) code_simp+

text \<open>
  \<open>size\<close> counts exactly the bytes that \<open>WriteTo\<close> writes (modulo \<open>2 ^ 64\<close>), and both refuse
  exactly the region tags that are neither 0 nor in the region range.
\<close>

theorem header_size_WriteTo:
  "header_size hdr regionTag =
     (if regionTag \<noteq> 0 \<and> RPMTAG_HEADERREGIONS \<le> regionTag then Err InvalidRegionTag
      else Ok (word_of_nat (length (snd (WriteTo buffer_Write hdr [] regionTag)))))"
proof (cases "regionTag \<noteq> 0 \<and> RPMTAG_HEADERREGIONS \<le> regionTag")
  case True
  then show ?thesis by (simp add: header_size_def WriteTo_def)
next
  case False
  then have ok: "regionTag = 0 \<or> regionTag < RPMTAG_HEADERREGIONS" by auto
  from False header_size_bytes [OF ok, of hdr] buf.WriteTo_upd [OF ok, of hdr "[]"] show ?thesis by auto
qed

text \<open>
  C22.  In the written table every tag of an integer type has an offset that is a multiple of
  the alignment of its type, as RPM requires.
\<close>

theorem WriteTo_aligned:
  assumes "storable hdr" "regionTag < RPMTAG_HEADERREGIONS" "fits32 regionTag"
    and "bs = snd (WriteTo buffer_Write hdr [] regionTag)"
    and "t \<in> set (table_tags (unat (hi_Entries (decode_intro (take 16 bs)))) (drop 16 bs))"
    and "typeAlign (ht_DataType t) = Some a"
  shows "0 \<le> ht_Offset t \<and> int a dvd ht_Offset t"
proof -
  let ?ks = "sorted_keys hdr" and ?blobs = "lay_blobs hdr (sorted_keys hdr) []"
  let ?reg = "\<lparr>ht_Tag = to_int32 regionTag, ht_DataType = RPM_BIN_TYPE,
      ht_Offset = to_int32 (int (length ?blobs)), ht_Count = 16\<rparr>"
  let ?ts = "?reg # lay_tags hdr ?ks []"
  have bs: "bs = header_bytes hdr regionTag" using assms(2,4) by (simp add: buf.WriteTo_upd)
  have st: "length ?ks + 1 < 2 ^ 28" "length ?blobs + 16 < 2 ^ 31" "wf_header hdr"
    using assms(1) by (simp_all add: storable_def)
  have n: "unat (hi_Entries (decode_intro (take 16 bs))) = length ?ts"
    using entries_size(2) [OF st(1)] by (simp add: bs header_bytes_def Let_def decode_encode_intro add.commute)
  have fits: "\<forall>t \<in> set ?ts. fits32 (ht_Tag t) \<and> fits32 (ht_DataType t) \<and> fits32 (ht_Offset t) \<and> fits32 (ht_Count t)"
    using lay_tags_fits [OF tags_ok_sorted_keys [OF st(3)]] by (simp add: fits32_def [of 7] fits32_def [of 16])
  have "drop 16 bs = concat (map encode_tag ?ts) @ ?blobs @ region_value regionTag (length ?ks)
      @ header_padding regionTag (length ?blobs)"
    by (simp add: bs header_bytes_def Let_def)
  then have "table_tags (length ?ts) (drop 16 bs) = ?ts" using table_tags_encode [OF fits] by simp
  with assms(5,6) n have "t \<in> set (lay_tags hdr ?ks [])" by (auto simp: typeAlign_def)
  then show ?thesis using lay_tags_aligned [of hdr ?ks "[]" t a] st(2) assms(6) by simp
qed

theorem WriteTo_aligned_witness:
  "\<exists>t. t \<in> set (table_tags 3 (drop 16 (snd (WriteTo buffer_Write unsorted_header [] 62))))
     \<and> ht_Tag t = 1007 \<and> int 4 dvd ht_Offset t"
proof -
  let ?bs = "snd (WriteTo buffer_Write unsorted_header [] 62)"
  let ?t = "\<lparr>ht_Tag = 1007, ht_DataType = 4, ht_Offset = 4, ht_Count = 1\<rparr>"
  have n: "unat (hi_Entries (decode_intro (take 16 ?bs))) = 3" by code_simp
  have t: "?t \<in> set (table_tags 3 (drop 16 ?bs))" by code_simp
  have "int 4 dvd ht_Offset ?t"
    using WriteTo_aligned [OF storable_unsorted _ _ refl, of 62 ?t 4] n t by (simp add: fits32_def typeAlign_def)
  with t show ?thesis by (intro exI [of _ ?t]) simp
qed

text \<open>
  C21.  \<open>DumpSignatureHeader\<close> fails only for a missing lead.  On a package that was read from a
  file, with \<open>sameSize\<close>, the dump has the size of the lead and signature header in that file
  whenever the tags leave room for a reserved-space tag (16 bytes) or fill the area exactly;
  without it, or without room, it is the smallest dump of the tags.
\<close>

theorem DumpSignatureHeader_size:
  assumes "dumpable hdr" "DumpSignatureHeader hdr False = Ok (small, hdr1)"
    and "DumpSignatureHeader hdr True = Ok (bs, hdr2)"
  shows "int (length bs) = (if int (length small) + 16 \<le> OriginalSignatureHeaderSize hdr
           then OriginalSignatureHeaderSize hdr else int (length small))"
proof -
  let ?n = "length (header_bytes (unreserved hdr) RPMTAG_HEADERSIGNATURES)"
  have "length (lead hdr) = 96" using assms(1) by (simp add: dumpable_def)
  moreover have "length small = 96 + ?n"
    using assms(2) calculation by (auto simp: DumpSignatureHeader_eq)
  moreover have "length bs = 96 + (if ?n + 16 \<le> length (orig (sigHeader hdr)) then length (orig (sigHeader hdr)) else ?n)"
    using DumpSignatureHeader_Ok [OF assms(1,3)] calculation(1) by auto
  ultimately show ?thesis by (simp add: OriginalSignatureHeaderSize_def)
qed

definition roomy_rpm_header :: "nat \<Rightarrow> RpmHeader" where
  "roomy_rpm_header n = sample_rpm_header\<lparr>sigHeader := sample_sig_header\<lparr>orig := replicate n 0\<rparr>\<rparr>"

lemma sample_dumpable:
  assumes "sigHeader hdr = sample_sig_header\<lparr>orig := bs\<rparr>" "length (lead hdr) = 96" "length bs < 2 ^ 30" "8 dvd length bs"
  shows "dumpable hdr"
proof -
  let ?s = "sample_sig_header\<lparr>orig := bs\<rparr>"
  have e: "delete_tag ?s 1008 = ?s" and k: "\<forall>k \<in> set (entries sample_sig_header). fst k < 1008"
    by (simp_all add: sample_sig_header_def delete_tag_def)
  have keys: "sorted_keys (sample_sig_header\<lparr>orig := bs\<rparr>) = [273]"
    by (simp add: sorted_keys_def sample_sig_header_def)
  have "length (lay_blobs (sample_sig_header\<lparr>orig := bs\<rparr>) [273] []) = 5"
    by (simp add: entry_at_def get_entry_def sample_sig_header_def align_blobs_def typeAlign_def)
  then have "length (header_bytes (sample_sig_header\<lparr>orig := bs\<rparr>) RPMTAG_HEADERSIGNATURES) = 72"
    by (simp add: length_header_bytes keys header_padding_def)
  moreover have "wf_header sample_sig_header" by code_simp
  then have "wf_header (sigHeader hdr)" using assms(1) by (simp add: wf_header_def)
  ultimately show ?thesis
    using assms e keys k by (simp add: dumpable_def)
qed

theorem DumpSignatureHeader_size_witness:
  "\<exists>bs hdr'. DumpSignatureHeader (roomy_rpm_header 120) True = Ok (bs, hdr')
     \<and> int (length bs) = OriginalSignatureHeaderSize (roomy_rpm_header 120)"
proof -
  let ?r = "roomy_rpm_header 120"
  have lead: "length (lead ?r) = 96" by code_simp
  then have d: "dumpable ?r"
    by (intro sample_dumpable [where bs = "replicate 120 0"]) (simp_all add: roomy_rpm_header_def)
  obtain small hdr1 where s: "DumpSignatureHeader ?r False = Ok (small, hdr1)"
    by (rule DumpSignatureHeader_dumpable [OF d, of False])
  obtain bs hdr2 where b: "DumpSignatureHeader ?r True = Ok (bs, hdr2)"
    by (rule DumpSignatureHeader_dumpable [OF d, of True])
  have "map_result (\<lambda>(bs, h). length bs) (DumpSignatureHeader ?r False) = Ok 168" by code_simp
  with s have "length small = 168" by simp
  moreover have "OriginalSignatureHeaderSize ?r = 216" by code_simp
  ultimately show ?thesis using DumpSignatureHeader_size [OF d s b] b by simp
qed

text \<open>
  C4.  A dump reads back as the same signature header: replacing the lead and signature header
  of a package file by its dump gives a package file with the same lead, the same signature
  tags (apart from regions and reserved space), the same general header, which passes the
  same digest check, and the same payload.
\<close>

theorem DumpSignatureHeader_reread:
  assumes "ReadHeader env f = Ok (hdr, f')" "dumpable hdr"
    and "DumpSignatureHeader hdr sameSize = Ok (bs, hdr')"
    and "reader_pending g = bs @ drop (nat (OriginalSignatureHeaderSize hdr)) (reader_pending f)" "rd_fin g = rd_fin f"
  shows "\<exists>hdr2 g'. ReadHeader env g = Ok (hdr2, g') \<and> lead hdr2 = lead hdr \<and> genHeader hdr2 = genHeader hdr
     \<and> reader_pending g' = reader_pending f' \<and> IsSource hdr2 = IsSource hdr
     \<and> (\<forall>k. RPMTAG_HEADERREGIONS \<le> k \<and> k \<noteq> RESERVED_TAG \<longrightarrow>
          get_entry (sigHeader hdr2) k = get_entry (sigHeader hdr) k)"
proof -
  note p = ReadHeader_Ok [OF assms(1)]
  have "reader_pending g = bs @ orig (genHeader hdr) @ reader_pending f'"
    using assms(4) parse_rpm_Ok [OF p] by (auto simp: OriginalSignatureHeaderSize_def nat_add_distrib)
  from dump_ReadHeader [OF p assms(2,3) refl refl refl refl this assms(5)] show ?thesis
    by (auto simp: IsSource_def)
qed

theorem DumpSignatureHeader_reread_witness:
  "\<exists>bs hdr' hdr2 g'. DumpSignatureHeader sample_rpm_header False = Ok (bs, hdr')
     \<and> ReadHeader sample_env (reader_of (bs @ drop 136 (reader_pending sample_rpm))) = Ok (hdr2, g')
     \<and> genHeader hdr2 = sample_header \<and> reader_pending g' = [1, 2, 3]
     \<and> get_entry (sigHeader hdr2) SIG_SHA256 = get_entry sample_sig_header SIG_SHA256"
proof -
  let ?r = sample_rpm_header
  have len: "length sample_sig_area = 40" by code_simp
  have d: "dumpable ?r"
    by (rule sample_dumpable [where bs = sample_sig_area])
       (simp_all add: sample_rpm_header_def sample_sig_header_def sample_lead_def len)
  obtain bs hdr' where b: "DumpSignatureHeader ?r False = Ok (bs, hdr')"
    by (rule DumpSignatureHeader_dumpable [OF d, of False])
  have "OriginalSignatureHeaderSize ?r = 136" by code_simp
  then have g: "reader_pending (reader_of (bs @ drop 136 (reader_pending sample_rpm)))
      = bs @ drop (nat (OriginalSignatureHeaderSize ?r)) (reader_pending sample_rpm)"
    and fin: "rd_fin (reader_of (bs @ drop 136 (reader_pending sample_rpm))) = rd_fin sample_rpm"
    by (simp_all add: sample_rpm_def)
  from DumpSignatureHeader_reread [OF sample_ReadHeader d b g fin]
  obtain hdr2 g' where "ReadHeader sample_env (reader_of (bs @ drop 136 (reader_pending sample_rpm))) = Ok (hdr2, g')"
      "genHeader hdr2 = genHeader ?r" "reader_pending g' = reader_pending sample_rest"
      "\<forall>k. RPMTAG_HEADERREGIONS \<le> k \<and> k \<noteq> RESERVED_TAG \<longrightarrow>
         get_entry (sigHeader hdr2) k = get_entry (sigHeader ?r) k"
    by blast
  moreover from this(4) have "get_entry (sigHeader hdr2) SIG_SHA256 = get_entry (sigHeader ?r) SIG_SHA256" by simp
  moreover have "reader_pending sample_rest = [1, 2, 3]" by code_simp
  ultimately show ?thesis using b by (simp add: sample_rpm_header_def)
qed

end
