(* ===== verification/Signing.thy ===== *)
theory Signing
  imports Verify WriteHeader
begin

text \<open>
  \<^verbatim>\<open>signatures.go\<close>: signing a package stream, inserting the signatures into the signature
  header and rewriting the package file, in place, through a temporary file or to a pipe.
  \<^verbatim>\<open>fileutil.HasLinks\<close> is here with its only caller.
\<close>

section \<open>Signing a stream\<close>

record SignatureOptions =
  opt_Hash :: crypto_hash
  opt_CreationTime :: int

definition opts_hash :: "SignatureOptions option \<Rightarrow> crypto_hash" where
  "opts_hash opts = (case opts of Some so \<Rightarrow> opt_Hash so | None \<Rightarrow> crypto_SHA256)"

text \<open>\<open>now\<close> is what \<^verbatim>\<open>time.Now()\<close> returns.\<close>

definition opts_creationTime :: "SignatureOptions option \<Rightarrow> int \<Rightarrow> int" where
  "opts_creationTime opts now = (case opts of Some so \<Rightarrow> opt_CreationTime so | None \<Rightarrow> now)"

definition makeSignature :: "pgp_env \<Rightarrow> hasher \<Rightarrow> private_key \<Rightarrow> SignatureOptions option \<Rightarrow> int \<Rightarrow> bytes result" where
  "makeSignature pgp h key opts now =
     (let sg = \<lparr>ps_CreationTime = opts_creationTime opts now,
                ps_PubKeyAlgo = pk_PubKeyAlgo (sk_PublicKey key), ps_Hash = opts_hash opts,
                ps_IssuerKeyId = Some (pk_KeyId (sk_PublicKey key)),
                ps_IssuerFingerprint = None, ps_body = []\<rparr> in
      rbind (sig_Sign pgp sg h key) (\<lambda>signed. sig_Serialize pgp signed))"

definition insertSignature :: "rpmHeader \<Rightarrow> int \<Rightarrow> bytes \<Rightarrow> rpmHeader" where
  "insertSignature sigh tag val =
     set_tag sigh tag \<lparr>dataType = RPM_BIN_TYPE, ecount = to_int32 (int (length val)), contents = val\<rparr>"

definition insertSignatures :: "rpmHeader \<Rightarrow> bytes \<Rightarrow> bytes \<Rightarrow> rpmHeader" where
  "insertSignatures sigh sigPgp sigRsa =
     (let h1 = insertSignature sigh (SIG_PGP - SIGHEADER_TAG_BASE) sigPgp;
          h2 = insertSignature h1 SIG_RSA sigRsa;
          h3 = delete_tag h2 (SIG_GPG - SIGHEADER_TAG_BASE) in
      delete_tag h3 SIG_DSA)"

definition digestForSigning ::
  "crypto_env \<Rightarrow> rpmHeader \<Rightarrow> rpmHeader \<Rightarrow> reader \<Rightarrow> SignatureOptions option \<Rightarrow> (hasher \<times> hasher \<times> reader) result" where
  "digestForSigning env sigh gen payloadReader opts =
     rbind (hash_New env (opts_hash opts)) (\<lambda>genHash.
     rbind (hash_New env (opts_hash opts)) (\<lambda>combinedHash.
     rbind (digestPayload env sigh gen payloadReader [hash_Write (orig gen) combinedHash]) (\<lambda>(ws, f').
     rbind (index ws 0) (\<lambda>combined. Ok (hash_Write (orig gen) genHash, combined, f')))))"

text \<open>The clock is read twice, once for each signature.\<close>

definition SignRpmStream ::
  "crypto_env \<Rightarrow> pgp_env \<Rightarrow> int \<times> int \<Rightarrow> reader \<Rightarrow> private_key \<Rightarrow> SignatureOptions option \<Rightarrow> RpmHeader result" where
  "SignRpmStream env pgp now stream key opts =
     rbind (readSignatureHeader env stream) (\<lambda>(ld, sigh, f1).
     rbind (getHashAndType sigh) (\<lambda>(headerDigestValue, headerDigestType).
     rbind (readHeader env f1 headerDigestValue headerDigestType (isSource sigh) False) (\<lambda>(gen, f2).
     rbind (digestForSigning env sigh gen f2 opts) (\<lambda>(genHash, combinedHash, _).
     rbind (makeSignature pgp combinedHash key opts (fst now)) (\<lambda>sigPgp.
     rbind (makeSignature pgp genHash key opts (snd now)) (\<lambda>sigRsa.
     let sigh' = insertSignatures sigh sigPgp sigRsa in
       Ok \<lparr>lead = ld, sigHeader = sigh', genHeader = gen, rpmIsSource = isSource sigh'\<rparr>))))))"

section \<open>Rewriting the file\<close>

text \<open>
  \<^verbatim>\<open>fileutil.HasLinks\<close> on Unix: the link count is looked up in a \<^verbatim>\<open>*unix.Stat_t\<close>.
\<close>

definition HasLinks :: "FileInfo \<Rightarrow> bool" where
  "HasLinks info = (case info_Sys info of UnixStat nlink \<Rightarrow> nlink \<noteq> 1 | _ \<Rightarrow> False)"

text \<open>The stub of other systems.\<close>

definition HasLinks_windows :: "FileInfo \<Rightarrow> bool" where
  "HasLinks_windows info = False"

text \<open>The information the operating system gives has the other type, so no file ever has links.\<close>

lemma HasLinks_never: "HasLinks (info_of st i) = HasLinks_windows (info_of st i)"
  by (simp add: HasLinks_def HasLinks_windows_def info_of_def)

definition canOverwrite :: "FileInfo \<Rightarrow> FileInfo \<Rightarrow> bool" where
  "canOverwrite ininfo outinfo =
     (if \<not> info_regular outinfo then False
      else if info_ino ininfo \<noteq> info_ino outinfo then False
      else if HasLinks outinfo then False
      else True)"

text \<open>
  The input file: the file behind it, and the stream that reading gives after a \<^verbatim>\<open>Seek\<close> to
  an offset.
\<close>

record infile =
  in_ino :: nat
  in_Seek :: "nat \<Rightarrow> reader result"

definition writeInPlace :: "os_env \<Rightarrow> string \<Rightarrow> RpmHeader \<Rightarrow> os_state \<Rightarrow> bool result \<times> RpmHeader \<times> os_state" where
  "writeInPlace os path header st =
     (case DumpSignatureHeader header True of
        Err e \<Rightarrow> (Err e, header, st)
      | Panic p \<Rightarrow> (Panic p, header, st)
      | Ok (blob, header1) \<Rightarrow>
          if OriginalSignatureHeaderSize header1 \<noteq> int (length blob) then (Ok False, header1, st)
          else
         (case os_OpenFile os path st of
            (Err e, st1) \<Rightarrow> (Err e, header1, st1)
          | (Panic p, st1) \<Rightarrow> (Panic p, header1, st1)
          | (Ok i, st1) \<Rightarrow>
              (case file_Write os i st1 blob of
                 (Some e, st2) \<Rightarrow> (Err (IOError e), header1, snd (os_Close os i st2))
               | (None, st2) \<Rightarrow> (Ok True, header1, snd (os_Close os i st2)))))"

definition write_result :: "io_err option \<times> 'w \<Rightarrow> unit result \<times> 'w" where
  "write_result x = (case x of (None, w) \<Rightarrow> (Ok (), w) | (Some e, w) \<Rightarrow> (Err (IOError e), w))"

definition lift_result :: "'a result \<Rightarrow> 'w \<Rightarrow> 'a result \<times> 'w" where
  "lift_result r w = (r, w)"

definition writeRpm :: "'w write_op \<Rightarrow> infile \<Rightarrow> rpmHeader \<Rightarrow> 'w \<Rightarrow> unit result \<times> 'w" where
  "writeRpm outstream src sigh w =
     ebind (lift_result (in_Seek src 0) w) (\<lambda>f w.
     ebind (case readExact reader_Read reader_steps f 96 of
              ((_, Some e), _) \<Rightarrow> (Err (IOError e), w)
            | ((ld, None), _) \<Rightarrow> (Ok ld, w)) (\<lambda>ld w.
     ebind (write_result (outstream w ld)) (\<lambda>_ w.
     ebind (WriteTo outstream sigh w RPMTAG_HEADERSIGNATURES) (\<lambda>_ w.
     ebind (lift_result (in_Seek src (length ld + length (orig sigh))) w) (\<lambda>f w.
       write_result (reader_CopyTo outstream f w)) id) id) id) id) id"

text \<open>
  The deferred function of the temporary file.  The variable \<open>err\<close> it tests is the one of the
  block that creates the file, so it is not the error that \<open>rewriteRpm\<close> returns.
\<close>

definition finish_temp :: "os_env \<Rightarrow> go_error option \<Rightarrow> string \<times> nat \<Rightarrow> string \<Rightarrow> os_state \<Rightarrow> os_state" where
  "finish_temp os err temp outpath st =
     (if err \<noteq> None then snd (os_Remove os (fst temp) st)
      else
     (let st1 = snd (os_Chmod os (snd temp) st) in
      case os_Close os (snd temp) st1 of
        (Ok _, st2) \<Rightarrow> snd (os_Rename os (fst temp) outpath st2)
      | (_, st2) \<Rightarrow> st2))"

definition write_rename :: "os_env \<Rightarrow> infile \<Rightarrow> string \<Rightarrow> rpmHeader \<Rightarrow> os_state \<Rightarrow> unit result \<times> os_state" where
  "write_rename os src outpath sigh st =
     ebind (os_CreateTemp os (Dir outpath) (Base outpath) st) (\<lambda>temp st1.
       let err = None in
       case writeRpm (file_Write os (snd temp)) src sigh st1 of
         (r, st2) \<Rightarrow> (r, finish_temp os err temp outpath st2)) id"

definition rewriteRpm :: "os_env \<Rightarrow> infile \<Rightarrow> string \<Rightarrow> RpmHeader \<Rightarrow> os_state \<Rightarrow> unit result \<times> RpmHeader \<times> os_state" where
  "rewriteRpm os src outpath header st =
     (let hdr = header\<lparr>sigHeader := delete_tag (sigHeader header) RESERVED_TAG\<rparr>;
          keep = (\<lambda>(r, s). (r, hdr, s)) in
      case os_Fstat os (in_ino src) st of
        (Err e, st1) \<Rightarrow> (Err e, hdr, st1)
      | (Panic p, st1) \<Rightarrow> (Panic p, hdr, st1)
      | (Ok ininfo, st1) \<Rightarrow>
          if outpath = ''-'' then keep (writeRpm (stdout_Write os) src (sigHeader hdr) st1)
          else
         (case os_Lstat os outpath st1 of
            (Ok outinfo, st2) \<Rightarrow>
              if canOverwrite ininfo outinfo then
                (case writeInPlace os outpath hdr st2 of
                   (Err e, hdr1, st3) \<Rightarrow> (Err e, hdr1, st3)
                 | (Panic p, hdr1, st3) \<Rightarrow> (Panic p, hdr1, st3)
                 | (Ok True, hdr1, st3) \<Rightarrow> (Ok (), hdr1, st3)
                 | (Ok False, hdr1, st3) \<Rightarrow>
                     (case write_rename os src outpath (sigHeader hdr1) st3 of (r, st4) \<Rightarrow> (r, hdr1, st4)))
              else if \<not> info_regular outinfo then
                keep (ebind (os_Create os outpath st2) (\<lambda>i st3.
                        case writeRpm (file_Write os i) src (sigHeader hdr) st3 of
                          (r, st4) \<Rightarrow> (r, snd (os_Close os i st4))) id)
              else keep (write_rename os src outpath (sigHeader hdr) st2)
          | (_, st2) \<Rightarrow> keep (write_rename os src outpath (sigHeader hdr) st2)))"

text \<open>\<open>SignRpmFile\<close> reads the input from its start; the header is returned with the error.\<close>

definition SignRpmFile ::
  "crypto_env \<Rightarrow> pgp_env \<Rightarrow> int \<times> int \<Rightarrow> os_env \<Rightarrow> infile \<Rightarrow> reader \<Rightarrow> string \<Rightarrow> private_key
     \<Rightarrow> SignatureOptions option \<Rightarrow> os_state \<Rightarrow> (RpmHeader option \<times> unit result) \<times> os_state" where
  "SignRpmFile env pgp now os src stream outpath key opts st =
     (case SignRpmStream env pgp now stream key opts of
        Err e \<Rightarrow> ((None, Err e), st)
      | Panic p \<Rightarrow> ((None, Panic p), st)
      | Ok header \<Rightarrow>
          (case rewriteRpm os src outpath header st of (r, hdr, st1) \<Rightarrow> ((Some hdr, r), st1)))"

definition RewriteWithSignatures ::
  "crypto_env \<Rightarrow> os_env \<Rightarrow> infile \<Rightarrow> reader \<Rightarrow> string \<Rightarrow> bytes \<Rightarrow> bytes \<Rightarrow> os_state \<Rightarrow> RpmHeader result \<times> os_state" where
  "RewriteWithSignatures env os src stream outpath sigPgp sigRsa st =
     (case ReadHeader env stream of
        Err e \<Rightarrow> (Err e, st)
      | Panic p \<Rightarrow> (Panic p, st)
      | Ok (header, _) \<Rightarrow>
          (case rewriteRpm os src outpath
                  (header\<lparr>sigHeader := insertSignatures (sigHeader header) sigPgp sigRsa\<rparr>) st of
             (r, hdr, st1) \<Rightarrow> (rbind r (\<lambda>_. Ok hdr), st1)))"

section \<open>What signing does to the headers\<close>

lemma get_entry_insertSignatures:
  "get_entry (insertSignatures sigh sigPgp sigRsa) k =
     (if k = SIG_RSA then Some \<lparr>dataType = RPM_BIN_TYPE, ecount = to_int32 (int (length sigRsa)), contents = sigRsa\<rparr>
      else if k = SIG_PGP - SIGHEADER_TAG_BASE
        then Some \<lparr>dataType = RPM_BIN_TYPE, ecount = to_int32 (int (length sigPgp)), contents = sigPgp\<rparr>
      else if k = SIG_DSA \<or> k = SIG_GPG - SIGHEADER_TAG_BASE then None
      else get_entry sigh k)"
  by (simp add: insertSignatures_def insertSignature_def Let_def get_entry_def set_tag_def delete_tag_def
      update_conv' delete_conv')

lemma insertSignatures_simps [simp]:
  "isSource (insertSignatures sigh p r) = isSource sigh" "orig (insertSignatures sigh p r) = orig sigh"
  by (simp_all add: insertSignatures_def insertSignature_def Let_def set_tag_def delete_tag_def)

text \<open>The hash object of \<open>opts\<close> over some bytes.\<close>

abbreviation sign_hash :: "SignatureOptions option \<Rightarrow> bytes \<Rightarrow> hasher" where
  "sign_hash opts bs \<equiv> \<lparr>hs_alg = opts_hash opts, hs_data = bs\<rparr>"

lemma digestForSigning_Ok_iff:
  "digestForSigning env sigh gen f opts = Ok (g, c, f') \<longleftrightarrow>
     hash_available env (opts_hash opts) \<and> rd_fin f = EOF \<and> f' = snd (reader_Copy f)
     \<and> payload_digest_ok env sigh gen (reader_pending f)
     \<and> g = sign_hash opts (orig gen) \<and> c = sign_hash opts (orig gen @ reader_pending f)"
  by (auto simp: digestForSigning_def result_simps digestPayload_Ok_iff hash_Write_def)

lemma SignRpmStream_Ok_iff:
  "SignRpmStream env pgp now f key opts = Ok hdr \<longleftrightarrow>
     (\<exists>hdr0 f2 sigPgp sigRsa. ReadHeader env f = Ok (hdr0, f2) \<and> hash_available env (opts_hash opts)
        \<and> rd_fin f2 = EOF \<and> payload_digest_ok env (sigHeader hdr0) (genHeader hdr0) (reader_pending f2)
        \<and> makeSignature pgp (sign_hash opts (orig (genHeader hdr0) @ reader_pending f2)) key opts (fst now) = Ok sigPgp
        \<and> makeSignature pgp (sign_hash opts (orig (genHeader hdr0))) key opts (snd now) = Ok sigRsa
        \<and> hdr = hdr0\<lparr>sigHeader := insertSignatures (sigHeader hdr0) sigPgp sigRsa\<rparr>)"
proof -
  have "SignRpmStream env pgp now f key opts =
     rbind (ReadHeader env f) (\<lambda>(hdr0, f2).
     rbind (digestForSigning env (sigHeader hdr0) (genHeader hdr0) f2 opts) (\<lambda>(genHash, combinedHash, _).
     rbind (makeSignature pgp combinedHash key opts (fst now)) (\<lambda>sigPgp.
     rbind (makeSignature pgp genHash key opts (snd now)) (\<lambda>sigRsa.
       Ok (hdr0\<lparr>sigHeader := insertSignatures (sigHeader hdr0) sigPgp sigRsa\<rparr>)))))"
    by (simp add: SignRpmStream_def ReadHeader_def rbind_assoc split_def Let_def)
  then show ?thesis by (auto simp: rbind_eq_Ok_iff split_def digestForSigning_Ok_iff)
qed

section \<open>Signing, then verifying\<close>

text \<open>
  What signing relies on of the OpenPGP package: the serialisation of a signature that
  \<open>makeSignature\<close> has filled in and a key has signed reads back as one signature packet, with
  the issuer and hash that were asked for, that matches the key and that the key verifies
  over the same data.
\<close>

definition new_signature :: "private_key \<Rightarrow> crypto_hash \<Rightarrow> int \<Rightarrow> packet_Signature" where
  "new_signature key alg t =
     \<lparr>ps_CreationTime = t, ps_PubKeyAlgo = pk_PubKeyAlgo (sk_PublicKey key), ps_Hash = alg,
      ps_IssuerKeyId = Some (pk_KeyId (sk_PublicKey key)), ps_IssuerFingerprint = None, ps_body = []\<rparr>"

definition signs_as :: "pgp_env \<Rightarrow> private_key \<Rightarrow> crypto_hash \<Rightarrow> hasher \<Rightarrow> bytes \<Rightarrow> bool" where
  "signs_as pgp key alg h bs \<longleftrightarrow>
     (\<exists>t signed. sig_Sign pgp (new_signature key alg t) h key = Ok signed \<and> sig_Serialize pgp signed = Ok bs)"

definition pgp_signs :: "pgp_env \<Rightarrow> private_key \<Rightarrow> crypto_hash \<Rightarrow> bool" where
  "pgp_signs pgp key alg \<longleftrightarrow>
     (\<forall>h bs. hs_alg h = alg \<and> signs_as pgp key alg h bs \<longrightarrow>
        (\<exists>pkt. packet_Read pgp bs = Ok (PacketSignature pkt, []) \<and> ps_Hash pkt = alg
           \<and> ps_IssuerKeyId pkt = Some (pk_KeyId (sk_PublicKey key)) \<and> CheckKeyIdOrFingerprint pgp pkt (sk_PublicKey key)
           \<and> VerifySignature pgp (sk_PublicKey key) h pkt = Ok ()))"

text \<open>
  The key is one of the known ones, which may be many, and the packets that it signs match no
  other known key.
\<close>

definition entity_keys :: "Entity \<Rightarrow> public_key list" where
  "entity_keys e = PrimaryKey e # Subkeys e"

definition key_known :: "pgp_env \<Rightarrow> EntityList \<Rightarrow> private_key \<Rightarrow> crypto_hash \<Rightarrow> bool" where
  "key_known pgp keys key alg \<longleftrightarrow>
     sk_PublicKey key \<in> set (concat (map entity_keys keys)) \<and>
     (\<forall>h bs pkt rest. signs_as pgp key alg h bs \<and> packet_Read pgp bs = Ok (PacketSignature pkt, rest) \<longrightarrow>
        (\<forall>k \<in> set (concat (map entity_keys keys)). CheckKeyIdOrFingerprint pgp pkt k \<longrightarrow> k = sk_PublicKey key))"

lemma findKey_known:
  assumes "key \<in> set (concat (map entity_keys keys))" "CheckKeyIdOrFingerprint pgp pkt key"
    and "\<forall>k \<in> set (concat (map entity_keys keys)). CheckKeyIdOrFingerprint pgp pkt k \<longrightarrow> k = key"
  shows "\<exists>e. findKey pgp pkt keys = Some (e, key)"
  using assms
proof (induction keys)
  case (Cons e keys)
  show ?case
  proof (cases "key \<in> set (entity_keys e)")
    case True
    show ?thesis
    proof (cases "List.find (\<lambda>sub. CheckKeyIdOrFingerprint pgp pkt sub) (Subkeys e)")
      case None
      then have "key \<notin> set (Subkeys e)" using Cons.prems(2) by (auto simp: find_None_iff)
      then have "PrimaryKey e = key" using True by (simp add: entity_keys_def)
      then show ?thesis using Cons.prems(2) by simp
    next
      case (Some k)
      then have "k \<in> set (Subkeys e) \<and> CheckKeyIdOrFingerprint pgp pkt k" by (auto simp: find_Some_iff)
      then have "k = key" using Cons.prems(3) by (auto simp: entity_keys_def)
      then show ?thesis using Some Cons.prems(3) by (auto simp: entity_keys_def)
    qed
  next
    case False
    then have no: "\<not> CheckKeyIdOrFingerprint pgp pkt k" if "k \<in> set (entity_keys e)" for k
      using that Cons.prems(3) by auto
    then have "List.find (\<lambda>sub. CheckKeyIdOrFingerprint pgp pkt sub) (Subkeys e) = None"
      by (auto simp: find_None_iff entity_keys_def)
    moreover have "\<not> CheckKeyIdOrFingerprint pgp pkt (PrimaryKey e)" using no by (simp add: entity_keys_def)
    ultimately have "findKey pgp pkt (e # keys) = findKey pgp pkt keys" by simp
    moreover have "\<exists>e. findKey pgp pkt keys = Some (e, key)"
      using False Cons.prems by (intro Cons.IH) auto
    ultimately show ?thesis by simp
  qed
qed simp

text \<open>A signature made with a known key passes verification over the same bytes.\<close>

lemma makeSignature_validates:
  assumes "makeSignature pgp (sign_hash opts bs) key opts t = Ok blob"
    and "pgp_signs pgp key (opts_hash opts)" "key_known pgp keys key (opts_hash opts)"
  shows "\<exists>sg sg' e. parseSignature pgp blob = Ok sg \<and> sig_Hash sg = opts_hash opts
     \<and> validate pgp (Some keys) (sg\<lparr>HeaderOnly := ho\<rparr>) (sign_hash opts bs) = Ok sg'
     \<and> HeaderOnly sg' = ho \<and> Signer sg' = Some e"
proof -
  have signed: "signs_as pgp key (opts_hash opts) (sign_hash opts bs) blob"
    using assms(1) by (auto simp: makeSignature_def Let_def result_simps signs_as_def new_signature_def)
  then obtain pkt where p: "packet_Read pgp blob = Ok (PacketSignature pkt, [])" "ps_Hash pkt = opts_hash opts"
      "ps_IssuerKeyId pkt = Some (pk_KeyId (sk_PublicKey key))" "CheckKeyIdOrFingerprint pgp pkt (sk_PublicKey key)"
      "VerifySignature pgp (sk_PublicKey key) (sign_hash opts bs) pkt = Ok ()"
    using assms(2) [unfolded pgp_signs_def, rule_format, of "sign_hash opts bs" blob] by auto
  obtain e where "findKey pgp pkt keys = Some (e, sk_PublicKey key)"
    using findKey_known [of "sk_PublicKey key" keys pgp pkt] assms(3) signed p(1,4) unfolding key_known_def by blast
  then show ?thesis
    using p by (simp add: parseSignature_def parseSignatureMaybeV3_defs parseSignatureV4_def validate_def)
qed

lemma payload_digest_ok_cong:
  "GetBytes h (SIG_MD5 - SIGHEADER_TAG_BASE) = GetBytes g (SIG_MD5 - SIGHEADER_TAG_BASE) \<Longrightarrow>
     payload_digest_ok env h gen payload = payload_digest_ok env g gen payload"
  by (simp only: payload_digest_ok_def)

text \<open>
  Headers with the two signatures \<open>SignRpmStream\<close> makes, in front of a payload with its
  digest, pass verification with the key.
\<close>

lemma Verify_signed:
  assumes r: "ReadHeader env g = Ok (hdr2, g')" "rd_fin g' = EOF" "hash_available env (opts_hash opts)"
    and d: "payload_digest_ok env (sigHeader hdr2) (genHeader hdr2) (reader_pending g')"
    and p: "makeSignature pgp (sign_hash opts (orig (genHeader hdr2) @ reader_pending g')) key opts t1 = Ok sigPgp"
      "makeSignature pgp (sign_hash opts (orig (genHeader hdr2))) key opts t2 = Ok sigRsa"
    and k: "pgp_signs pgp key (opts_hash opts)" "key_known pgp keys key (opts_hash opts)"
    and b: "GetBytes (sigHeader hdr2) SIG_RSA = Ok sigRsa"
      "GetBytes (sigHeader hdr2) (SIG_PGP - SIGHEADER_TAG_BASE) = Ok sigPgp"
      "\<not> HasTag (sigHeader hdr2) SIG_DSA" "\<not> HasTag (sigHeader hdr2) (SIG_GPG - SIGHEADER_TAG_BASE)"
  shows "\<exists>sgs. Verify env pgp (Some keys) g = Ok (hdr2, sgs) \<and> map HeaderOnly sgs = [True, False]
     \<and> (\<forall>sg \<in> set sgs. Signer sg \<noteq> None)"
proof -
  let ?h = "sigHeader hdr2" and ?g = "genHeader hdr2" and ?p = "reader_pending g'"
  obtain s1 s1' e1 where s1: "parseSignature pgp sigRsa = Ok s1" "sig_Hash s1 = opts_hash opts"
      "validate pgp (Some keys) (s1\<lparr>HeaderOnly := True\<rparr>) (sign_hash opts (orig ?g)) = Ok s1'"
      "HeaderOnly s1'" "Signer s1' = Some e1"
    using makeSignature_validates [OF p(2) k, of True] by auto
  obtain s2 s2' e2 where s2: "parseSignature pgp sigPgp = Ok s2" "sig_Hash s2 = opts_hash opts"
      "validate pgp (Some keys) (s2\<lparr>HeaderOnly := False\<rparr>) (sign_hash opts (orig ?g @ ?p)) = Ok s2'"
      "\<not> HeaderOnly s2'" "Signer s2' = Some e2"
    using makeSignature_validates [OF p(1) k, of False] by auto
  let ?x1 = "(s1\<lparr>HeaderOnly := True\<rparr>, sign_hash opts (orig ?g))"
  let ?x2 = "(s2\<lparr>HeaderOnly := False\<rparr>, sign_hash opts (orig ?g @ ?p))"
  have has: "HasTag ?h SIG_RSA" "HasTag ?h (SIG_PGP - SIGHEADER_TAG_BASE)"
    using b(1,2) by (auto simp: GetBytes_def HasTag_def split: option.splits)
  have "digested env pgp ?h ?g ?p SIG_RSA ?x1" "digested env pgp ?h ?g ?p (SIG_PGP - SIGHEADER_TAG_BASE) ?x2"
    using s1(1,2) s2(1,2) b(1,2) r(3) by (simp_all add: digested_def signed_bytes_def)
  then have "digestAndVerify env pgp ?h ?g g' = Ok ([?x1, ?x2], snd (reader_Copy g'))"
    using r(2) d has b(3,4) by (simp add: digestAndVerify_Ok_iff)
  moreover have "validate_all pgp (Some keys) [?x1, ?x2] = Ok [s1', s2']" using s1(3) s2(3) by simp
  ultimately have "Verify env pgp (Some keys) g = Ok (hdr2, [s1', s2'])" by (simp add: Verify_ReadHeader r(1))
  then show ?thesis using s1(4,5) s2(4,5) by auto
qed

text \<open>The file with the new signature header in front is read as the signed header and the old payload.\<close>

lemma signed_dump_ReadHeader:
  assumes "ReadHeader env f = Ok (hdr0, f2)"
    and hdr: "hdr = hdr0\<lparr>sigHeader := insertSignatures (sigHeader hdr0) sigPgp sigRsa\<rparr>"
    and "dumpable hdr" "DumpSignatureHeader hdr sameSize = Ok (bs, hdr')"
    and g: "reader_pending g = bs @ drop (nat (OriginalSignatureHeaderSize hdr)) (reader_pending f)" "rd_fin g = rd_fin f"
  shows "\<exists>hdr2 g'. ReadHeader env g = Ok (hdr2, g') \<and> lead hdr2 = lead hdr \<and> genHeader hdr2 = genHeader hdr0
     \<and> reader_pending g' = reader_pending f2 \<and> rd_fin g' = rd_fin f
     \<and> (\<forall>k. RPMTAG_HEADERREGIONS \<le> k \<and> k \<noteq> RESERVED_TAG \<longrightarrow> get_entry (sigHeader hdr2) k = get_entry (sigHeader hdr) k)"
proof -
  note parsed = ReadHeader_Ok [OF assms(1)]
  have "getHashAndType (sigHeader hdr) = getHashAndType (sigHeader hdr0)"
    by (rule getHashAndType_cong) (auto simp: hdr get_entry_insertSignatures)
  then have same: "lead hdr = lead hdr0" "genHeader hdr = genHeader hdr0" "rpmIsSource hdr = rpmIsSource hdr0"
    "getHashAndType (sigHeader hdr) = getHashAndType (sigHeader hdr0)"
    by (simp_all add: hdr)
  have pend: "reader_pending g = bs @ orig (genHeader hdr) @ reader_pending f2"
    using g(1) parse_rpm_Ok [OF parsed] by (auto simp: OriginalSignatureHeaderSize_def nat_add_distrib hdr)
  show ?thesis using dump_ReadHeader [OF parsed assms(3,4) same pend g(2)] same(2) by metis
qed

lemma signed_dump_Verify:
  assumes "SignRpmStream env pgp now f key opts = Ok hdr" "pgp_signs pgp key (opts_hash opts)"
    and "key_known pgp keys key (opts_hash opts)" "dumpable hdr" "DumpSignatureHeader hdr sameSize = Ok (bs, hdr')"
    and g: "reader_pending g = bs @ drop (nat (OriginalSignatureHeaderSize hdr)) (reader_pending f)" "rd_fin g = EOF"
  shows "\<exists>hdr2 g' sgs. Verify env pgp (Some keys) g = Ok (hdr2, sgs) \<and> ReadHeader env g = Ok (hdr2, g')
     \<and> lead hdr2 = lead hdr \<and> genHeader hdr2 = genHeader hdr
     \<and> reader_pending g' = drop (nat (End (GetRange hdr))) (reader_pending f)
     \<and> map HeaderOnly sgs = [True, False] \<and> (\<forall>sg \<in> set sgs. Signer sg \<noteq> None)"
proof -
  obtain hdr0 f2 sigPgp sigRsa where o: "ReadHeader env f = Ok (hdr0, f2)" "hash_available env (opts_hash opts)"
      "rd_fin f2 = EOF" "payload_digest_ok env (sigHeader hdr0) (genHeader hdr0) (reader_pending f2)"
      "makeSignature pgp (sign_hash opts (orig (genHeader hdr0) @ reader_pending f2)) key opts (fst now) = Ok sigPgp"
      "makeSignature pgp (sign_hash opts (orig (genHeader hdr0))) key opts (snd now) = Ok sigRsa"
    and hdr: "hdr = hdr0\<lparr>sigHeader := insertSignatures (sigHeader hdr0) sigPgp sigRsa\<rparr>"
    using assms(1) unfolding SignRpmStream_Ok_iff by blast
  have fin: "rd_fin g = rd_fin f" using g(2) o(3) ReadHeader_fin [OF o(1)] by simp
  obtain hdr2 g' where r: "ReadHeader env g = Ok (hdr2, g')" "lead hdr2 = lead hdr" "genHeader hdr2 = genHeader hdr0"
      "reader_pending g' = reader_pending f2" "rd_fin g' = rd_fin f"
    and ent: "\<forall>k. RPMTAG_HEADERREGIONS \<le> k \<and> k \<noteq> RESERVED_TAG \<longrightarrow>
          get_entry (sigHeader hdr2) k = get_entry (sigHeader hdr) k"
    using signed_dump_ReadHeader [OF o(1) hdr assms(4,5) g(1) fin] by blast
  have ents: "get_entry (sigHeader hdr2) k = get_entry (insertSignatures (sigHeader hdr0) sigPgp sigRsa) k"
    if "k \<in> {SIG_RSA, SIG_DSA, 1002, 1005, 1004}" for k
    using ent that by (auto simp: hdr)
  have md5: "GetBytes (sigHeader hdr2) (SIG_MD5 - SIGHEADER_TAG_BASE) = GetBytes (sigHeader hdr0) (SIG_MD5 - SIGHEADER_TAG_BASE)"
    by (simp add: GetBytes_def ents get_entry_insertSignatures)
  have "\<exists>sgs. Verify env pgp (Some keys) g = Ok (hdr2, sgs) \<and> map HeaderOnly sgs = [True, False]
     \<and> (\<forall>sg \<in> set sgs. Signer sg \<noteq> None)"
  proof (rule Verify_signed [OF r(1) _ o(2) _ _ _ assms(2,3)])
    show "payload_digest_ok env (sigHeader hdr2) (genHeader hdr2) (reader_pending g')"
      using o(4) payload_digest_ok_cong [OF md5] by (simp add: r)
  qed (use o r fin g(2) in \<open>simp_all add: GetBytes_def HasTag_def ents get_entry_insertSignatures\<close>)
  moreover have "reader_pending g' = drop (nat (End (GetRange hdr))) (reader_pending f)"
    using parse_rpm_Ok [OF ReadHeader_Ok [OF o(1)]] by (auto simp: r(4) hdr GetRange_def Let_def nat_add_distrib)
  ultimately show ?thesis using r(1-3) hdr by auto
qed

text \<open>
  A signed package verifies: when \<open>SignRpmStream\<close> returns headers for a package, the file
  in which \<open>DumpSignatureHeader\<close>'s output replaces the lead and signature header is accepted
  by \<open>Verify\<close> with a key list that has the signing key.  It has exactly the two new
  signatures, one over the general header and one over header and payload, both attributed
  to a known signer, and the lead and the general header are unchanged.
\<close>

theorem SignRpmStream_Verify:
  assumes "SignRpmStream env pgp now f key opts = Ok hdr" "pgp_signs pgp key (opts_hash opts)"
    and "key_known pgp keys key (opts_hash opts)" "dumpable hdr" "DumpSignatureHeader hdr sameSize = Ok (bs, hdr')"
    and "reader_pending g = bs @ drop (nat (OriginalSignatureHeaderSize hdr)) (reader_pending f)" "rd_fin g = EOF"
  shows "\<exists>hdr2 sgs. Verify env pgp (Some keys) g = Ok (hdr2, sgs)
     \<and> lead hdr2 = lead hdr \<and> genHeader hdr2 = genHeader hdr
     \<and> map HeaderOnly sgs = [True, False] \<and> (\<forall>sg \<in> set sgs. Signer sg \<noteq> None)"
  using signed_dump_Verify [OF assms] by auto

definition sample_private_key :: private_key where
  "sample_private_key = \<lparr>sk_PublicKey = sample_key, sk_secret = 0\<rparr>"

lemma sample_pgp_signs: "pgp_signs sample_pgp sample_private_key 5"
  unfolding pgp_signs_def signs_as_def
proof (intro allI impI, elim conjE exE, goal_cases)
  case (1 h bs t signed)
  let ?body = "map ((XOR) 7) (hash_Sum sample_env h)"
  show ?case
    using 1
    by (intro exI [of _ "\<lparr>ps_CreationTime = 0, ps_PubKeyAlgo = 1, ps_Hash = 5, ps_IssuerKeyId = Some 7,
          ps_IssuerFingerprint = None, ps_body = ?body\<rparr>"])
       (auto simp: sample_pgp_def sample_private_key_def sample_key_def hash_Sum_def sample_env_def new_signature_def)
qed

text \<open>A list of known keys with another entity, which has a subkey, before the signer.\<close>

definition other_entity :: Entity where
  "other_entity = \<lparr>PrimaryKey = \<lparr>pk_KeyId = 9, pk_Fingerprint = [9], pk_PubKeyAlgo = 1\<rparr>,
     Subkeys = [\<lparr>pk_KeyId = 11, pk_Fingerprint = [11], pk_PubKeyAlgo = 1\<rparr>], PrimaryIdentity = None\<rparr>"

lemma sample_key_known: "key_known sample_pgp [other_entity, sample_entity] sample_private_key 5"
  by (auto simp: key_known_def signs_as_def new_signature_def sample_entity_def other_entity_def entity_keys_def
      sample_private_key_def sample_key_def sample_pgp_def split: list.splits)

lemma signed_rpm_sign:
  "SignRpmStream sample_env sample_pgp (0, 0) signed_rpm sample_private_key None = Ok signed_rpm_header"
proof -
  let ?p = "[7, 5, 0x93, 0x38] :: bytes" and ?r = "[7, 5, 0x93, 0x3b] :: bytes"
  have "makeSignature sample_pgp \<lparr>hs_alg = 5, hs_data = orig sample_header @ [1, 2, 3]\<rparr> sample_private_key None 0 = Ok ?p"
    "makeSignature sample_pgp \<lparr>hs_alg = 5, hs_data = orig sample_header\<rparr> sample_private_key None 0 = Ok ?r"
    "signed_rpm_header = signed_rpm_header\<lparr>sigHeader := insertSignatures (sigHeader signed_rpm_header) ?p ?r\<rparr>"
    "genHeader signed_rpm_header = sample_header"
    "payload_digest_ok sample_env (sigHeader signed_rpm_header) sample_header [1, 2, 3]" "hash_available sample_env 5"
    by code_simp+
  then show ?thesis
    unfolding SignRpmStream_Ok_iff
    by (intro exI [of _ signed_rpm_header] exI [of _ "reader_of [1, 2, 3]"] exI [of _ ?p] exI [of _ ?r])
       (simp add: signed_rpm_ReadHeader opts_hash_def)
qed

lemma signed_rpm_dumpable: "dumpable signed_rpm_header"
proof -
  let ?s = "sigHeader signed_rpm_header"
  have u: "delete_tag ?s RESERVED_TAG = ?s" and wf: "wf_header ?s" and keys: "sorted_keys ?s = [268, 273, 1002, 1004]"
      and blobs: "length (lay_blobs ?s [268, 273, 1002, 1004] []) = 15"
      and len: "length (lead signed_rpm_header) = 96" "length (orig ?s) = 96"
      and lt: "\<forall>k \<in> fst ` set (entries ?s). k < RESERVED_TAG"
    by code_simp+
  then show ?thesis
    by (simp add: dumpable_def length_header_bytes header_padding_def)
qed

theorem SignRpmStream_Verify_witness:
  "\<exists>bs hdr' hdr2 sgs. DumpSignatureHeader signed_rpm_header True = Ok (bs, hdr')
     \<and> Verify sample_env sample_pgp (Some [other_entity, sample_entity]) (reader_of (bs @ sample_area @ [1, 2, 3])) = Ok (hdr2, sgs)
     \<and> map HeaderOnly sgs = [True, False] \<and> genHeader hdr2 = sample_header"
proof -
  obtain bs hdr' where b: "DumpSignatureHeader signed_rpm_header True = Ok (bs, hdr')"
    by (rule DumpSignatureHeader_dumpable [OF signed_rpm_dumpable, of True])
  let ?g = "reader_of (bs @ sample_area @ [1, 2, 3])"
  have "drop (nat (OriginalSignatureHeaderSize signed_rpm_header)) (reader_pending signed_rpm) = sample_area @ [1, 2, 3]"
    by code_simp
  then have g: "reader_pending ?g
      = bs @ drop (nat (OriginalSignatureHeaderSize signed_rpm_header)) (reader_pending signed_rpm)" "rd_fin ?g = EOF"
    by simp_all
  have "opts_hash None = 5" by (simp add: opts_hash_def)
  then have "pgp_signs sample_pgp sample_private_key (opts_hash None)" using sample_pgp_signs by simp
  from SignRpmStream_Verify [OF signed_rpm_sign this sample_key_known [folded \<open>opts_hash None = 5\<close>] signed_rpm_dumpable b g] b show ?thesis
    by (auto simp: signed_rpm_header_def)
qed

section \<open>What rewriting leaves in the file\<close>

context total_writer
begin

lemma writeRpm_upd:
  assumes "in_Seek src 0 = Ok f0" "96 \<le> length (reader_pending f0)"
    and "in_Seek src (96 + length (orig sigh)) = Ok f1"
  shows "writeRpm wr src sigh w =
     (if rd_fin f1 = EOF then Ok () else Err (IOError (rd_fin f1)),
      upd w (take 96 (reader_pending f0) @ header_bytes sigh RPMTAG_HEADERSIGNATURES @ reader_pending f1))"
proof -
  have ld: "length (take 96 (reader_pending f0)) = 96" using assms(2) by simp
  have "WriteTo wr sigh w' RPMTAG_HEADERSIGNATURES = (Ok (), upd w' (header_bytes sigh RPMTAG_HEADERSIGNATURES))" for w'
    by (rule WriteTo_upd) simp
  then show ?thesis
    using assms ld
    by (simp add: writeRpm_def lift_result_def readExact_reader_eq write_result_def write_upd reader_CopyTo_upd upd_append)
qed

end

text \<open>
  On a system whose calls succeed: the package that replaces \<open>outpath\<close>, and the result.  The
  file is replaced whether or not the input could be read to its end.
\<close>

lemma write_rename_ok:
  assumes "os_dir st (nm st (Dir outpath) (Base outpath)) = None"
    and "in_Seek src 0 = Ok f0" "96 \<le> length (reader_pending f0)"
    and "in_Seek src (96 + length (orig sigh)) = Ok f1"
  shows "\<exists>st'. write_rename (os_ok nm) src outpath sigh st
       = (if rd_fin f1 = EOF then Ok () else Err (IOError (rd_fin f1)), st')
     \<and> file_data st' outpath
       = Some (take 96 (reader_pending f0) @ header_bytes sigh RPMTAG_HEADERSIGNATURES @ reader_pending f1)"
proof -
  let ?tmp = "nm st (Dir outpath) (Base outpath)" and ?st1 = "new_file (nm st (Dir outpath) (Base outpath)) st"
  let ?bs = "take 96 (reader_pending f0) @ header_bytes sigh RPMTAG_HEADERSIGNATURES @ reader_pending f1"
  let ?st2 = "put_bytes (os_next st) ?st1 ?bs"
  have temp: "os_CreateTemp (os_ok nm) (Dir outpath) (Base outpath) st = (Ok (?tmp, os_next st), ?st1)"
    using assms(1) by (simp add: os_CreateTemp_def Let_def)
  have wr: "writeRpm (file_Write (os_ok nm) (os_next st)) src sigh ?st1
      = (if rd_fin f1 = EOF then Ok () else Err (IOError (rd_fin f1)), ?st2)"
    by (rule fw.writeRpm_upd [OF assms(2-4)])
  have dir: "os_dir ?st2 ?tmp = Some (os_next st)" by (simp add: new_file_def)
  have data: "ino_data (os_inodes ?st2 (os_next st)) = ?bs"
    by (subst put_bytes_data) (simp_all add: new_file_def)
  show ?thesis
    using dir data
    by (simp add: write_rename_def temp wr finish_temp_def os_Chmod_def os_Close_def os_Rename_def file_data_def)
qed

lemma delete_tag_idem [simp]: "delete_tag (delete_tag h t) t = delete_tag h t"
  by (simp add: delete_tag_def delete_idem)

lemma delete_tag_orig [simp]: "orig (delete_tag h t) = orig h"
  by (simp add: delete_tag_def)

lemma Dump_unreserved:
  "DumpSignatureHeader (hdr\<lparr>sigHeader := delete_tag (sigHeader hdr) RESERVED_TAG\<rparr>) sameSize
     = DumpSignatureHeader hdr sameSize"
  by (simp add: DumpSignatureHeader_def)

lemma dumpable_unreserved:
  "dumpable hdr \<Longrightarrow> dumpable (hdr\<lparr>sigHeader := delete_tag (sigHeader hdr) RESERVED_TAG\<rparr>)"
  by (auto simp: dumpable_def)

lemma Dump_orig:
  "DumpSignatureHeader hdr sameSize = Ok (bs, hdr') \<Longrightarrow> orig (sigHeader hdr') = orig (sigHeader hdr)"
  by (auto simp: DumpSignatureHeader_def reserve_space_def Let_def delete_tag_def set_tag_def result_simps
      split: if_splits prod.splits)

text \<open>The input file of the rewriting functions: a package whose lead is that of the headers.\<close>

definition input_package :: "infile \<Rightarrow> bytes \<Rightarrow> RpmHeader \<Rightarrow> bool" where
  "input_package src package hdr \<longleftrightarrow>
     (\<forall>n. \<exists>f. in_Seek src n = Ok f \<and> reader_pending f = drop n package \<and> rd_fin f = EOF)
     \<and> take 96 package = lead hdr \<and> 96 \<le> length package"

text \<open>The name of the temporary file is not in use.\<close>

definition temp_free :: "(os_state \<Rightarrow> string \<Rightarrow> string \<Rightarrow> string) \<Rightarrow> string \<Rightarrow> os_state \<Rightarrow> bool" where
  "temp_free nm outpath st \<longleftrightarrow> os_dir st (nm st (Dir outpath) (Base outpath)) = None"

text \<open>The file they are to leave: a dump of the headers in front of the rest of the input.\<close>

abbreviation rewritten :: "RpmHeader \<Rightarrow> bytes \<Rightarrow> bytes \<Rightarrow> bytes" where
  "rewritten hdr bs package \<equiv> bs @ drop (nat (OriginalSignatureHeaderSize hdr)) package"

lemma write_rename_package:
  assumes "input_package src package hdr" "temp_free nm outpath st"
    and "orig sigh = orig (sigHeader hdr)"
  shows "\<exists>st'. write_rename (os_ok nm) src outpath sigh st = (Ok (), st')
     \<and> file_data st' outpath
       = Some (rewritten hdr (lead hdr @ header_bytes sigh RPMTAG_HEADERSIGNATURES) package)"
proof -
  obtain f0 f1 where "in_Seek src 0 = Ok f0" "reader_pending f0 = package"
      "in_Seek src (96 + length (orig sigh)) = Ok f1" "reader_pending f1 = drop (96 + length (orig sigh)) package"
      "rd_fin f1 = EOF"
    using assms(1) unfolding input_package_def by (metis drop0)
  with write_rename_ok [of st nm outpath src f0 sigh f1] assms show ?thesis
    by (auto simp: input_package_def temp_free_def OriginalSignatureHeaderSize_def nat_add_distrib add.commute)
qed

text \<open>Through a temporary file, when \<open>outpath\<close> is a new file or another one than the input.\<close>

lemma rewriteRpm_temp:
  assumes "length (lead hdr) = 96" "input_package src package hdr"
    and "temp_free nm outpath st"
    and r: "rewriteRpm (os_ok nm) src outpath hdr st
      = (case write_rename (os_ok nm) src outpath (unreserved hdr) st of
           (r, s) \<Rightarrow> (r, hdr\<lparr>sigHeader := unreserved hdr\<rparr>, s))"
  shows "\<exists>bs hdr1 st'. DumpSignatureHeader hdr False = Ok (bs, hdr1)
     \<and> rewriteRpm (os_ok nm) src outpath hdr st = (Ok (), hdr\<lparr>sigHeader := unreserved hdr\<rparr>, st')
     \<and> file_data st' outpath = Some (rewritten hdr bs package)"
proof -
  have "DumpSignatureHeader hdr False = Ok (lead hdr @ header_bytes (unreserved hdr) RPMTAG_HEADERSIGNATURES,
      hdr\<lparr>sigHeader := unreserved hdr\<rparr>)"
    using assms(1) by (simp add: DumpSignatureHeader_eq)
  moreover obtain st' where "write_rename (os_ok nm) src outpath (unreserved hdr) st = (Ok (), st')"
      "file_data st' outpath
         = Some (rewritten hdr (lead hdr @ header_bytes (unreserved hdr) RPMTAG_HEADERSIGNATURES) package)"
    using write_rename_package [OF assms(2,3), of "unreserved hdr"] by auto
  ultimately show ?thesis using r by simp
qed

text \<open>In place, or through a temporary file if the dump has another size.\<close>

lemma rewriteRpm_same_file:
  assumes "dumpable hdr" "outpath \<noteq> ''-''" "input_package src package hdr"
    and "temp_free nm outpath st"
    and same: "os_dir st outpath = Some (in_ino src)" "ino_regular (os_inodes st (in_ino src))"
      "ino_data (os_inodes st (in_ino src)) = package"
  shows "\<exists>bs hdr1 st'. DumpSignatureHeader hdr True = Ok (bs, hdr1)
     \<and> rewriteRpm (os_ok nm) src outpath hdr st = (Ok (), hdr1, st')
     \<and> file_data st' outpath = Some (rewritten hdr bs package)"
proof -
  let ?hdr = "hdr\<lparr>sigHeader := unreserved hdr\<rparr>" and ?i = "in_ino src"
  have ok: "canOverwrite (info_of st ?i) (info_of st ?i)"
    using same(2) by (simp add: canOverwrite_def info_of_def HasLinks_def)
  note run = rewriteRpm_def os_Fstat_def os_Lstat_def Let_def
  obtain bs hdr1 where d: "DumpSignatureHeader hdr True = Ok (bs, hdr1)"
    by (rule DumpSignatureHeader_dumpable [OF assms(1), of True])
  then have d': "DumpSignatureHeader ?hdr True = Ok (bs, hdr1)" by (simp only: Dump_unreserved)
  obtain sigh where s: "bs = lead hdr @ header_bytes sigh RPMTAG_HEADERSIGNATURES" "hdr1 = hdr\<lparr>sigHeader := sigh\<rparr>"
    using DumpSignatureHeader_Ok [OF assms(1) d] by blast
  have orig: "orig sigh = orig (sigHeader hdr)" using Dump_orig [OF d] s(2) by simp
  then have sz: "OriginalSignatureHeaderSize hdr1 = OriginalSignatureHeaderSize hdr"
    using s(2) by (simp add: OriginalSignatureHeaderSize_def)
  show ?thesis
  proof (cases "OriginalSignatureHeaderSize hdr = int (length bs)")
    case True
    let ?st = "put_bytes ?i (st\<lparr>os_pos := (os_pos st)(?i := 0)\<rparr>) bs"
    have "writeInPlace (os_ok nm) outpath ?hdr st = (Ok True, hdr1, ?st)"
      using d' True same(1) by (simp add: writeInPlace_def sz os_OpenFile_def fw.write_upd os_Close_def)
    then have "rewriteRpm (os_ok nm) src outpath hdr st = (Ok (), hdr1, ?st)"
      using assms(2) same(1) ok by (simp add: run)
    moreover have "file_data ?st outpath = Some (rewritten hdr bs package)"
      using same(1,3) True by (simp add: file_data_def put_bytes_data)
    ultimately show ?thesis using d by blast
  next
    case False
    then have w: "writeInPlace (os_ok nm) outpath ?hdr st = (Ok False, hdr1, st)"
      using d' by (simp add: writeInPlace_def sz)
    obtain st' where st': "write_rename (os_ok nm) src outpath sigh st = (Ok (), st')"
        "file_data st' outpath = Some (rewritten hdr bs package)"
      using write_rename_package [OF assms(3,4) orig] s(1) by auto
    then have "rewriteRpm (os_ok nm) src outpath hdr st = (Ok (), hdr1, st')"
      using assms(2) same(1) ok w s(2) by (simp add: run)
    then show ?thesis using d st'(2) by blast
  qed
qed

lemma rewriteRpm_ok:
  assumes "dumpable hdr" "outpath \<noteq> ''-''" "input_package src package hdr"
    and "temp_free nm outpath st"
    and out: "\<And>i. os_dir st outpath = Some i \<Longrightarrow> ino_regular (os_inodes st i)"
    and "ino_data (os_inodes st (in_ino src)) = package"
  shows "\<exists>s bs hdr1 hdr2 st'. DumpSignatureHeader hdr s = Ok (bs, hdr1)
     \<and> rewriteRpm (os_ok nm) src outpath hdr st = (Ok (), hdr2, st')
     \<and> file_data st' outpath = Some (rewritten hdr bs package)"
proof (cases "os_dir st outpath = Some (in_ino src)")
  case True
  from rewriteRpm_same_file [OF assms(1-4) True out [OF True] assms(6)] show ?thesis by blast
next
  case False
  have "rewriteRpm (os_ok nm) src outpath hdr st
      = (case write_rename (os_ok nm) src outpath (unreserved hdr) st of
           (r, s) \<Rightarrow> (r, hdr\<lparr>sigHeader := unreserved hdr\<rparr>, s))"
    using False assms(2) out
    by (cases "os_dir st outpath")
       (auto simp: rewriteRpm_def os_Fstat_def os_Lstat_def Let_def canOverwrite_def info_of_def)
  moreover have "length (lead hdr) = 96" using assms(1) by (simp add: dumpable_def)
  ultimately show ?thesis using rewriteRpm_temp [OF _ assms(3,4)] by blast
qed

section \<open>Properties\<close>

text \<open>
  C7.  \<open>SignRpmFile\<close> leaves a signed package that verifies: when the package can be signed and
  the system calls succeed, it returns no error, whether \<open>outpath\<close> is the input file itself
  (rewritten in place if the size of the signature header allows it), another regular file
  or a new one; and the file then at \<open>outpath\<close> is accepted by \<open>Verify\<close> with any list of keys that has the
  signing key and no other key that its signatures match, with one signature over the
  header, one over header and payload, and the general header and the payload of the input.
\<close>

theorem SignRpmFile_Verify:
  assumes "SignRpmStream env pgp now stream key opts = Ok hdr" "reader_pending stream = package"
    and "pgp_signs pgp key (opts_hash opts)" "key_known pgp keys key (opts_hash opts)"
    and "dumpable hdr" "input_package src package hdr" "ino_data (os_inodes st (in_ino src)) = package"
    and "outpath \<noteq> ''-''" "\<And>i. os_dir st outpath = Some i \<Longrightarrow> ino_regular (os_inodes st i)"
    and "temp_free nm outpath st"
  shows "\<exists>hdr1 st' file. SignRpmFile env pgp now (os_ok nm) src stream outpath key opts st = ((Some hdr1, Ok ()), st')
     \<and> file_data st' outpath = Some file
     \<and> (\<forall>g. reader_pending g = file \<and> rd_fin g = EOF \<longrightarrow>
          (\<exists>hdr2 g' sgs. Verify env pgp (Some keys) g = Ok (hdr2, sgs) \<and> ReadHeader env g = Ok (hdr2, g')
             \<and> genHeader hdr2 = genHeader hdr \<and> reader_pending g' = drop (nat (End (GetRange hdr))) package
             \<and> map HeaderOnly sgs = [True, False] \<and> (\<forall>sg \<in> set sgs. Signer sg \<noteq> None)))"
proof -
  obtain s bs hdr0 hdr1 st' where d: "DumpSignatureHeader hdr s = Ok (bs, hdr0)"
      and r: "rewriteRpm (os_ok nm) src outpath hdr st = (Ok (), hdr1, st')"
      and f: "file_data st' outpath = Some (rewritten hdr bs package)"
    using rewriteRpm_ok [OF assms(5,8,6,10,9,7)] by blast
  have "\<exists>hdr2 g' sgs. Verify env pgp (Some keys) g = Ok (hdr2, sgs) \<and> ReadHeader env g = Ok (hdr2, g')
      \<and> genHeader hdr2 = genHeader hdr \<and> reader_pending g' = drop (nat (End (GetRange hdr))) package
      \<and> map HeaderOnly sgs = [True, False] \<and> (\<forall>sg \<in> set sgs. Signer sg \<noteq> None)"
    if "reader_pending g = rewritten hdr bs package" "rd_fin g = EOF" for g
    using signed_dump_Verify [OF assms(1,3,4,5) d, unfolded assms(2), OF that] by auto
  with r f show ?thesis using assms(1) by (simp add: SignRpmFile_def)
qed

definition sample_os :: os_state where
  "sample_os = \<lparr>os_dir = [''a.rpm'' \<mapsto> 1],
     os_inodes = (\<lambda>i. \<lparr>ino_regular = True, ino_nlink = 1, ino_data = reader_pending signed_rpm\<rparr>),
     os_next = 2, os_pos = (\<lambda>i. 0), os_stdout = []\<rparr>"

definition sample_infile :: infile where
  "sample_infile = \<lparr>in_ino = 1, in_Seek = (\<lambda>n. Ok (reader_of (drop n (reader_pending signed_rpm))))\<rparr>"

lemma sample_input: "input_package sample_infile (reader_pending signed_rpm) signed_rpm_header"
proof -
  have "take 96 (reader_pending signed_rpm) = lead signed_rpm_header" "length (reader_pending signed_rpm) = 255"
    by code_simp+
  then show ?thesis by (auto simp: input_package_def sample_infile_def)
qed

theorem SignRpmFile_Verify_witness:
  "\<exists>hdr1 st' file hdr2 g' sgs.
     SignRpmFile sample_env sample_pgp (0, 0) (os_ok (\<lambda>st d b. b @ ''.tmp'')) sample_infile signed_rpm ''a.rpm''
       sample_private_key None sample_os = ((Some hdr1, Ok ()), st')
     \<and> file_data st' ''a.rpm'' = Some file
     \<and> Verify sample_env sample_pgp (Some [other_entity, sample_entity]) (reader_of file) = Ok (hdr2, sgs)
     \<and> ReadHeader sample_env (reader_of file) = Ok (hdr2, g') \<and> reader_pending g' = [1, 2, 3]
     \<and> genHeader hdr2 = sample_header \<and> map HeaderOnly sgs = [True, False]"
proof -
  have "opts_hash None = 5" by (simp add: opts_hash_def)
  then have signs: "pgp_signs sample_pgp sample_private_key (opts_hash None)"
      "key_known sample_pgp [other_entity, sample_entity] sample_private_key (opts_hash None)"
    using sample_pgp_signs sample_key_known by simp_all
  have free: "temp_free (\<lambda>st d b. b @ ''.tmp'') ''a.rpm'' sample_os"
    by (simp add: temp_free_def sample_os_def Base_def)
  have rest: "drop (nat (End (GetRange signed_rpm_header))) (reader_pending signed_rpm) = [1, 2, 3]" by code_simp
  have "\<exists>hdr1 st' file.
      SignRpmFile sample_env sample_pgp (0, 0) (os_ok (\<lambda>st d b. b @ ''.tmp'')) sample_infile signed_rpm ''a.rpm''
        sample_private_key None sample_os = ((Some hdr1, Ok ()), st')
      \<and> file_data st' ''a.rpm'' = Some file
      \<and> (\<forall>g. reader_pending g = file \<and> rd_fin g = EOF \<longrightarrow>
           (\<exists>hdr2 g' sgs. Verify sample_env sample_pgp (Some [other_entity, sample_entity]) g = Ok (hdr2, sgs)
              \<and> ReadHeader sample_env g = Ok (hdr2, g') \<and> genHeader hdr2 = genHeader signed_rpm_header
              \<and> reader_pending g' = drop (nat (End (GetRange signed_rpm_header))) (reader_pending signed_rpm)
              \<and> map HeaderOnly sgs = [True, False] \<and> (\<forall>sg \<in> set sgs. Signer sg \<noteq> None)))"
    by (rule SignRpmFile_Verify [OF signed_rpm_sign refl signs signed_rpm_dumpable sample_input _ _ _ free])
       (simp_all add: sample_os_def)
  then show ?thesis unfolding rest by (metis reader_of_simps signed_rpm_header_def RpmHeader.select_convs(3))
qed

text \<open>
  C38.  When the input breaks off with an error while it is copied, \<open>rewriteRpm\<close> returns the
  error, but the incomplete package has replaced the file at \<open>outpath\<close>: the deferred
  clean-up tests an error variable that the failing copy never sets, so it renames the
  temporary file where it should remove it.
\<close>

theorem rewriteRpm_replaces_on_failure:
  assumes "outpath \<noteq> ''-''" "os_dir st outpath = Some i" "ino_regular (os_inodes st i)" "i \<noteq> in_ino src"
    and "temp_free nm outpath st"
    and "in_Seek src 0 = Ok f0" "96 \<le> length (reader_pending f0)"
    and "in_Seek src (96 + length (orig (sigHeader hdr))) = Ok f1" "rd_fin f1 \<noteq> EOF"
  shows "\<exists>hdr1 st'. rewriteRpm (os_ok nm) src outpath hdr st = (Err (IOError (rd_fin f1)), hdr1, st')
     \<and> file_data st' outpath
       = Some (take 96 (reader_pending f0)
           @ header_bytes (delete_tag (sigHeader hdr) RESERVED_TAG) RPMTAG_HEADERSIGNATURES @ reader_pending f1)"
proof -
  obtain st' where "write_rename (os_ok nm) src outpath (unreserved hdr) st = (Err (IOError (rd_fin f1)), st')"
      "file_data st' outpath = Some (take 96 (reader_pending f0)
         @ header_bytes (unreserved hdr) RPMTAG_HEADERSIGNATURES @ reader_pending f1)"
    using write_rename_ok [of st nm outpath src f0 "unreserved hdr" f1] assms(5-9) by (auto simp: temp_free_def)
  then show ?thesis
    using assms(1-4) by (simp add: rewriteRpm_def os_Fstat_def os_Lstat_def Let_def canOverwrite_def info_of_def)
qed

definition broken_infile :: infile where
  "broken_infile = \<lparr>in_ino = 2, in_Seek = (\<lambda>n. Ok \<lparr>rd_chunks = [drop n (take 253 (reader_pending signed_rpm))],
     rd_fin = ErrIO 5, rd_eager = False\<rparr>)\<rparr>"

theorem rewriteRpm_replaces_on_failure_witness:
  "\<exists>hdr1 st' file. rewriteRpm (os_ok (\<lambda>st d b. b @ ''.tmp'')) broken_infile ''a.rpm'' signed_rpm_header sample_os
       = (Err (IOError (ErrIO 5)), hdr1, st')
     \<and> file_data st' ''a.rpm'' = Some file"
proof -
  let ?f = "\<lambda>n. \<lparr>rd_chunks = [drop n (take 253 (reader_pending signed_rpm))], rd_fin = ErrIO 5, rd_eager = False\<rparr>"
  have "length (reader_pending signed_rpm) = 255" by code_simp
  moreover have "reader_pending (?f 0) = take 253 (reader_pending signed_rpm)"
    by (subst reader_pending_def) simp
  ultimately have len: "96 \<le> length (reader_pending (?f 0))" by simp
  have free: "temp_free (\<lambda>st d b. b @ ''.tmp'') ''a.rpm'' sample_os"
    by (simp add: temp_free_def sample_os_def Base_def)
  have seek: "in_Seek broken_infile n = Ok (?f n)" for n by (simp add: broken_infile_def)
  have "\<exists>hdr1 st'. rewriteRpm (os_ok (\<lambda>st d b. b @ ''.tmp'')) broken_infile ''a.rpm'' signed_rpm_header sample_os
       = (Err (IOError (rd_fin (?f (96 + length (orig (sigHeader signed_rpm_header)))))), hdr1, st')
     \<and> file_data st' ''a.rpm'' = Some (take 96 (reader_pending (?f 0))
         @ header_bytes (delete_tag (sigHeader signed_rpm_header) RESERVED_TAG) RPMTAG_HEADERSIGNATURES
         @ reader_pending (?f (96 + length (orig (sigHeader signed_rpm_header)))))"
    by (rule rewriteRpm_replaces_on_failure [where i = 1, OF _ _ _ _ free seek len seek])
       (simp_all add: sample_os_def broken_infile_def)
  then show ?thesis by auto
qed

end
