(* ===== verification/Cpio.thy ===== *)
theory Cpio
  imports Go_IO
begin

text \<open>
  The package \<^verbatim>\<open>cpio\<close> without extraction: \<^verbatim>\<open>header.go\<close> (entry headers), \<^verbatim>\<open>cpio.go\<close>
  (the stream of entries), \<^verbatim>\<open>stream.go\<close> (the contents of one entry) and \<^verbatim>\<open>reader.go\<close>
  (iteration).  The stream is shared: an entry's \<open>file_stream\<close> reads from the very
  \<open>countingReader\<close> of its \<open>CpioStream\<close>, so the operations pass it along.

  Positions count bytes that were read, of which a stream delivers fewer than \<open>2 ^ 63\<close>, so
  they are unbounded integers; sums with a file size, which comes from the archive, wrap.
\<close>

section \<open>Counting reader\<close>

record countingReader =
  cr_stream :: reader
  cr_curPos :: int

definition cr_Read :: "countingReader \<Rightarrow> nat \<Rightarrow> (bytes \<times> io_err option) \<times> countingReader" where
  "cr_Read cr n =
     (case reader_Read (cr_stream cr) n of
        ((bs, e), r') \<Rightarrow> ((bs, e), \<lparr>cr_stream = r', cr_curPos = cr_curPos cr + int (length bs)\<rparr>))"

abbreviation "cr_pending cr \<equiv> reader_pending (cr_stream cr)"
abbreviation "cr_fin cr \<equiv> rd_fin (cr_stream cr)"
abbreviation "cr_steps cr \<equiv> reader_steps (cr_stream cr)"

definition cr_ReadFull :: "countingReader \<Rightarrow> nat \<Rightarrow> (bytes \<times> io_err option) \<times> countingReader" where
  "cr_ReadFull = ReadFull cr_Read (\<lambda>cr. cr_steps cr)"

definition cr_Seek :: "countingReader \<Rightarrow> int \<Rightarrow> int \<Rightarrow> int result \<times> countingReader" where
  "cr_Seek cr offset whence =
     (if whence \<noteq> 1 then (Err SeekWhence, cr)
      else if offset = 0 then (Ok (cr_curPos cr), cr)
      else if offset < 0 then (Panic MakeSliceOutOfRange, cr)
      else (case cr_ReadFull cr (nat offset) of
              ((b, e), cr') \<Rightarrow>
                (case e of
                   Some err \<Rightarrow> if err \<noteq> EOF then (Err (IOError err), cr') else (Ok (int (length b)), cr')
                 | None \<Rightarrow> (Ok (int (length b)), cr'))))"

definition pad :: "int \<Rightarrow> int" where
  "pad num = num + 3 - go_rem (num + 3) 4"

definition pad64 :: "int \<Rightarrow> int" where
  "pad64 num = to_int64 (to_int64 (num + 3) - go_rem (to_int64 (num + 3)) 4)"

section \<open>Entry headers\<close>

abbreviation (input) newcHeaderLength :: int where "newcHeaderLength \<equiv> 110"

definition newcMagic :: bytes where "newcMagic = bytes_of_string ''070701''"
definition strippedMagic :: bytes where "strippedMagic = bytes_of_string ''07070X''"
definition TRAILER :: string where "TRAILER = ''TRAILER!!!''"

record Cpio_newc_header =
  ch_magic :: bytes
  ch_ino :: int
  ch_mode :: int
  ch_uid :: int
  ch_gid :: int
  ch_nlink :: int
  ch_mtime :: int
  ch_filesize :: int
  ch_devmajor :: int
  ch_devminor :: int
  ch_rdevmajor :: int
  ch_rdevminor :: int
  ch_namesize :: int
  ch_check :: int
  ch_stripped :: bool
  ch_filename :: string
  ch_index :: int
  ch_size64 :: int

text \<open>The exported accessors of a header.\<close>

definition Cpio_Magic :: "Cpio_newc_header \<Rightarrow> string" where "Cpio_Magic hdr = string_of_bytes (ch_magic hdr)"
definition Cpio_Ino :: "Cpio_newc_header \<Rightarrow> int" where "Cpio_Ino hdr = ch_ino hdr"
definition Cpio_Mode :: "Cpio_newc_header \<Rightarrow> int" where "Cpio_Mode hdr = ch_mode hdr"
definition Cpio_Uid :: "Cpio_newc_header \<Rightarrow> int" where "Cpio_Uid hdr = ch_uid hdr"
definition Cpio_Gid :: "Cpio_newc_header \<Rightarrow> int" where "Cpio_Gid hdr = ch_gid hdr"
definition Cpio_Nlink :: "Cpio_newc_header \<Rightarrow> int" where "Cpio_Nlink hdr = ch_nlink hdr"
definition Cpio_Mtime :: "Cpio_newc_header \<Rightarrow> int" where "Cpio_Mtime hdr = ch_mtime hdr"
definition Cpio_Filesize :: "Cpio_newc_header \<Rightarrow> int" where "Cpio_Filesize hdr = ch_filesize hdr"
definition Cpio_Devmajor :: "Cpio_newc_header \<Rightarrow> int" where "Cpio_Devmajor hdr = ch_devmajor hdr"
definition Cpio_Devminor :: "Cpio_newc_header \<Rightarrow> int" where "Cpio_Devminor hdr = ch_devminor hdr"
definition Cpio_Rdevmajor :: "Cpio_newc_header \<Rightarrow> int" where "Cpio_Rdevmajor hdr = ch_rdevmajor hdr"
definition Cpio_Rdevminor :: "Cpio_newc_header \<Rightarrow> int" where "Cpio_Rdevminor hdr = ch_rdevminor hdr"
definition Cpio_Namesize :: "Cpio_newc_header \<Rightarrow> int" where "Cpio_Namesize hdr = ch_namesize hdr"
definition Cpio_Check :: "Cpio_newc_header \<Rightarrow> int" where "Cpio_Check hdr = ch_check hdr"
definition Cpio_Filename :: "Cpio_newc_header \<Rightarrow> string" where "Cpio_Filename hdr = ch_filename hdr"
definition Cpio_IsStripped :: "Cpio_newc_header \<Rightarrow> bool" where "Cpio_IsStripped hdr = ch_stripped hdr"
definition Cpio_Index :: "Cpio_newc_header \<Rightarrow> int" where "Cpio_Index hdr = ch_index hdr"
definition Cpio_Filesize64 :: "Cpio_newc_header \<Rightarrow> int" where "Cpio_Filesize64 hdr = ch_size64 hdr"

lemmas Cpio_accessors =
  Cpio_Magic_def Cpio_Ino_def Cpio_Mode_def Cpio_Uid_def Cpio_Gid_def Cpio_Nlink_def Cpio_Mtime_def Cpio_Filesize_def Cpio_Devmajor_def
  Cpio_Devminor_def Cpio_Rdevmajor_def Cpio_Rdevminor_def Cpio_Namesize_def Cpio_Check_def Cpio_Filename_def Cpio_IsStripped_def Cpio_Index_def Cpio_Filesize64_def

text \<open>\<^verbatim>\<open>strconv.ParseInt\<close> in base 16, on eight bytes: an optional sign, then hex digits of either case.\<close>

definition hex_val :: "byte \<Rightarrow> int option" where
  "hex_val b =
     (if 48 \<le> b \<and> b \<le> 57 then Some (uint b - 48)
      else if 97 \<le> b \<and> b \<le> 102 then Some (uint b - 87)
      else if 65 \<le> b \<and> b \<le> 70 then Some (uint b - 55)
      else None)"

primrec parse_digits :: "bytes \<Rightarrow> int \<Rightarrow> int option" where
  "parse_digits [] acc = Some acc"
| "parse_digits (b # bs) acc =
     (case hex_val b of None \<Rightarrow> None | Some d \<Rightarrow> parse_digits bs (16 * acc + d))"

definition ParseInt16 :: "bytes \<Rightarrow> int option" where
  "ParseInt16 bs =
     (case bs of
        [] \<Rightarrow> None
      | b # ds \<Rightarrow>
          let neg = (b = 45); digits = (if b = 43 \<or> b = 45 then ds else bs) in
          if digits = [] then None
          else map_option (\<lambda>n. if neg then - n else n) (parse_digits digits 0))"

definition Read16 :: "countingReader \<Rightarrow> int result \<times> countingReader" where
  "Read16 cr =
     (case cr_ReadFull cr 8 of
        ((_, Some e), cr') \<Rightarrow> (Err (IOError e), cr')
      | ((bb, None), cr') \<Rightarrow>
          (case ParseInt16 bb of None \<Rightarrow> (Err BadNumber, cr') | Some i \<Rightarrow> (Ok i, cr')))"

text \<open>Successive calls of \<open>Read16\<close>, up to the first error.\<close>

primrec Read16s :: "nat \<Rightarrow> countingReader \<Rightarrow> int list result \<times> countingReader" where
  "Read16s 0 cr = (Ok [], cr)"
| "Read16s (Suc k) cr =
     ebind (Read16 cr) (\<lambda>i cr1. ebind (Read16s k cr1) (\<lambda>is cr2. (Ok (i # is), cr2)) id) id"

definition stripped_header :: "int \<Rightarrow> Cpio_newc_header" where
  "stripped_header i =
     \<lparr>ch_magic = strippedMagic, ch_ino = 0, ch_mode = 0, ch_uid = 0, ch_gid = 0, ch_nlink = 0, ch_mtime = 0,
      ch_filesize = 0, ch_devmajor = 0, ch_devminor = 0, ch_rdevmajor = 0, ch_rdevminor = 0,
      ch_namesize = 0, ch_check = 0, ch_stripped = True, ch_filename = '''', ch_index = i, ch_size64 = 0\<rparr>"

definition readStrippedHeader :: "countingReader \<Rightarrow> Cpio_newc_header result \<times> countingReader" where
  "readStrippedHeader cr = ebind (Read16 cr) (\<lambda>i cr1. (Ok (stripped_header i), cr1)) id"

text \<open>The thirteen numbers of a header, in the order they are read.\<close>

definition newc_header :: "int list \<Rightarrow> Cpio_newc_header" where
  "newc_header fs =
     \<lparr>ch_magic = newcMagic, ch_ino = fs ! 0, ch_mode = fs ! 1, ch_uid = fs ! 2, ch_gid = fs ! 3,
      ch_nlink = fs ! 4, ch_mtime = fs ! 5, ch_filesize = fs ! 6, ch_devmajor = fs ! 7, ch_devminor = fs ! 8,
      ch_rdevmajor = fs ! 9, ch_rdevminor = fs ! 10, ch_namesize = fs ! 11, ch_check = fs ! 12,
      ch_stripped = False, ch_filename = '''', ch_index = 0, ch_size64 = fs ! 6\<rparr>"

definition cpio_readHeader :: "countingReader \<Rightarrow> Cpio_newc_header result \<times> countingReader" where
  "cpio_readHeader cr =
     (case cr_ReadFull cr 6 of
        ((_, Some e), cr1) \<Rightarrow> (Err (IOError e), cr1)
      | ((magic, None), cr1) \<Rightarrow>
          if magic = strippedMagic then readStrippedHeader cr1
          else if magic \<noteq> newcMagic then (Err BadCpioMagic, cr1)
          else ebind (Read16s 13 cr1) (\<lambda>fs cr2. (Ok (newc_header fs), cr2)) id)"

section \<open>File contents\<close>

record file_stream =
  fs_start_pos :: int
  fs_curr_pos :: int
  fs_size :: int

definition newFileStream :: "countingReader \<Rightarrow> int \<Rightarrow> file_stream result \<times> countingReader" where
  "newFileStream cr sz =
     ebind (cr_Seek cr 0 1) (\<lambda>pos cr1. (Ok \<lparr>fs_start_pos = pos, fs_curr_pos = 0, fs_size = sz\<rparr>, cr1)) id"

definition fs_Read :: "file_stream \<times> countingReader \<Rightarrow> nat \<Rightarrow> (bytes \<times> io_err option) \<times> file_stream \<times> countingReader" where
  "fs_Read st n =
     (case st of (fs, cr) \<Rightarrow>
      if fs_size fs \<le> fs_curr_pos fs then (([], Some EOF), fs, cr)
      else let pos = cr_curPos cr in
      if fs_start_pos fs + fs_curr_pos fs \<noteq> pos then (([], Some ErrReadOutOfOrder), fs, cr)
      else let n' = (if int n > fs_size fs - fs_curr_pos fs then nat (fs_size fs - fs_curr_pos fs) else n) in
        (case cr_Read cr n' of
           ((bs, e), cr') \<Rightarrow> ((bs, e), fs\<lparr>fs_curr_pos := fs_curr_pos fs + int (length bs)\<rparr>, cr')))"

section \<open>The stream of entries\<close>

record CpioEntry =
  ce_Header :: Cpio_newc_header
  ce_payload :: file_stream

record CpioStream =
  cs_stream :: countingReader
  cs_nextPos :: int
  cs_sizes :: "int list option"

definition NewCpioStream :: "reader \<Rightarrow> CpioStream" where
  "NewCpioStream r =
     \<lparr>cs_stream = \<lparr>cr_stream = r, cr_curPos = 0\<rparr>, cs_nextPos = 0, cs_sizes = None\<rparr>"

definition SetFileSizes :: "CpioStream \<Rightarrow> int list option \<Rightarrow> CpioStream" where
  "SetFileSizes cs sizes = cs\<lparr>cs_sizes := sizes\<rparr>"

text \<open>The payload of an entry that starts at the current position, and the position of the next one.\<close>

definition open_entry :: "CpioStream \<Rightarrow> countingReader \<Rightarrow> Cpio_newc_header \<Rightarrow> int \<Rightarrow> CpioEntry result \<times> CpioStream" where
  "open_entry cs cr hdr sz =
     (let cs1 = cs\<lparr>cs_stream := cr, cs_nextPos := pad64 (to_int64 (cr_curPos cr + sz))\<rparr> in
      ebind (newFileStream cr sz)
        (\<lambda>payload cr'. (Ok \<lparr>ce_Header = hdr, ce_payload = payload\<rparr>, cs1\<lparr>cs_stream := cr'\<rparr>))
        (\<lambda>cr'. cs1\<lparr>cs_stream := cr'\<rparr>))"

definition readStrippedEntry :: "CpioStream \<Rightarrow> countingReader \<Rightarrow> Cpio_newc_header \<Rightarrow> CpioEntry result \<times> CpioStream" where
  "readStrippedEntry cs cr hdr =
     (let cs1 = cs\<lparr>cs_stream := cr\<rparr> in
      case cs_sizes cs of
        None \<Rightarrow> (Err ErrStrippedHeader, cs1)
      | Some sizes \<Rightarrow>
          if int (length sizes) \<le> ch_index hdr then (Err (InvalidCpioIndex (ch_index hdr)), cs1)
          else (case index sizes (ch_index hdr) of
                  Ok sz \<Rightarrow> open_entry cs cr hdr sz
                | Err e \<Rightarrow> (Err e, cs1)
                | Panic p \<Rightarrow> (Panic p, cs1)))"

text \<open>The file name of a regular header: \<open>namesize\<close> bytes, the last of them the terminator.\<close>

definition readFilename :: "countingReader \<Rightarrow> int \<Rightarrow> string result \<times> countingReader" where
  "readFilename cr namesize =
     (if namesize < 0 then (Panic MakeSliceOutOfRange, cr)
      else (case cr_ReadFull cr (nat namesize) of
              ((_, Some e), cr1) \<Rightarrow> (Err (IOError e), cr1)
            | ((buf, None), cr1) \<Rightarrow>
                (case slice buf 0 (int (length buf) - 1) of
                   Ok nm \<Rightarrow> (Ok (string_of_bytes nm), cr1)
                 | Err e \<Rightarrow> (Err e, cr1)
                 | Panic p \<Rightarrow> (Panic p, cr1))))"

definition readNewcEntry :: "CpioStream \<Rightarrow> countingReader \<Rightarrow> Cpio_newc_header \<Rightarrow> CpioEntry result \<times> CpioStream" where
  "readNewcEntry cs cr hdr =
     (let upd = (\<lambda>cr'. cs\<lparr>cs_stream := cr'\<rparr>) in
      ebind (readFilename cr (ch_namesize hdr)) (\<lambda>filename cr1.
        let offset = pad (newcHeaderLength + ch_namesize hdr) - newcHeaderLength - ch_namesize hdr in
        ebind (if 0 < offset then cr_Seek cr1 offset 1 else (Ok 0, cr1)) (\<lambda>_ cr2.
          open_entry cs cr2 (hdr\<lparr>ch_filename := filename\<rparr>) (ch_filesize hdr)) upd) upd)"

definition ReadNextEntry :: "CpioStream \<Rightarrow> CpioEntry result \<times> CpioStream" where
  "ReadNextEntry cs =
     (let cr = cs_stream cs; upd = (\<lambda>cr'. cs\<lparr>cs_stream := cr'\<rparr>) in
      ebind (if cs_nextPos cs \<noteq> cr_curPos cr
             then cr_Seek cr (to_int64 (cs_nextPos cs - cr_curPos cr)) 1 else (Ok 0, cr)) (\<lambda>_ cr1.
      ebind (cpio_readHeader cr1) (\<lambda>hdr cr2.
        if ch_stripped hdr then readStrippedEntry cs cr2 hdr else readNewcEntry cs cr2 hdr) upd) upd)"

section \<open>Iteration\<close>

record Reader =
  r_stream :: CpioStream
  r_cur :: "CpioEntry option"

definition NewReaderWithSizes :: "reader \<Rightarrow> int list option \<Rightarrow> Reader" where
  "NewReaderWithSizes stream sizes =
     \<lparr>r_stream = SetFileSizes (NewCpioStream stream) sizes, r_cur = None\<rparr>"

definition NewReader :: "reader \<Rightarrow> Reader" where
  "NewReader stream = NewReaderWithSizes stream None"

definition Reader_Next :: "Reader \<Rightarrow> Cpio_newc_header result \<times> Reader" where
  "Reader_Next r =
     ebind (ReadNextEntry (r_stream r)) (\<lambda>ent cs.
       if ch_filename (ce_Header ent) = TRAILER then (Err (IOError EOF), r\<lparr>r_stream := cs\<rparr>)
       else (Ok (ce_Header ent), \<lparr>r_stream = cs, r_cur = Some ent\<rparr>)) (\<lambda>cs. r\<lparr>r_stream := cs\<rparr>)"

definition Reader_Read :: "Reader \<Rightarrow> nat \<Rightarrow> (bytes \<times> io_err option) result \<times> Reader" where
  "Reader_Read r n =
     (case r_cur r of
        None \<Rightarrow> (Panic NilDereference, r)
      | Some ent \<Rightarrow>
          (case fs_Read (ce_payload ent, cs_stream (r_stream r)) n of
             (res, fs', cr') \<Rightarrow>
               (Ok res, \<lparr>r_stream = (r_stream r)\<lparr>cs_stream := cr'\<rparr>, r_cur = Some (ent\<lparr>ce_payload := fs'\<rparr>)\<rparr>)))"

section \<open>The counting reader as a reader\<close>

lemma cr_Read_src:
  "cr_Read cr n = ((bs, e), cr') \<Longrightarrow> reader_Read (cr_stream cr) n = ((bs, e), cr_stream cr')"
  by (auto simp: cr_Read_def split: prod.splits)

interpretation cr: tracked_reader cr_Read "\<lambda>cr. cr_pending cr" "\<lambda>cr. cr_fin cr" "\<lambda>cr. cr_steps cr" "\<lambda>_. True"
  cr_curPos "\<lambda>p bs. p + int (length bs)"
proof unfold_locales
  fix s n bs e s'
  assume "cr_Read s n = ((bs, e), s')"
  note src = cr_Read_src [OF this]
  show "cr_pending s = bs @ cr_pending s'" by (rule rd.read_split [OF TrueI src])
  show "length bs \<le> n" by (rule rd.read_le [OF TrueI src])
  show "cr_fin s' = cr_fin s" by (rule rd.read_final [OF TrueI src])
next
  fix s n bs e s'
  assume "cr_Read s n = ((bs, Some e), s')"
  then show "cr_pending s' = [] \<and> e = cr_fin s" by (rule rd.read_err [OF TrueI cr_Read_src])
next
  fix s n bs s'
  assume "cr_Read s n = ((bs, None), s')" and "0 < n"
  then show "cr_steps s' < cr_steps s" by (rule rd.read_steps [OF TrueI cr_Read_src])
next
  fix s n bs e s'
  assume "cr_Read s n = ((bs, e), s')"
  then show "cr_curPos s' = cr_curPos s + int (length bs)" by (auto simp: cr_Read_def split: prod.splits)
qed simp_all

text \<open>A counting reader at position \<open>p\<close>, with the bytes \<open>bs\<close> and then the error \<open>fin\<close> to come.\<close>

definition cr_at :: "int \<Rightarrow> bytes \<Rightarrow> io_err \<Rightarrow> countingReader \<Rightarrow> bool" where
  "cr_at p bs fin cr \<longleftrightarrow> cr_curPos cr = p \<and> cr_pending cr = bs \<and> cr_fin cr = fin"

lemma cr_ReadFull_at:
  assumes "cr_at p (xs @ ys) fin cr" "length xs = n"
  shows "\<exists>cr'. cr_ReadFull cr n = ((xs, None), cr') \<and> cr_at (p + int n) ys fin cr'"
  using assms
  by (auto simp: cr_at_def cr_ReadFull_def intro: cr.ReadFull_all [OF TrueI, of cr n])

lemma cr_ReadFull_short:
  assumes "cr_at p bs fin cr" "length bs < n"
  shows "\<exists>cr'. cr_ReadFull cr n = ((bs, Some (short_err bs fin)), cr') \<and> cr_at (p + int (length bs)) [] fin cr'"
  using assms
  by (auto simp: cr_at_def cr_ReadFull_def intro: cr.ReadFull_all [OF TrueI, of cr n])

lemma cr_Seek_at:
  assumes "cr_at p (xs @ ys) fin cr" "int (length xs) = off"
  shows "\<exists>r cr'. cr_Seek cr off 1 = (Ok r, cr') \<and> cr_at (p + off) ys fin cr'"
proof (cases "off = 0")
  case True
  then show ?thesis using assms by (auto simp: cr_Seek_def cr_at_def)
next
  case False
  then have off: "0 < off" "length xs = nat off" using assms(2) by auto
  from cr_ReadFull_at [OF assms(1) off(2)] off assms(2) show ?thesis
    by (auto simp: cr_Seek_def)
qed

section \<open>Archives\<close>

text \<open>The encoder of the format: eight hex digits per number, padding to multiples of four.\<close>

definition hex_char :: "nat \<Rightarrow> byte" where
  "hex_char d = (if d < 10 then word_of_nat (48 + d) else word_of_nat (87 + d))"

primrec hex_digits :: "nat \<Rightarrow> nat \<Rightarrow> bytes" where
  "hex_digits 0 n = []"
| "hex_digits (Suc k) n = hex_digits k (n div 16) @ [hex_char (n mod 16)]"

lemma length_hex_digits [simp]: "length (hex_digits k n) = k"
  by (induction k arbitrary: n) auto

lemma lt16_cases: "d < 16 \<Longrightarrow> d \<in> {0, 1, 2, 3, 4, 5, 6, 7, 8, 9, 10, 11, 12, 13, 14, 15 :: nat}"
  by (auto simp: lessThan_nat_numeral lessThan_Suc simp flip: lessThan_iff)

lemma hex_char_val: "d < 16 \<Longrightarrow> hex_val (hex_char d) = Some (int d) \<and> hex_char d \<noteq> 43 \<and> hex_char d \<noteq> 45"
  by (drule lt16_cases, elim insertE emptyE) (simp_all add: hex_char_def hex_val_def word_le_nat_alt)

lemma parse_hex_digits:
  "n < 16 ^ k \<Longrightarrow> parse_digits (hex_digits k n @ rest) acc = parse_digits rest (acc * 16 ^ k + int n)"
proof (induction k arbitrary: n acc rest)
  case (Suc k)
  have "n div 16 < 16 ^ k" using Suc.prems by (simp add: less_mult_imp_div_less mult.commute)
  then have "parse_digits (hex_digits (Suc k) n @ rest) acc
      = parse_digits (hex_char (n mod 16) # rest) (acc * 16 ^ k + int (n div 16))"
    using Suc.IH by simp
  also have "\<dots> = parse_digits rest (16 * (acc * 16 ^ k + int (n div 16)) + int (n mod 16))"
    using hex_char_val [of "n mod 16"] by simp
  also have "16 * (acc * 16 ^ k + int (n div 16)) + int (n mod 16) = acc * 16 ^ Suc k + int n"
    by (simp add: zdiv_int zmod_int)
  finally show ?case .
qed simp

lemma ParseInt16_hex:
  assumes "n < 2 ^ 32"
  shows "ParseInt16 (hex_digits 8 n) = Some (int n)"
proof -
  have "parse_digits (hex_digits 8 n) 0 = Some (int n)"
    using parse_hex_digits [of n 8 "[]" 0] assms by simp
  moreover obtain b bs where b: "hex_digits 8 n = b # bs" by (cases "hex_digits 8 n") (auto dest: arg_cong [of _ _ length])
  moreover have "set (hex_digits k n) \<subseteq> hex_char ` {..<16}" for k n by (induction k arbitrary: n) force+
  from this [of 8 n] obtain d where "b = hex_char d" "d < 16" by (auto simp: b)
  then have "b \<noteq> 43 \<and> b \<noteq> 45" using hex_char_val [of d] by simp
  ultimately show ?thesis by (simp add: ParseInt16_def Let_def)
qed

record archive_file =
  af_ino :: nat
  af_mode :: nat
  af_uid :: nat
  af_gid :: nat
  af_nlink :: nat
  af_mtime :: nat
  af_devmajor :: nat
  af_devminor :: nat
  af_rdevmajor :: nat
  af_rdevminor :: nat
  af_check :: nat
  af_name :: string
  af_data :: bytes

definition af_numbers :: "archive_file \<Rightarrow> nat list" where
  "af_numbers f =
     [af_ino f, af_mode f, af_uid f, af_gid f, af_nlink f, af_mtime f, length (af_data f), af_devmajor f,
      af_devminor f, af_rdevmajor f, af_rdevminor f, length (af_name f) + 1, af_check f]"

definition zeros_to_4 :: "nat \<Rightarrow> bytes" where
  "zeros_to_4 n = replicate ((4 - n mod 4) mod 4) 0"

definition newc_start :: "archive_file \<Rightarrow> bytes" where
  "newc_start f =
     newcMagic @ concat (map (hex_digits 8) (af_numbers f)) @ bytes_of_string (af_name f) @ [0]
     @ zeros_to_4 (110 + length (af_name f) + 1)"

definition newc_bytes :: "archive_file \<Rightarrow> bytes" where
  "newc_bytes f = newc_start f @ af_data f @ zeros_to_4 (length (af_data f))"

definition archive_header :: "archive_file \<Rightarrow> Cpio_newc_header" where
  "archive_header f = (newc_header (map int (af_numbers f)))\<lparr>ch_filename := af_name f\<rparr>"

text \<open>What a client sees of the entry of a file.\<close>

lemma archive_header_accessors:
  "Cpio_Magic (archive_header f) = ''070701''" "Cpio_Ino (archive_header f) = int (af_ino f)"
  "Cpio_Mode (archive_header f) = int (af_mode f)" "Cpio_Uid (archive_header f) = int (af_uid f)"
  "Cpio_Gid (archive_header f) = int (af_gid f)" "Cpio_Nlink (archive_header f) = int (af_nlink f)"
  "Cpio_Mtime (archive_header f) = int (af_mtime f)" "Cpio_Filesize (archive_header f) = int (length (af_data f))"
  "Cpio_Devmajor (archive_header f) = int (af_devmajor f)" "Cpio_Devminor (archive_header f) = int (af_devminor f)"
  "Cpio_Rdevmajor (archive_header f) = int (af_rdevmajor f)" "Cpio_Rdevminor (archive_header f) = int (af_rdevminor f)"
  "Cpio_Namesize (archive_header f) = int (length (af_name f)) + 1" "Cpio_Check (archive_header f) = int (af_check f)"
  "Cpio_Filename (archive_header f) = af_name f" "\<not> Cpio_IsStripped (archive_header f)"
  "Cpio_Filesize64 (archive_header f) = Cpio_Filesize (archive_header f)"
  by (simp_all add: Cpio_accessors archive_header_def newc_header_def af_numbers_def newcMagic_def string_of_bytes_def
      bytes_of_string_def) code_simp

definition af_ok :: "archive_file \<Rightarrow> bool" where
  "af_ok f \<longleftrightarrow> list_all (\<lambda>n. n < 2 ^ 32) (af_numbers f)"

lemma mod_4_cases:
  obtains q where "n = 4 * q" | q where "n = 4 * q + 1" | q where "n = 4 * q + 2" | q where "n = 4 * q + (3 :: nat)"
proof -
  have "n mod 4 \<in> {..<4}" by simp
  then consider "n mod 4 = 0" | "n mod 4 = 1" | "n mod 4 = 2" | "n mod 4 = 3"
    by (auto simp: lessThan_nat_numeral lessThan_Suc)
  then show thesis
    using mult_div_mod_eq [of 4 n] that(1) [of "n div 4"] that(2) [of "n div 4"] that(3) [of "n div 4"]
      that(4) [of "n div 4"]
    by cases auto
qed

lemma length_zeros [simp]:
  "length (zeros_to_4 (4 * q)) = 0" "length (zeros_to_4 (4 * q + 1)) = 3"
  "length (zeros_to_4 (4 * q + 2)) = 2" "length (zeros_to_4 (4 * q + 3)) = 1"
  by (simp_all add: zeros_to_4_def mod_Suc)

lemma zeros_dvd: "4 dvd n + length (zeros_to_4 n)"
  by (cases n rule: mod_4_cases) (simp_all only: length_zeros, presburger+)

lemma length_hex_fields [simp]: "length (concat (map (hex_digits 8) ns)) = 8 * length ns"
  by (induction ns) auto

lemma length_newc_start:
  "length (newc_start f) = 110 + length (af_name f) + 1 + length (zeros_to_4 (110 + length (af_name f) + 1))"
  by (simp add: newc_start_def newcMagic_def af_numbers_def)

lemma newc_start_dvd: "4 dvd length (newc_start f)"
  unfolding length_newc_start by (rule zeros_dvd)

lemma newc_bytes_dvd: "4 dvd length (newc_bytes f)"
  using newc_start_dvd [of f] zeros_dvd [of "length (af_data f)"] by (simp add: newc_bytes_def)

subsection \<open>Padding\<close>

lemma pad_nat: "pad (int n) = int (n + length (zeros_to_4 n))"
  by (cases n rule: mod_4_cases) (simp_all only: length_zeros, simp_all add: pad_def)

lemma pad64_nat: "n < 2 ^ 62 \<Longrightarrow> pad64 (int n) = int (n + length (zeros_to_4 n))"
  using pad_nat [of n] zeros_to_4_def [of n] by (simp add: pad64_def pad_def)

lemma zeros_shift: "4 dvd m \<Longrightarrow> zeros_to_4 (m + n) = zeros_to_4 n"
  by (auto simp: zeros_to_4_def elim!: dvdE)

subsection \<open>Reading a header\<close>

lemma Read16_at:
  assumes "cr_at p (hex_digits 8 n @ ys) fin cr" "n < 2 ^ 32"
  shows "\<exists>cr'. Read16 cr = (Ok (int n), cr') \<and> cr_at (p + 8) ys fin cr'"
  using cr_ReadFull_at [OF assms(1), of 8] ParseInt16_hex [OF assms(2)] by (auto simp: Read16_def)

lemma Read16s_at:
  assumes "cr_at p (concat (map (hex_digits 8) ns) @ ys) fin cr" "list_all (\<lambda>n. n < 2 ^ 32) ns"
  shows "\<exists>cr'. Read16s (length ns) cr = (Ok (map int ns), cr') \<and> cr_at (p + 8 * int (length ns)) ys fin cr'"
  using assms
proof (induction ns arbitrary: p cr)
  case (Cons n ns)
  then obtain cr1 where "Read16 cr = (Ok (int n), cr1)" "cr_at (p + 8) (concat (map (hex_digits 8) ns) @ ys) fin cr1"
    using Read16_at [of p n "concat (map (hex_digits 8) ns) @ ys" fin cr] by auto
  with Cons.IH [OF this(2)] Cons.prems(2) show ?case by (auto simp: algebra_simps)
qed simp

lemma magics: "newcMagic \<noteq> strippedMagic" "length newcMagic = 6" "length strippedMagic = 6"
  by (simp_all add: newcMagic_def strippedMagic_def) (simp add: bytes_of_string_def)

lemma cpio_readHeader_at:
  assumes "cr_at p (newcMagic @ concat (map (hex_digits 8) ns) @ ys) fin cr" "list_all (\<lambda>n. n < 2 ^ 32) ns"
    and "length ns = 13"
  shows "\<exists>cr'. cpio_readHeader cr = (Ok (newc_header (map int ns)), cr') \<and> cr_at (p + 110) ys fin cr'"
proof -
  obtain cr1 where 1: "cr_ReadFull cr 6 = ((newcMagic, None), cr1)"
      "cr_at (p + 6) (concat (map (hex_digits 8) ns) @ ys) fin cr1"
    using cr_ReadFull_at [OF assms(1), of 6] by (auto simp: magics)
  from Read16s_at [OF 1(2) assms(2)] obtain cr2 where
    "Read16s 13 cr1 = (Ok (map int ns), cr2)" "cr_at (p + 110) ys fin cr2"
    using assms(3) by (auto simp: add.commute [of _ p])
  with 1(1) show ?thesis by (simp add: cpio_readHeader_def magics del: Read16s.simps)
qed

lemma readFilename_at:
  assumes "cr_at p (bytes_of_string nm @ [0] @ ys) fin cr" "sz = int (length nm) + 1"
  shows "\<exists>cr'. readFilename cr sz = (Ok nm, cr') \<and> cr_at (p + sz) ys fin cr'"
proof -
  have "cr_at p ((bytes_of_string nm @ [0]) @ ys) fin cr" using assms(1) by simp
  moreover have n: "nat sz = length nm + 1" "0 \<le> sz" using assms(2) by auto
  ultimately obtain cr' where "cr_ReadFull cr (nat sz) = ((bytes_of_string nm @ [0], None), cr')"
      "cr_at (p + int (nat sz)) ys fin cr'"
    using cr_ReadFull_at [of p "bytes_of_string nm @ [0]" ys fin cr "nat sz"] by auto
  then show ?thesis using n assms(2) by (simp add: readFilename_def slice_def add.commute)
qed

subsection \<open>The contents of an entry as a reader\<close>

text \<open>
  A \<open>file_stream\<close> in step with its stream reads like a stream of its own: what is left of
  the file, then \<open>EOF\<close>, or the stream's error if the stream ends too early.
\<close>

definition fs_pending :: "file_stream \<times> countingReader \<Rightarrow> bytes" where
  "fs_pending = (\<lambda>(fs, cr). take (nat (fs_size fs - fs_curr_pos fs)) (cr_pending cr))"

definition fs_final :: "file_stream \<times> countingReader \<Rightarrow> io_err" where
  "fs_final = (\<lambda>(fs, cr).
     if nat (fs_size fs - fs_curr_pos fs) \<le> length (cr_pending cr) then EOF else cr_fin cr)"

definition fs_steps :: "file_stream \<times> countingReader \<Rightarrow> nat" where
  "fs_steps = (\<lambda>(fs, cr). cr_steps cr)"

definition fs_in_step :: "file_stream \<times> countingReader \<Rightarrow> bool" where
  "fs_in_step = (\<lambda>(fs, cr). fs_start_pos fs + fs_curr_pos fs = cr_curPos cr
     \<and> (rd_eager (cr_stream cr) \<longrightarrow> cr_fin cr = EOF))"

lemma reader_Read_eager:
  "reader_Read r n = ((bs, e), r') \<Longrightarrow> rd_eager r' = rd_eager r \<and> (bs \<noteq> [] \<and> e \<noteq> None \<longrightarrow> rd_eager r)"
  by (auto simp: reader_Read_def split: list.splits if_splits)

lemma fs_Read_cases:
  assumes "fs_in_step (fs, cr)" "fs_Read (fs, cr) n = ((bs, e), fs', cr')"
  obtains (finished) "fs_size fs \<le> fs_curr_pos fs" "bs = []" "e = Some EOF" "fs' = fs" "cr' = cr"
  | (more) n' where "fs_curr_pos fs < fs_size fs" "cr_Read cr n' = ((bs, e), cr')"
      "fs' = fs\<lparr>fs_curr_pos := fs_curr_pos fs + int (length bs)\<rparr>"
      "n' = min n (nat (fs_size fs - fs_curr_pos fs))"
proof (cases "fs_size fs \<le> fs_curr_pos fs")
  case True
  with assms(2) show thesis by (intro finished) (auto simp: fs_Read_def)
next
  case False
  let ?n = "min n (nat (fs_size fs - fs_curr_pos fs))"
  have m: "(if d < int n then nat d else n) = min n (nat d)" for d
    by (cases "0 \<le> d") (auto simp: min_def le_nat_iff)
  have "fs_Read (fs, cr) n = (case cr_Read cr ?n of
      ((bs, e), cr') \<Rightarrow> ((bs, e), fs\<lparr>fs_curr_pos := fs_curr_pos fs + int (length bs)\<rparr>, cr'))"
    using assms(1) False by (simp add: fs_Read_def fs_in_step_def Let_def m)
  with assms(2) False show thesis by (intro more [of ?n]) (auto split: prod.splits)
qed

lemma fs_Read_laws:
  assumes "fs_in_step (fs, cr)" "fs_Read (fs, cr) n = ((bs, e), fs', cr')"
  shows "fs_in_step (fs', cr') \<and> fs_pending (fs, cr) = bs @ fs_pending (fs', cr') \<and> length bs \<le> n
     \<and> fs_final (fs', cr') = fs_final (fs, cr)
     \<and> (\<forall>err. e = Some err \<longrightarrow> fs_pending (fs', cr') = [] \<and> err = fs_final (fs, cr))
     \<and> (e = None \<and> 0 < n \<longrightarrow> fs_steps (fs', cr') < fs_steps (fs, cr))"
  using assms
proof (cases rule: fs_Read_cases)
  case finished
  then show ?thesis using assms(1) by (simp add: fs_pending_def fs_final_def)
next
  case (more n')
  define k where "k = nat (fs_size fs - fs_curr_pos fs)"
  note split = cr.read_split [OF TrueI more(2)] and le = cr.read_le [OF TrueI more(2)]
    and fin = cr.read_final [OF TrueI more(2)] and track = cr.read_track [OF more(2)]
    and eager = reader_Read_eager [OF cr_Read_src [OF more(2)]]
  have k: "nat (fs_size fs - (fs_curr_pos fs + int (length bs))) = k - length bs" "0 < k" "length bs \<le> k"
    using more(1,4) le by (auto simp: k_def nat_diff_distrib)
  have step: "fs_in_step (fs', cr')"
    using assms(1) eager fin track by (auto simp: fs_in_step_def more(3))
  have pend: "fs_pending (fs', cr') = take (k - length bs) (cr_pending cr')" "fs_pending (fs, cr) = take k (cr_pending cr)"
    by (simp_all add: fs_pending_def more(3) k(1) k_def)
  have final: "fs_final (fs', cr') = fs_final (fs, cr)"
    using split k(3) fin by (simp add: fs_final_def more(3) k(1) le_diff_conv flip: k_def)
  have err: "fs_pending (fs', cr') = [] \<and> err = fs_final (fs, cr)" if "e = Some err" for err
  proof -
    from that more(2) have "cr_Read cr n' = ((bs, Some err), cr')" by simp
    from cr.read_err [OF TrueI this] have *: "cr_pending cr' = []" "err = cr_fin cr" by auto
    moreover have "cr_fin cr = EOF" if "k \<le> length (cr_pending cr)"
    proof -
      have "bs \<noteq> []" using split * that k(2) by auto
      then have "rd_eager (cr_stream cr)" using eager \<open>e = Some err\<close> by simp
      then show ?thesis using assms(1) by (simp add: fs_in_step_def)
    qed
    ultimately show ?thesis by (auto simp: pend fs_final_def simp flip: k_def)
  qed
  have steps: "fs_steps (fs', cr') < fs_steps (fs, cr)" if "e = None" "0 < n"
    using cr.read_steps [OF TrueI, of cr n' bs cr'] more(2,4) that k(2) by (simp add: fs_steps_def k_def)
  show ?thesis using step pend split k(3) le more(4) final err steps by (auto simp: min_def split: if_splits)
qed

interpretation fsr: io_reader fs_Read fs_pending fs_final fs_steps fs_in_step
  by unfold_locales (use fs_Read_laws in \<open>force+\<close>)

subsection \<open>One entry\<close>

text \<open>
  A stream whose next entry starts at position \<open>p\<close> with the bytes \<open>bs\<close>; what is left of
  the current entry, \<open>gap\<close>, comes before it.
\<close>

definition cs_at :: "nat \<Rightarrow> bytes \<Rightarrow> io_err \<Rightarrow> CpioStream \<Rightarrow> bool" where
  "cs_at p bs fin cs \<longleftrightarrow> cs_nextPos cs = int p \<and> 4 dvd p \<and> p < 2 ^ 62 \<and>
     (\<exists>gap. length gap \<le> p \<and> cr_at (int p - int (length gap)) (gap @ bs) fin (cs_stream cs))"

definition skip_gap :: "CpioStream \<Rightarrow> int result \<times> countingReader" where
  "skip_gap cs = (if cs_nextPos cs \<noteq> cr_curPos (cs_stream cs)
     then cr_Seek (cs_stream cs) (to_int64 (cs_nextPos cs - cr_curPos (cs_stream cs))) 1
     else (Ok 0, cs_stream cs))"

lemma skip_gap_at:
  assumes "cs_at p bs fin cs"
  shows "\<exists>r cr. skip_gap cs = (Ok r, cr) \<and> cr_at (int p) bs fin cr"
proof -
  from assms obtain gap where gap: "length gap \<le> p" "cr_at (int p - int (length gap)) (gap @ bs) fin (cs_stream cs)"
      and p: "cs_nextPos cs = int p" "p < 2 ^ 62"
    by (auto simp: cs_at_def)
  have pos: "cr_curPos (cs_stream cs) = int p - int (length gap)" using gap(2) by (simp add: cr_at_def)
  show ?thesis
  proof (cases "gap = []")
    case True
    then show ?thesis using gap(2) pos p by (simp add: skip_gap_def)
  next
    case False
    have "to_int64 (cs_nextPos cs - cr_curPos (cs_stream cs)) = int (length gap)"
      using pos p gap(1) by simp
    with cr_Seek_at [OF gap(2) refl] False show ?thesis
      using pos p by (auto simp: skip_gap_def)
  qed
qed

lemma open_entry_eq:
  "open_entry cs cr hdr sz =
     (Ok \<lparr>ce_Header = hdr, ce_payload = \<lparr>fs_start_pos = cr_curPos cr, fs_curr_pos = 0, fs_size = sz\<rparr>\<rparr>,
      cs\<lparr>cs_stream := cr, cs_nextPos := pad64 (to_int64 (cr_curPos cr + sz))\<rparr>)"
  by (simp add: open_entry_def newFileStream_def cr_Seek_def Let_def)

lemma readNewcEntry_at:
  assumes "cr_at (int p) (bytes_of_string (af_name f) @ [0] @ zeros_to_4 (110 + length (af_name f) + 1) @ ys) fin cr"
    and "hdr = newc_header (map int (af_numbers f))"
  shows "\<exists>cr'. readNewcEntry cs cr hdr = open_entry cs cr' (archive_header f) (int (length (af_data f)))
     \<and> cr_at (int (p + length (af_name f) + 1 + length (zeros_to_4 (110 + length (af_name f) + 1)))) ys fin cr'"
proof -
  let ?n = "length (af_name f) + 1"
  let ?z = "zeros_to_4 (110 + length (af_name f) + 1)"
  have hdr: "ch_namesize hdr = int ?n" "ch_filesize hdr = int (length (af_data f))"
      "hdr\<lparr>ch_filename := af_name f\<rparr> = archive_header f"
    by (simp_all add: assms(2) newc_header_def af_numbers_def archive_header_def)
  obtain cr1 where 1: "readFilename cr (int ?n) = (Ok (af_name f), cr1)" "cr_at (int p + int ?n) (?z @ ys) fin cr1"
    using readFilename_at [of "int p" "af_name f" "?z @ ys" fin cr "int ?n"] assms(1) by auto
  have off: "pad (newcHeaderLength + int ?n) - newcHeaderLength - int ?n = int (length ?z)"
    using pad_nat [of "110 + ?n"] by (simp add: add.assoc)
  obtain r cr2 where 2: "(if 0 < int (length ?z) then cr_Seek cr1 (int (length ?z)) 1 else (Ok 0, cr1)) = (Ok r, cr2)"
      "cr_at (int p + int ?n + int (length ?z)) ys fin cr2"
    using cr_Seek_at [OF 1(2) refl] 1(2) by (cases "?z = []") auto
  have "readNewcEntry cs cr hdr = open_entry cs cr2 (archive_header f) (int (length (af_data f)))"
    unfolding readNewcEntry_def Let_def hdr(1) off 1(1) ebind_simps 2(1) hdr(2,3) ..
  then show ?thesis using 2(2) by (intro exI [of _ cr2]) (simp add: algebra_simps)
qed

lemma ReadNextEntry_newc:
  assumes "cs_at p (newc_bytes f @ rest) fin cs" "af_ok f" "p + length (newc_bytes f) < 2 ^ 62"
  shows "\<exists>cr. ReadNextEntry cs =
       (Ok \<lparr>ce_Header = archive_header f,
            ce_payload = \<lparr>fs_start_pos = int (p + length (newc_start f)), fs_curr_pos = 0,
                          fs_size = int (length (af_data f))\<rparr>\<rparr>,
        cs\<lparr>cs_stream := cr, cs_nextPos := int (p + length (newc_bytes f))\<rparr>)
     \<and> cr_at (int (p + length (newc_start f))) (af_data f @ zeros_to_4 (length (af_data f)) @ rest) fin cr"
proof -
  let ?tail = "af_data f @ zeros_to_4 (length (af_data f)) @ rest"
  obtain r cr1 where 1: "skip_gap cs = (Ok r, cr1)" "cr_at (int p) (newc_bytes f @ rest) fin cr1"
    using skip_gap_at [OF assms(1)] by blast
  let ?body = "bytes_of_string (af_name f) @ [0] @ zeros_to_4 (110 + length (af_name f) + 1) @ ?tail"
  have "newc_bytes f @ rest = newcMagic @ concat (map (hex_digits 8) (af_numbers f)) @ ?body"
    by (simp add: newc_bytes_def newc_start_def)
  moreover have "length (af_numbers f) = 13" by (simp add: af_numbers_def)
  ultimately obtain cr2 where 2: "cpio_readHeader cr1 = (Ok (newc_header (map int (af_numbers f))), cr2)"
      "cr_at (int p + 110) ?body fin cr2"
    using cpio_readHeader_at [of "int p" "af_numbers f" ?body fin cr1] 1(2) assms(2) by (auto simp: af_ok_def)
  have "cr_at (int (p + 110)) ?body fin cr2" using 2(2) by simp
  have at: "p + 110 + length (af_name f) + 1 + length (zeros_to_4 (110 + length (af_name f) + 1))
      = p + length (newc_start f)" by (simp add: length_newc_start)
  from readNewcEntry_at [OF \<open>cr_at (int (p + 110)) ?body fin cr2\<close> refl, of cs] obtain cr3 where 3:
    "readNewcEntry cs cr2 (newc_header (map int (af_numbers f)))
       = open_entry cs cr3 (archive_header f) (int (length (af_data f)))"
    "cr_at (int (p + length (newc_start f))) ?tail fin cr3"
    unfolding at by blast
  have pos: "cr_curPos cr3 = int (p + length (newc_start f))" using 3(2) by (simp add: cr_at_def)
  have len: "length (newc_bytes f) = length (newc_start f) + length (af_data f) + length (zeros_to_4 (length (af_data f)))"
    by (simp add: newc_bytes_def)
  have "4 dvd p + length (newc_start f)" using assms(1) newc_start_dvd [of f] by (simp add: cs_at_def)
  then have z: "zeros_to_4 (p + length (newc_start f) + length (af_data f)) = zeros_to_4 (length (af_data f))"
    by (rule zeros_shift)
  have small: "p + length (newc_start f) + length (af_data f) < 2 ^ 62" using assms(3) len by simp
  have "pad64 (to_int64 (cr_curPos cr3 + int (length (af_data f)))) = int (p + length (newc_bytes f))"
    using pad64_nat [OF small] small len z by (simp add: pos add.assoc)
  moreover have "ReadNextEntry cs = open_entry cs cr3 (archive_header f) (int (length (af_data f)))"
    using 1(1) 2(1) 3(1) by (simp add: ReadNextEntry_def Let_def skip_gap_def newc_header_def)
  ultimately show ?thesis using 3(2) pos by (intro exI [of _ cr3]) (simp add: open_entry_eq)
qed

subsection \<open>Iteration\<close>

text \<open>
  A client of \<open>Reader\<close> may read as much or as little of the current file as it likes, in
  pieces of any size, before it asks for the next one.
\<close>

inductive client_reads :: "Reader \<Rightarrow> Reader \<Rightarrow> bool" where
  client_reads_refl: "client_reads r r"
| client_reads_step: "client_reads r r1 \<Longrightarrow> Reader_Read r1 n = (Ok res, r2) \<Longrightarrow> client_reads r r2"

text \<open>
  A reader whose next entry is at position \<open>p\<close>: the current file, if it can still be read,
  ends before that position.
\<close>

definition reader_at :: "nat \<Rightarrow> bytes \<Rightarrow> io_err \<Rightarrow> Reader \<Rightarrow> bool" where
  "reader_at p bs fin r \<longleftrightarrow> cs_at p bs fin (r_stream r) \<and>
     (\<forall>ent. r_cur r = Some ent \<longrightarrow>
        (let fs = ce_payload ent in
         fs_size fs \<le> fs_curr_pos fs
         \<or> fs_start_pos fs + fs_curr_pos fs \<noteq> cr_curPos (cs_stream (r_stream r))
         \<or> fs_start_pos fs + fs_size fs \<le> int p))"

lemma fs_Read_moves:
  assumes "fs_Read (fs, cr) n = ((bs, e), fs', cr')"
  shows "(fs' = fs \<and> cr' = cr) \<or>
     (fs_start_pos fs + fs_curr_pos fs = cr_curPos cr \<and> cr_pending cr = bs @ cr_pending cr' \<and> cr_fin cr' = cr_fin cr
      \<and> cr_curPos cr' = cr_curPos cr + int (length bs) \<and> int (length bs) \<le> fs_size fs - fs_curr_pos fs
      \<and> fs' = fs\<lparr>fs_curr_pos := fs_curr_pos fs + int (length bs)\<rparr>)"
proof (cases "fs_size fs \<le> fs_curr_pos fs \<or> fs_start_pos fs + fs_curr_pos fs \<noteq> cr_curPos cr")
  case True
  then show ?thesis using assms by (auto simp: fs_Read_def Let_def split: if_splits)
next
  case False
  define n' where "n' = (if int n > fs_size fs - fs_curr_pos fs then nat (fs_size fs - fs_curr_pos fs) else n)"
  have rd: "cr_Read cr n' = ((bs, e), cr')" "fs' = fs\<lparr>fs_curr_pos := fs_curr_pos fs + int (length bs)\<rparr>"
    using assms False by (auto simp: fs_Read_def Let_def n'_def split: prod.splits)
  have "int n' \<le> fs_size fs - fs_curr_pos fs" using False by (auto simp: n'_def)
  with cr.read_le [OF TrueI rd(1)] have "int (length bs) \<le> fs_size fs - fs_curr_pos fs" by linarith
  then show ?thesis
    using False rd(2) cr.read_split [OF TrueI rd(1)] cr.read_final [OF TrueI rd(1)] cr.read_track [OF rd(1)] by simp
qed

lemma append_suffix_at:
  assumes "xs @ ys = gap @ bs" "length xs \<le> length gap"
  obtains gap' where "gap = xs @ gap'" "ys = gap' @ bs"
  using assms by (auto simp: append_eq_append_conv2)

lemma Reader_Read_at:
  assumes "reader_at p bs fin r" "Reader_Read r n = (Ok res, r')"
  shows "reader_at p bs fin r'"
proof -
  from assms(2) obtain ent fs' cr' where ent: "r_cur r = Some ent"
      and rd: "fs_Read (ce_payload ent, cs_stream (r_stream r)) n = (res, fs', cr')"
      and r': "r' = \<lparr>r_stream = (r_stream r)\<lparr>cs_stream := cr'\<rparr>, r_cur = Some (ent\<lparr>ce_payload := fs'\<rparr>)\<rparr>"
    by (auto simp: Reader_Read_def split: option.splits prod.splits)
  let ?fs = "ce_payload ent" and ?cr = "cs_stream (r_stream r)"
  obtain ds e where res: "res = (ds, e)" by (cases res)
  note moves = fs_Read_moves [OF rd [unfolded res]]
  show ?thesis
  proof (cases "fs' = ?fs \<and> cr' = ?cr")
    case True
    then have "cs_stream (r_stream r') = cs_stream (r_stream r)" "cs_nextPos (r_stream r') = cs_nextPos (r_stream r)"
        "r_cur r' = Some ent" using r' by simp_all
    then show ?thesis using assms(1) ent by (simp add: reader_at_def cs_at_def)
  next
    case False
    with moves have m: "fs_start_pos ?fs + fs_curr_pos ?fs = cr_curPos ?cr" "cr_pending ?cr = ds @ cr_pending cr'"
      "cr_fin cr' = cr_fin ?cr" "cr_curPos cr' = cr_curPos ?cr + int (length ds)"
      "int (length ds) \<le> fs_size ?fs - fs_curr_pos ?fs"
      "fs' = ?fs\<lparr>fs_curr_pos := fs_curr_pos ?fs + int (length ds)\<rparr>" by auto
    have fs: "fs_size ?fs \<le> fs_curr_pos ?fs \<or> fs_start_pos ?fs + fs_size ?fs \<le> int p"
      using assms(1) ent m(1) by (auto simp: reader_at_def Let_def)
    from assms(1) obtain gap where gap: "length gap \<le> p" "cr_at (int p - int (length gap)) (gap @ bs) fin ?cr"
        and p: "cs_nextPos (r_stream r) = int p" "4 dvd p" "p < 2 ^ 62"
      by (auto simp: reader_at_def cs_at_def)
    have "length ds \<le> length gap" using fs m(1,5) gap(2) by (auto simp: cr_at_def)
    moreover have "ds @ cr_pending cr' = gap @ bs" using m(2) gap(2) by (simp add: cr_at_def)
    ultimately obtain gap' where g: "gap = ds @ gap'" "cr_pending cr' = gap' @ bs"
      using append_suffix_at [of ds "cr_pending cr'" gap bs] by blast
    then have "cr_at (int p - int (length gap')) (gap' @ bs) fin cr'"
      using gap m(3,4) by (simp add: cr_at_def)
    moreover have "length gap' \<le> p" using gap(1) g(1) by simp
    ultimately have "cs_at p bs fin (r_stream r')" using p r' by (auto simp: cs_at_def)
    moreover have "fs_size fs' \<le> fs_curr_pos fs' \<or> fs_start_pos fs' + fs_size fs' \<le> int p"
      using fs m(5,6) by auto
    ultimately show ?thesis using r' by (auto simp: reader_at_def Let_def)
  qed
qed

lemma client_reads_at: "client_reads r r' \<Longrightarrow> reader_at p bs fin r \<Longrightarrow> reader_at p bs fin r'"
  by (induction rule: client_reads.induct) (auto intro: Reader_Read_at)

text \<open>Where a stream is after it has opened an entry with the contents \<open>data\<close> and the padding \<open>z\<close>.\<close>

lemma cs_at_opened:
  assumes "cr_at (int s) (data @ z @ rest) fin cr" "q = s + length data + length z" "4 dvd q" "q < 2 ^ 62"
  shows "cs_at q rest fin (cs\<lparr>cs_stream := cr, cs_nextPos := int q\<rparr>)"
proof -
  have "cr_at (int q - int (length (data @ z))) ((data @ z) @ rest) fin cr" using assms(1,2) by simp
  moreover have "length (data @ z) \<le> q" using assms(2) by simp
  ultimately have "\<exists>gap. length gap \<le> q \<and> cr_at (int q - int (length gap)) (gap @ rest) fin cr" by blast
  then show ?thesis using assms(3,4) by (simp add: cs_at_def)
qed

text \<open>
  The stream has just opened an entry with the header \<open>hdr\<close> and the contents \<open>data\<close>; \<open>q\<close> is the
  position of the next entry.
\<close>

definition opened ::
  "nat \<Rightarrow> Cpio_newc_header \<Rightarrow> bytes \<Rightarrow> bytes \<Rightarrow> io_err \<Rightarrow> CpioEntry \<Rightarrow> CpioStream \<Rightarrow> bool" where
  "opened q hdr data rest fin ent cs \<longleftrightarrow>
     ce_Header ent = hdr \<and> reader_at q rest fin \<lparr>r_stream = cs, r_cur = Some ent\<rparr>
     \<and> fs_curr_pos (ce_payload ent) = 0 \<and> fs_size (ce_payload ent) = int (length data)
     \<and> (\<exists>z. cr_at (fs_start_pos (ce_payload ent)) (data @ z @ rest) fin (cs_stream cs))"

lemma opened_intro:
  assumes "cr_at (int s) (data @ z @ rest) fin cr" "q = s + length data + length z" "4 dvd q" "q < 2 ^ 62"
    and "ent = \<lparr>ce_Header = hdr, ce_payload = \<lparr>fs_start_pos = int s, fs_curr_pos = 0, fs_size = int (length data)\<rparr>\<rparr>"
  shows "opened q hdr data rest fin ent (cs\<lparr>cs_stream := cr, cs_nextPos := int q\<rparr>)"
  using assms(1,2) cs_at_opened [OF assms(1-4), of cs] by (auto simp: opened_def reader_at_def Let_def assms(5))

lemma ReadNextEntry_opened:
  assumes "cs_at p (newc_bytes f @ rest) fin cs" "af_ok f" "p + length (newc_bytes f) < 2 ^ 62"
  shows "\<exists>ent cs'. ReadNextEntry cs = (Ok ent, cs') \<and> opened (p + length (newc_bytes f)) (archive_header f) (af_data f) rest fin ent cs'
     \<and> cs_sizes cs' = cs_sizes cs"
proof -
  let ?p = "p + length (newc_bytes f)" and ?s = "p + length (newc_start f)"
  let ?z = "zeros_to_4 (length (af_data f))"
  let ?fs = "\<lparr>fs_start_pos = int ?s, fs_curr_pos = 0, fs_size = int (length (af_data f))\<rparr>"
  let ?ent = "\<lparr>ce_Header = archive_header f, ce_payload = ?fs\<rparr>"
  obtain cr where rn: "ReadNextEntry cs = (Ok ?ent, cs\<lparr>cs_stream := cr, cs_nextPos := int ?p\<rparr>)"
      and at: "cr_at (int ?s) (af_data f @ ?z @ rest) fin cr"
    using ReadNextEntry_newc [OF assms] by blast
  have len: "?p = ?s + length (af_data f) + length ?z" by (simp add: newc_bytes_def)
  have "4 dvd ?p" using assms(1) newc_bytes_dvd [of f] by (simp add: cs_at_def)
  from opened_intro [OF at len this assms(3) refl, of _ cs] rn show ?thesis
    by (intro exI [of _ ?ent] exI [of _ "cs\<lparr>cs_stream := cr, cs_nextPos := int ?p\<rparr>"]) simp
qed

lemma opened_payload:
  assumes "opened q hdr data rest fin ent cs"
  shows "fs_pending (ce_payload ent, cs_stream cs) = data" "fs_final (ce_payload ent, cs_stream cs) = EOF"
    "fs_start_pos (ce_payload ent) + fs_curr_pos (ce_payload ent) = cr_curPos (cs_stream cs)"
    "cr_fin (cs_stream cs) = fin" "cs_at q rest fin cs"
    "reader_at q rest fin \<lparr>r_stream = cs, r_cur = Some ent\<rparr>" "ce_Header ent = hdr"
  using assms by (auto simp: opened_def cr_at_def fs_pending_def fs_final_def reader_at_def)

lemma Reader_Next_newc:
  assumes "reader_at p (newc_bytes f @ rest) fin r" "af_ok f" "p + length (newc_bytes f) < 2 ^ 62"
  shows "\<exists>cs ent. Reader_Next r =
       (if af_name f = TRAILER then (Err (IOError EOF), r\<lparr>r_stream := cs\<rparr>)
        else (Ok (archive_header f), \<lparr>r_stream = cs, r_cur = Some ent\<rparr>))
     \<and> ce_Header ent = archive_header f
     \<and> reader_at (p + length (newc_bytes f)) rest fin \<lparr>r_stream = cs, r_cur = Some ent\<rparr>
     \<and> cs_at (p + length (newc_bytes f)) rest fin cs \<and> cs_sizes cs = cs_sizes (r_stream r)
     \<and> fs_pending (ce_payload ent, cs_stream cs) = af_data f \<and> fs_final (ce_payload ent, cs_stream cs) = EOF
     \<and> fs_start_pos (ce_payload ent) + fs_curr_pos (ce_payload ent) = cr_curPos (cs_stream cs)
     \<and> cr_fin (cs_stream cs) = fin"
proof -
  have "cs_at p (newc_bytes f @ rest) fin (r_stream r)" using assms(1) by (simp add: reader_at_def)
  from ReadNextEntry_opened [OF this assms(2,3)] obtain ent cs
    where rn: "ReadNextEntry (r_stream r) = (Ok ent, cs)" and op: "opened (p + length (newc_bytes f)) (archive_header f) (af_data f) rest fin ent cs"
      and sz: "cs_sizes cs = cs_sizes (r_stream r)" by blast
  have "ch_filename (archive_header f) = af_name f" by (simp add: archive_header_def)
  with rn sz opened_payload [OF op] show ?thesis
    by (intro exI [of _ cs] exI [of _ ent]) (simp add: Reader_Next_def)
qed

lemma ReadNextEntry_stripped_start:
  assumes "cs_at p (strippedMagic @ hex_digits 8 i @ bs) fin cs" "i < 2 ^ 32"
  shows "\<exists>cr. ReadNextEntry cs = readStrippedEntry cs cr (stripped_header (int i)) \<and> cr_at (int (p + 14)) bs fin cr"
proof -
  obtain r cr1 where 1: "skip_gap cs = (Ok r, cr1)" "cr_at (int p) (strippedMagic @ hex_digits 8 i @ bs) fin cr1"
    using skip_gap_at [OF assms(1)] by blast
  obtain cr2 where 2: "cr_ReadFull cr1 6 = ((strippedMagic, None), cr2)" "cr_at (int p + 6) (hex_digits 8 i @ bs) fin cr2"
    using cr_ReadFull_at [OF 1(2), of 6] by (auto simp: magics)
  obtain cr3 where 3: "Read16 cr2 = (Ok (int i), cr3)" "cr_at (int (p + 14)) bs fin cr3"
    using Read16_at [OF 2(2) assms(2)] by (auto simp: add.commute [of _ "int p"])
  have "ReadNextEntry cs = readStrippedEntry cs cr3 (stripped_header (int i))"
    using 1(1) 2(1) 3(1)
    by (simp add: ReadNextEntry_def Let_def skip_gap_def cpio_readHeader_def readStrippedHeader_def)
       (simp add: stripped_header_def)
  with 3(2) show ?thesis by blast
qed

text \<open>An entry of a stripped archive: its number in the list of files, then the contents.\<close>

definition stripped_bytes :: "nat \<Rightarrow> bytes \<Rightarrow> bytes" where
  "stripped_bytes i data = strippedMagic @ hex_digits 8 i @ data @ zeros_to_4 (14 + length data)"

lemma length_stripped_bytes: "length (stripped_bytes i data) = 14 + length data + length (zeros_to_4 (14 + length data))"
  by (simp add: stripped_bytes_def magics)

lemma ReadNextEntry_stripped_opened:
  assumes "cs_at p (stripped_bytes i data @ rest) fin cs" "i < 2 ^ 32" "p + length (stripped_bytes i data) < 2 ^ 62"
    and "cs_sizes cs = Some sizes" "i < length sizes" "sizes ! i = int (length data)"
  shows "\<exists>ent cs'. ReadNextEntry cs = (Ok ent, cs')
     \<and> opened (p + length (stripped_bytes i data)) (stripped_header (int i)) data rest fin ent cs' \<and> cs_sizes cs' = cs_sizes cs"
proof -
  let ?z = "zeros_to_4 (14 + length data)" and ?s = "p + 14"
  let ?q = "p + length (stripped_bytes i data)"
  let ?ent = "\<lparr>ce_Header = stripped_header (int i), ce_payload = \<lparr>fs_start_pos = int ?s, fs_curr_pos = 0, fs_size = int (length data)\<rparr>\<rparr>"
  obtain cr where rn: "ReadNextEntry cs = readStrippedEntry cs cr (stripped_header (int i))"
      and at: "cr_at (int ?s) (data @ ?z @ rest) fin cr"
    using ReadNextEntry_stripped_start [of p i "data @ ?z @ rest" fin cs] assms(1,2) by (auto simp: stripped_bytes_def)
  have dvd: "4 dvd p" using assms(1) by (simp add: cs_at_def)
  have q: "?q = ?s + length data + length ?z" by (simp add: length_stripped_bytes)
  have "?s + length data < 2 ^ 62" using assms(3) q by simp
  then have "pad64 (to_int64 (int ?s + int (length data))) = int ?q"
    using pad64_nat [of "?s + length data"] zeros_shift [OF dvd, of "14 + length data"] q by (simp add: add.assoc)
  moreover have "cr_curPos cr = int ?s" using at by (simp add: cr_at_def)
  moreover have "ch_index (stripped_header (int i)) = int i" by (simp add: stripped_header_def)
  ultimately have "ReadNextEntry cs = (Ok ?ent, cs\<lparr>cs_stream := cr, cs_nextPos := int ?q\<rparr>)"
    using assms(4-6) by (simp add: rn readStrippedEntry_def Let_def open_entry_eq)
  moreover have "4 dvd ?q"
    using dvd_add [OF dvd zeros_dvd [of "14 + length data"]] by (simp add: length_stripped_bytes add.assoc)
  ultimately show ?thesis
    using opened_intro [OF at q _ assms(3) refl, of _ cs]
    by (intro exI [of _ ?ent] exI [of _ "cs\<lparr>cs_stream := cr, cs_nextPos := int ?q\<rparr>"]) simp
qed

section \<open>Properties\<close>

text \<open>Reading an archive file by file, each of them to its end: what a client gets, and how it ends.\<close>

primrec read_archive :: "nat \<Rightarrow> Reader \<Rightarrow> (Cpio_newc_header \<times> bytes) list \<times> go_error option" where
  "read_archive 0 r = ([], Some (IOError ErrNoProgress))"
| "read_archive (Suc k) r =
     (case Reader_Next r of
        (Ok h, r1) \<Rightarrow>
          (case r_cur r1 of
             None \<Rightarrow> ([], None)
           | Some ent \<Rightarrow>
               (case Copy fs_Read fs_steps (ce_payload ent, cs_stream (r_stream r1)) of
                  ((data, None), fs', cr') \<Rightarrow>
                    (case read_archive k \<lparr>r_stream = (r_stream r1)\<lparr>cs_stream := cr'\<rparr>,
                             r_cur = Some (ent\<lparr>ce_payload := fs'\<rparr>)\<rparr> of
                       (files, e) \<Rightarrow> ((h, data) # files, e))
                | ((data, Some e), _) \<Rightarrow> ([(h, data)], Some (IOError e))))
      | (Err e, r1) \<Rightarrow> ([], Some e)
      | (Panic p, r1) \<Rightarrow> ([], None))"

definition archive_bytes :: "archive_file list \<Rightarrow> archive_file \<Rightarrow> bytes" where
  "archive_bytes fs trailer = concat (map newc_bytes fs) @ newc_bytes trailer"

lemma fs_Copy_client_reads:
  assumes "fs_in_step (fs, cr)" "Copy fs_Read fs_steps (fs, cr) = ((data, e), fs', cr')"
    and "r = \<lparr>r_stream = cs\<lparr>cs_stream := cr\<rparr>, r_cur = Some (ent\<lparr>ce_payload := fs\<rparr>)\<rparr>"
  shows "client_reads r \<lparr>r_stream = cs\<lparr>cs_stream := cr'\<rparr>, r_cur = Some (ent\<lparr>ce_payload := fs'\<rparr>)\<rparr>"
proof -
  have "CopyLoop fs_Read b fuel (fs1, cr1) acc = ((data, e), fs', cr') \<Longrightarrow>
      client_reads r \<lparr>r_stream = cs\<lparr>cs_stream := cr1\<rparr>, r_cur = Some (ent\<lparr>ce_payload := fs1\<rparr>)\<rparr> \<Longrightarrow>
      client_reads r \<lparr>r_stream = cs\<lparr>cs_stream := cr'\<rparr>, r_cur = Some (ent\<lparr>ce_payload := fs'\<rparr>)\<rparr>" for b fuel fs1 cr1 acc
  proof (induction fuel arbitrary: fs1 cr1 acc)
    case (Suc k)
    let ?r1 = "\<lparr>r_stream = cs\<lparr>cs_stream := cr1\<rparr>, r_cur = Some (ent\<lparr>ce_payload := fs1\<rparr>)\<rparr>"
    obtain bs er fs2 cr2 where rd: "fs_Read (fs1, cr1) b = ((bs, er), fs2, cr2)" by (metis prod.collapse)
    have "Reader_Read ?r1 b = (Ok (bs, er), \<lparr>r_stream = cs\<lparr>cs_stream := cr2\<rparr>, r_cur = Some (ent\<lparr>ce_payload := fs2\<rparr>)\<rparr>)"
      using rd by (simp add: Reader_Read_def)
    note step = client_reads_step [OF Suc.prems(2) this]
    show ?case
    proof (cases er)
      case None
      then show ?thesis using Suc.prems(1) rd step by (intro Suc.IH [of fs2 cr2 "acc @ bs"]) auto
    next
      case (Some x)
      then show ?thesis using Suc.prems(1) rd step by (auto split: if_splits)
    qed
  qed auto
  from this [of 32768 "Suc (fs_steps (fs, cr))" fs cr "[]"] assms(2,3) show ?thesis
    by (simp add: Copy_def client_reads_refl del: CopyLoop.simps)
qed

lemma fs_in_step_start:
  "fs_start_pos fs + fs_curr_pos fs = cr_curPos cr \<Longrightarrow> cr_fin cr = EOF \<Longrightarrow> fs_in_step (fs, cr)"
  by (simp add: fs_in_step_def)

lemma copy_opened:
  assumes "opened q hdr data rest EOF ent cs"
  shows "\<exists>fs' cr'. Copy fs_Read fs_steps (ce_payload ent, cs_stream cs) = ((data, None), fs', cr')
     \<and> reader_at q rest EOF \<lparr>r_stream = cs\<lparr>cs_stream := cr'\<rparr>, r_cur = Some (ent\<lparr>ce_payload := fs'\<rparr>)\<rparr>"
proof -
  note op = opened_payload [OF assms]
  have step: "fs_in_step (ce_payload ent, cs_stream cs)" using op(3,4) by (rule fs_in_step_start)
  obtain fs' cr' where cp: "Copy fs_Read fs_steps (ce_payload ent, cs_stream cs) = ((data, None), fs', cr')"
    using fsr.Copy_spec [OF step] op(1,2) by auto
  have "client_reads \<lparr>r_stream = cs, r_cur = Some ent\<rparr>
      \<lparr>r_stream = cs\<lparr>cs_stream := cr'\<rparr>, r_cur = Some (ent\<lparr>ce_payload := fs'\<rparr>)\<rparr>"
    using fs_Copy_client_reads [OF step cp, of "\<lparr>r_stream = cs, r_cur = Some ent\<rparr>" cs ent] by simp
  from client_reads_at [OF this op(6)] cp show ?thesis by blast
qed

lemma read_archive_at:
  assumes "reader_at p (archive_bytes fs trailer @ rest) EOF r" "list_all af_ok (trailer # fs)"
    and "\<forall>f \<in> set fs. af_name f \<noteq> TRAILER" "af_name trailer = TRAILER"
    and "p + length (archive_bytes fs trailer) < 2 ^ 62" "length fs < k"
  shows "read_archive k r = (map (\<lambda>f. (archive_header f, af_data f)) fs, Some (IOError EOF))"
  using assms
proof (induction fs arbitrary: p r k)
  case Nil
  then have t: "reader_at p (newc_bytes trailer @ rest) EOF r" "af_ok trailer" "p + length (newc_bytes trailer) < 2 ^ 62"
    by (simp_all add: archive_bytes_def)
  obtain cs where "Reader_Next r = (Err (IOError EOF), r\<lparr>r_stream := cs\<rparr>)"
    using Reader_Next_newc [OF t] Nil.prems(4) by auto
  with Nil.prems(6) show ?case by (cases k) simp_all
next
  case (Cons f fs)
  let ?rest = "archive_bytes fs trailer @ rest"
  have f: "reader_at p (newc_bytes f @ ?rest) EOF r" "af_ok f" "p + length (newc_bytes f) < 2 ^ 62"
    using Cons.prems by (simp_all add: archive_bytes_def)
  have "cs_at p (newc_bytes f @ ?rest) EOF (r_stream r)" using f(1) by (simp add: reader_at_def)
  from ReadNextEntry_opened [OF this f(2,3)] obtain ent cs where rn: "ReadNextEntry (r_stream r) = (Ok ent, cs)"
      and op: "opened (p + length (newc_bytes f)) (archive_header f) (af_data f) ?rest EOF ent cs" by blast
  have "ch_filename (archive_header f) \<noteq> TRAILER" using Cons.prems(3) by (simp add: archive_header_def)
  then have nx: "Reader_Next r = (Ok (archive_header f), \<lparr>r_stream = cs, r_cur = Some ent\<rparr>)"
    using rn opened_payload(7) [OF op] by (simp add: Reader_Next_def)
  obtain fs' cr' where cp: "Copy fs_Read fs_steps (ce_payload ent, cs_stream cs) = ((af_data f, None), fs', cr')"
      and at: "reader_at (p + length (newc_bytes f)) ?rest EOF
        \<lparr>r_stream = cs\<lparr>cs_stream := cr'\<rparr>, r_cur = Some (ent\<lparr>ce_payload := fs'\<rparr>)\<rparr>"
    using copy_opened [OF op] by blast
  let ?r = "\<lparr>r_stream = cs\<lparr>cs_stream := cr'\<rparr>, r_cur = Some (ent\<lparr>ce_payload := fs'\<rparr>)\<rparr>"
  note at
  moreover obtain k' where k: "k = Suc k'" "length fs < k'" using Cons.prems(6) by (cases k) auto
  moreover have "p + length (newc_bytes f) + length (archive_bytes fs trailer) < 2 ^ 62"
    using Cons.prems(5) by (simp add: archive_bytes_def)
  ultimately have "read_archive k' ?r = (map (\<lambda>f. (archive_header f, af_data f)) fs, Some (IOError EOF))"
    using Cons.prems(2-4) by (intro Cons.IH [of "p + length (newc_bytes f)"]) simp_all
  then show ?case by (simp add: k(1) nx cp)
qed

lemma NewReader_at:
  "reader_at 0 (reader_pending stream) (rd_fin stream) (NewReaderWithSizes stream sizes)"
  by (simp add: reader_at_def cs_at_def NewReaderWithSizes_def SetFileSizes_def NewCpioStream_def cr_at_def)

text \<open>
  C31.  Reading an archive in the new ASCII format gives back its files: on a stream that starts
  with the encodings of any files and a trailer, iterating with \<open>Next\<close> and reading each file
  to its end yields the header fields, name and contents of every file in order, and then
  \<open>io.EOF\<close>, however the stream is fragmented.
\<close>

theorem read_archive_roundtrip:
  assumes "reader_pending stream = archive_bytes fs trailer @ rest" "rd_fin stream = EOF"
    and "list_all af_ok (trailer # fs)" "\<forall>f \<in> set fs. af_name f \<noteq> TRAILER" "af_name trailer = TRAILER"
    and "length (archive_bytes fs trailer) < 2 ^ 62"
  shows "read_archive (length fs + 1) (NewReader stream)
     = (map (\<lambda>f. (archive_header f, af_data f)) fs, Some (IOError EOF))"
  using assms NewReader_at [of stream None]
  by (intro read_archive_at [where p = 0 and trailer = trailer and rest = rest]) (simp_all add: NewReader_def)

definition sample_file :: "string \<Rightarrow> bytes \<Rightarrow> archive_file" where
  "sample_file nm data =
     \<lparr>af_ino = 7, af_mode = 0x81a4, af_uid = 0, af_gid = 0, af_nlink = 1, af_mtime = 12, af_devmajor = 0,
      af_devminor = 0, af_rdevmajor = 0, af_rdevminor = 0, af_check = 0, af_name = nm, af_data = data\<rparr>"

lemma sample_file_ok: "length nm < 1000 \<Longrightarrow> length data < 1000 \<Longrightarrow> af_ok (sample_file nm data)"
  by (simp add: af_ok_def af_numbers_def sample_file_def)

lemma sample_file_fields:
  "af_name (sample_file nm data) = nm" "af_data (sample_file nm data) = data" "af_nlink (sample_file nm data) = 1"
  by (simp_all add: sample_file_def)

lemma sample_file_length:
  "length (newc_bytes (sample_file nm data)) \<le> 120 + length nm + length data"
proof -
  have "length (zeros_to_4 n) < 4" for n by (simp add: zeros_to_4_def)
  from this [of "111 + length nm"] this [of "length data"] show ?thesis
    by (simp add: newc_bytes_def length_newc_start) (simp add: sample_file_def)
qed

definition sample_archive :: reader where
  "sample_archive =
     (let bs = archive_bytes [sample_file ''./a'' [1, 2, 3], sample_file ''./b'' []] (sample_file TRAILER [])
      in \<lparr>rd_chunks = [take 100 bs, [], drop 100 bs @ [0, 0]], rd_fin = EOF, rd_eager = True\<rparr>)"

lemma sample_archive_pending:
  "reader_pending sample_archive
     = archive_bytes [sample_file ''./a'' [1, 2, 3], sample_file ''./b'' []] (sample_file TRAILER []) @ [0, 0]"
  "rd_fin sample_archive = EOF"
  by (simp_all add: sample_archive_def Let_def reader_pending_def)

lemma sample_archive_small:
  "length (archive_bytes [sample_file ''./a'' [1, 2, 3], sample_file ''./b'' []] (sample_file TRAILER [])) < 2 ^ 62"
  using sample_file_length [of "''./a''" "[1, 2, 3]"] sample_file_length [of "''./b''" "[]"]
    sample_file_length [of TRAILER "[]"]
  by (simp add: archive_bytes_def TRAILER_def)

theorem read_archive_roundtrip_witness:
  "read_archive 3 (NewReader sample_archive)
     = ([(archive_header (sample_file ''./a'' [1, 2, 3]), [1, 2, 3]),
         (archive_header (sample_file ''./b'' []), [])], Some (IOError EOF))"
proof -
  let ?fs = "[sample_file ''./a'' [1, 2, 3], sample_file ''./b'' []]" and ?t = "sample_file TRAILER []"
  have names: "\<forall>f \<in> set ?fs. af_name f \<noteq> TRAILER" "af_name ?t = TRAILER"
    by (simp_all add: sample_file_def TRAILER_def)
  have ok: "list_all af_ok (?t # ?fs)" by (simp add: sample_file_ok TRAILER_def)
  from read_archive_roundtrip [OF sample_archive_pending ok names sample_archive_small]
  show ?thesis by (simp add: numeral_3_eq_3 sample_file_def del: read_archive.simps)
qed

text \<open>
  C39.  \<open>Next\<close> moves to the next entry from wherever the client left the current one: after any
  sequence of reads, of any sizes, it skips the rest of the file and its padding and returns
  the header of the next file, whose unread contents are then exactly the file's data.  At
  the trailer it returns \<open>io.EOF\<close>.
\<close>

theorem Next_after_any_reads:
  assumes "reader_at p (newc_bytes f @ rest) EOF r" "client_reads r r1"
    and "af_ok f" "p + length (newc_bytes f) < 2 ^ 62"
  shows "\<exists>r2. reader_at (p + length (newc_bytes f)) rest EOF r2
     \<and> (if af_name f = TRAILER then Reader_Next r1 = (Err (IOError EOF), r1\<lparr>r_stream := r_stream r2\<rparr>)
        else Reader_Next r1 = (Ok (archive_header f), r2)
          \<and> (\<exists>ent. r_cur r2 = Some ent \<and> fs_pending (ce_payload ent, cs_stream (r_stream r2)) = af_data f
               \<and> fs_final (ce_payload ent, cs_stream (r_stream r2)) = EOF))"
proof -
  obtain cs ent where n: "Reader_Next r1 =
       (if af_name f = TRAILER then (Err (IOError EOF), r1\<lparr>r_stream := cs\<rparr>)
        else (Ok (archive_header f), \<lparr>r_stream = cs, r_cur = Some ent\<rparr>))"
     "reader_at (p + length (newc_bytes f)) rest EOF \<lparr>r_stream = cs, r_cur = Some ent\<rparr>"
     "fs_pending (ce_payload ent, cs_stream cs) = af_data f" "fs_final (ce_payload ent, cs_stream cs) = EOF"
    using Reader_Next_newc [OF client_reads_at [OF assms(2,1)] assms(3,4)] by blast
  then show ?thesis by (intro exI [of _ "\<lparr>r_stream = cs, r_cur = Some ent\<rparr>"]) simp
qed

theorem Next_after_any_reads_witness:
  "\<exists>r1 r2 r3 res. Reader_Next (NewReader sample_archive) = (Ok (archive_header (sample_file ''./a'' [1, 2, 3])), r1)
     \<and> Reader_Read r1 2 = (Ok res, r2)
     \<and> Reader_Next r2 = (Ok (archive_header (sample_file ''./b'' [])), r3)"
proof -
  let ?a = "sample_file ''./a'' [1, 2, 3]" and ?b = "sample_file ''./b'' []" and ?t = "sample_file TRAILER []"
  let ?rest = "newc_bytes ?b @ newc_bytes ?t @ [0, 0]"
  have small: "length (newc_bytes ?a) < 1000" "length (newc_bytes ?b) < 1000"
    using sample_file_length [of "''./a''" "[1, 2, 3]"] sample_file_length [of "''./b''" "[]"] by simp_all
  have names: "af_name ?a \<noteq> TRAILER" "af_name ?b \<noteq> TRAILER" by (simp_all add: sample_file_def TRAILER_def)
  have "reader_at 0 (newc_bytes ?a @ ?rest) EOF (NewReader sample_archive)"
    using NewReader_at [of sample_archive None] by (simp add: sample_archive_pending NewReader_def archive_bytes_def)
  from Next_after_any_reads [OF this client_reads_refl] small names
  obtain r1 where r1: "reader_at (length (newc_bytes ?a)) ?rest EOF r1"
      "Reader_Next (NewReader sample_archive) = (Ok (archive_header ?a), r1)" "r_cur r1 \<noteq> None"
    by (auto simp: sample_file_ok)
  obtain ent where ent: "r_cur r1 = Some ent" using r1(3) by auto
  obtain res fs' cr' where "fs_Read (ce_payload ent, cs_stream (r_stream r1)) 2 = (res, fs', cr')" by (metis prod.collapse)
  with ent obtain r2 where r2: "Reader_Read r1 2 = (Ok res, r2)" by (simp add: Reader_Read_def)
  from Next_after_any_reads [OF r1(1) client_reads_step [OF client_reads_refl r2]] small names
  obtain r3 where "Reader_Next r2 = (Ok (archive_header ?b), r3)" by (auto simp: sample_file_ok)
  with r1(2) r2 show ?thesis by blast
qed

text \<open>
  C40.  An entry of a stripped archive, as large RPM packages have them, takes its size from the
  supplied list: the entry with index \<open>i\<close> opens the next \<open>sizes ! i\<close> bytes as the file's
  contents and continues after their padding; without a list, or with an index beyond it,
  the entry is refused.  The header of such an entry carries no size of its own.
\<close>

theorem ReadNextEntry_stripped:
  assumes "cs_at p (stripped_bytes i data @ rest) fin cs" "i < 2 ^ 32" "p + length (stripped_bytes i data) < 2 ^ 62"
  shows "\<exists>cs'. case cs_sizes cs of
       None \<Rightarrow> ReadNextEntry cs = (Err ErrStrippedHeader, cs')
     | Some sizes \<Rightarrow>
         if length sizes \<le> i then ReadNextEntry cs = (Err (InvalidCpioIndex (int i)), cs')
         else sizes ! i = int (length data) \<longrightarrow>
           (\<exists>fs. ReadNextEntry cs = (Ok \<lparr>ce_Header = stripped_header (int i), ce_payload = fs\<rparr>, cs')
              \<and> fs_pending (fs, cs_stream cs') = data \<and> fs_final (fs, cs_stream cs') = EOF
              \<and> cs_at (p + length (stripped_bytes i data)) rest fin cs')"
proof (cases "\<exists>sizes. cs_sizes cs = Some sizes \<and> i < length sizes \<and> sizes ! i = int (length data)")
  case True
  then obtain sizes where sizes: "cs_sizes cs = Some sizes" "i < length sizes" "sizes ! i = int (length data)" by blast
  from ReadNextEntry_stripped_opened [OF assms sizes] obtain ent cs' where rn: "ReadNextEntry cs = (Ok ent, cs')"
      and op: "opened (p + length (stripped_bytes i data)) (stripped_header (int i)) data rest fin ent cs'" by blast
  obtain fs where "ent = \<lparr>ce_Header = stripped_header (int i), ce_payload = fs\<rparr>"
    using opened_payload(7) [OF op] by (cases ent) simp
  then show ?thesis
    using rn opened_payload [OF op] sizes by (intro exI [of _ cs']) auto
next
  case False
  obtain cr where "ReadNextEntry cs = readStrippedEntry cs cr (stripped_header (int i))"
    using ReadNextEntry_stripped_start [of p i "data @ zeros_to_4 (14 + length data) @ rest" fin cs] assms(1,2)
    by (auto simp: stripped_bytes_def)
  moreover have "ch_index (stripped_header (int i)) = int i" by (simp add: stripped_header_def)
  ultimately show ?thesis using False by (auto simp: readStrippedEntry_def Let_def split: option.splits)
qed

definition stripped_sample :: reader where
  "stripped_sample = reader_of (stripped_bytes 1 [5, 6, 7] @ [9])"

theorem ReadNextEntry_stripped_witness:
  "\<exists>cs' fs. ReadNextEntry (SetFileSizes (NewCpioStream stripped_sample) (Some [0, 3]))
       = (Ok \<lparr>ce_Header = stripped_header 1, ce_payload = fs\<rparr>, cs')
     \<and> fs_pending (fs, cs_stream cs') = [5, 6, 7]"
proof -
  let ?cs = "SetFileSizes (NewCpioStream stripped_sample) (Some [0, 3])"
  have "cs_at 0 (stripped_bytes 1 [5, 6, 7] @ [9]) EOF ?cs"
    using NewReader_at [of stripped_sample "Some [0, 3]"]
    by (simp add: reader_at_def NewReaderWithSizes_def stripped_sample_def)
  moreover have "0 + length (stripped_bytes 1 [5, 6, 7]) < 2 ^ 62" by (simp add: length_stripped_bytes zeros_to_4_def)
  ultimately show ?thesis using ReadNextEntry_stripped [of 0 1 "[5, 6, 7]" "[9]" EOF ?cs] by (auto simp: SetFileSizes_def)
qed

text \<open>
  A header that announces an empty name (\<open>namesize\<close> 0, without even a terminator) makes
  \<open>ReadNextEntry\<close> panic on every archive that contains one, where other malformed headers
  give an error.
\<close>

theorem ReadNextEntry_empty_name_panics:
  assumes "cs_at p (newcMagic @ concat (map (hex_digits 8) ns) @ rest) fin cs"
    and "list_all (\<lambda>n. n < 2 ^ 32) ns" "length ns = 13" "ns ! 11 = 0"
  shows "fst (ReadNextEntry cs) = Panic SliceOutOfRange"
proof -
  obtain r cr1 where 1: "skip_gap cs = (Ok r, cr1)"
      "cr_at (int p) (newcMagic @ concat (map (hex_digits 8) ns) @ rest) fin cr1"
    using skip_gap_at [OF assms(1)] by blast
  obtain cr2 where 2: "cpio_readHeader cr1 = (Ok (newc_header (map int ns)), cr2)" "cr_at (int p + 110) rest fin cr2"
    using cpio_readHeader_at [OF 1(2) assms(2,3)] by blast
  have "cr_at (int p + 110) ([] @ rest) fin cr2" using 2(2) by simp
  from cr_ReadFull_at [OF this, of 0] obtain cr3 where "cr_ReadFull cr2 0 = (([], None), cr3)" by auto
  then have "readFilename cr2 0 = (Panic SliceOutOfRange, cr3)" by (simp add: readFilename_def slice_def)
  moreover have "ch_namesize (newc_header (map int ns)) = 0" using assms(3,4) by (simp add: newc_header_def)
  ultimately have "readNewcEntry cs cr2 (newc_header (map int ns)) = (Panic SliceOutOfRange, cs\<lparr>cs_stream := cr3\<rparr>)"
    by (simp add: readNewcEntry_def Let_def)
  with 1(1) 2(1) show ?thesis
    by (simp add: ReadNextEntry_def Let_def skip_gap_def) (simp add: newc_header_def)
qed

theorem ReadNextEntry_empty_name_panics_witness:
  "fst (ReadNextEntry (NewCpioStream (reader_of (newcMagic @ concat (map (hex_digits 8) (replicate 13 0))))))
     = Panic SliceOutOfRange"
proof (rule ReadNextEntry_empty_name_panics [where p = 0 and rest = "[]" and fin = EOF and ns = "replicate 13 0"])
  let ?f = "reader_of (newcMagic @ concat (map (hex_digits 8) (replicate 13 0)))"
  show "cs_at 0 (newcMagic @ concat (map (hex_digits 8) (replicate 13 0)) @ []) EOF (NewCpioStream ?f)"
    using NewReader_at [of ?f None]
    by (simp add: reader_at_def NewReaderWithSizes_def SetFileSizes_def NewCpioStream_def)
qed (simp_all add: list_all_iff)

text \<open>
  An archive that is cut off between two entries is not told apart from a complete one:
  where the stream ends, \<open>Next\<close> returns \<open>io.EOF\<close>, as it does at the trailer.
\<close>

theorem Next_missing_trailer:
  assumes "reader_at p [] EOF r" "client_reads r r1"
  shows "fst (Reader_Next r1) = Err (IOError EOF)"
proof -
  have "cs_at p [] EOF (r_stream r1)" using client_reads_at [OF assms(2,1)] by (simp add: reader_at_def)
  from skip_gap_at [OF this] obtain x cr where 1: "skip_gap (r_stream r1) = (Ok x, cr)" "cr_at (int p) [] EOF cr"
    by blast
  obtain cr' where "cr_ReadFull cr 6 = (([], Some EOF), cr')"
    using cr_ReadFull_short [OF 1(2), of 6] by (auto simp: short_err_def)
  with 1(1) show ?thesis
    by (simp add: Reader_Next_def ReadNextEntry_def Let_def skip_gap_def cpio_readHeader_def)
qed

theorem Next_missing_trailer_witness: "fst (Reader_Next (NewReader (reader_of []))) = Err (IOError EOF)"
  by (rule Next_missing_trailer [OF _ client_reads_refl, of 0])
     (use NewReader_at [of "reader_of []" None] in \<open>simp add: NewReader_def\<close>)

end
