(* ===== verification/Cpio_Progress.thy ===== *)
theory Cpio_Progress
  imports Cpio
begin

text \<open>
  Progress of reading an archive, on streams with any contents: reading entries only ever
  reads, and every entry consumes bytes, so a client that asks for one file after the other
  comes to an end.
\<close>

section \<open>What reading an entry does to the stream\<close>

text \<open>
  Reading entries only ever reads from the stream: a predicate that every \<open>cr_Read\<close> keeps, as
  \<open>reads P\<close> says, is kept by the whole of \<open>ReadNextEntry\<close>.
\<close>

definition reads :: "(countingReader \<Rightarrow> bool) \<Rightarrow> bool" where
  "reads P \<longleftrightarrow> (\<forall>cr n. P cr \<longrightarrow> P (snd (cr_Read cr n)))"

lemma ebind_keeps:
  assumes "P (snd m)" "\<And>x s. m = (Ok x, s) \<Longrightarrow> P s \<Longrightarrow> P (snd (f x s))"
  shows "P (snd (ebind m f id))"
proof (cases m)
  case (Pair r s)
  then show ?thesis using assms by (cases r) auto
qed

lemma ebind_upd:
  assumes "P (snd m)" "\<And>x s. m = (Ok x, s) \<Longrightarrow> P s \<Longrightarrow> P (h (snd (f x s)))" "\<And>s. P s \<Longrightarrow> P (h (g s))"
  shows "P (h (snd (ebind m f g)))"
proof (cases m)
  case (Pair r s)
  then show ?thesis using assms by (cases r) auto
qed

lemma reads_ReadFull:
  assumes "reads P" "P cr"
  shows "P (snd (cr_ReadFull cr n))"
  unfolding cr_ReadFull_def by (rule ReadFull_keeps [where P = P]) (use assms in \<open>simp_all add: reads_def\<close>)

lemma reads_Seek: "reads P \<Longrightarrow> P cr \<Longrightarrow> P (snd (cr_Seek cr off w))"
  using reads_ReadFull [of P cr "nat off"]
  by (auto simp: cr_Seek_def split: prod.splits option.splits)

lemma reads_Read16: "reads P \<Longrightarrow> P cr \<Longrightarrow> P (snd (Read16 cr))"
  using reads_ReadFull [of P cr 8] by (auto simp: Read16_def split: prod.splits option.splits)

lemma reads_Read16s:
  assumes "reads P"
  shows "P cr \<Longrightarrow> P (snd (Read16s k cr))"
proof (induction k arbitrary: cr)
  case (Suc k)
  have "P (snd (ebind (Read16s k s) (\<lambda>is cr2. (Ok (i # is), cr2)) id))" if "P s" for s i
    by (rule ebind_keeps [where P = P, OF Suc.IH [OF that]]) simp
  with reads_Read16 [OF assms Suc.prems] show ?case
    unfolding Read16s.simps by (rule ebind_keeps [where P = P])
qed simp

lemma reads_readHeader:
  assumes "reads P" "P (snd (cr_ReadFull cr 6))"
  shows "P (snd (cpio_readHeader cr))"
proof -
  obtain bs e cr1 where r: "cr_ReadFull cr 6 = ((bs, e), cr1)" by (metis prod.collapse)
  then have "P cr1" using assms(2) by simp
  then show ?thesis
    using r assms(1) by (cases e)
      (auto simp: cpio_readHeader_def readStrippedHeader_def simp del: Read16s.simps
        intro!: ebind_keeps [where P = P] intro: reads_Read16 reads_Read16s)
qed

lemma reads_readFilename: "reads P \<Longrightarrow> P cr \<Longrightarrow> P (snd (readFilename cr n))"
  using reads_ReadFull [of P cr "nat n"]
  by (auto simp: readFilename_def slice_def split: prod.splits option.splits)

lemma reads_readNewcEntry:
  assumes "reads P" "P cr"
  shows "P (cs_stream (snd (readNewcEntry cs cr hdr)))"
  unfolding readNewcEntry_def Let_def
proof (rule ebind_upd [where P = P and h = cs_stream], goal_cases)
  case 1
  show ?case using assms by (rule reads_readFilename)
next
  case (2 x s)
  let ?off = "pad (newcHeaderLength + ch_namesize hdr) - newcHeaderLength - ch_namesize hdr"
  have "P (snd (if 0 < ?off then cr_Seek s ?off 1 else (Ok 0, s)))"
    using reads_Seek [OF assms(1) 2(2), of ?off 1] 2(2) by simp
  then show ?case by (rule ebind_upd [where P = P and h = cs_stream]) (simp_all add: open_entry_eq)
qed simp

lemma reads_ReadNextEntry:
  assumes "reads P" "\<And>x cr. skip_gap cs = (Ok x, cr) \<Longrightarrow> P (snd (cr_ReadFull cr 6))"
    and "\<And>x cr. skip_gap cs = (x, cr) \<Longrightarrow> (\<forall>i. x \<noteq> Ok i) \<Longrightarrow> P cr"
  shows "P (cs_stream (snd (ReadNextEntry cs)))"
proof -
  obtain x cr1 where s: "skip_gap cs = (x, cr1)" by (metis prod.collapse)
  show ?thesis
  proof (cases x)
    case (Ok i)
    have h: "P (snd (cpio_readHeader cr1))"
      using assms(2) s Ok by (intro reads_readHeader [where P = P, OF assms(1)]) simp
    have stripped: "P (cs_stream (snd (readStrippedEntry cs cr hdr)))" if "P cr" for cr hdr
      using that by (auto simp: readStrippedEntry_def Let_def open_entry_eq index_def split: option.splits)
    have "P (cs_stream (snd (ebind (cpio_readHeader cr1) (\<lambda>hdr cr2.
        if ch_stripped hdr then readStrippedEntry cs cr2 hdr else readNewcEntry cs cr2 hdr) (\<lambda>cr. cs\<lparr>cs_stream := cr\<rparr>))))"
      by (rule ebind_upd [where P = P and h = cs_stream, OF h])
         (simp_all add: stripped reads_readNewcEntry [where P = P, OF assms(1)])
    then show ?thesis using s Ok by (simp add: ReadNextEntry_def Let_def skip_gap_def)
  qed (use s assms(3) in \<open>auto simp: ReadNextEntry_def Let_def skip_gap_def\<close>)
qed

lemma reads_skip_gap: "reads P \<Longrightarrow> P (cs_stream cs) \<Longrightarrow> skip_gap cs = (x, cr) \<Longrightarrow> P cr"
  using reads_Seek [of P "cs_stream cs" "to_int64 (cs_nextPos cs - cr_curPos (cs_stream cs))" 1]
  by (auto simp: skip_gap_def split: if_splits)

lemma ReadNextEntry_keeps: "reads P \<Longrightarrow> P (cs_stream cs) \<Longrightarrow> P (cs_stream (snd (ReadNextEntry cs)))"
  by (rule reads_ReadNextEntry) (auto intro: reads_ReadFull reads_skip_gap)

text \<open>Every entry consumes bytes of the archive.\<close>

lemma reads_left: "reads (\<lambda>cr. length (cr_pending cr) \<le> n)"
proof -
  have "length (cr_pending (snd (cr_Read cr k))) \<le> length (cr_pending cr)" for cr k
    using cr.read_split [OF TrueI, of cr k] by (cases "cr_Read cr k"; cases "fst (cr_Read cr k)") simp
  then show ?thesis using le_trans unfolding reads_def by blast
qed

lemma ReadNextEntry_consumes:
  assumes "ReadNextEntry cs = (Ok ent, cs')"
  shows "length (cr_pending (cs_stream cs')) + 6 \<le> length (cr_pending (cs_stream cs))"
proof -
  let ?n = "length (cr_pending (cs_stream cs))"
  obtain x cr1 where s: "skip_gap cs = (Ok x, cr1)"
    using assms by (cases "skip_gap cs"; cases "fst (skip_gap cs)") (auto simp: ReadNextEntry_def skip_gap_def Let_def)
  have 1: "length (cr_pending cr1) \<le> ?n" by (rule reads_skip_gap [OF reads_left _ s]) simp
  obtain bs e cr2 where r: "cr_ReadFull cr1 6 = ((bs, e), cr2)" by (metis prod.collapse)
  have "e = None" using assms s r by (cases e) (auto simp: ReadNextEntry_def skip_gap_def Let_def cpio_readHeader_def)
  then have "6 \<le> length (cr_pending cr1) \<and> cr_pending cr2 = drop 6 (cr_pending cr1)"
    using cr.ReadFull_spec [OF TrueI, of cr1 6] r by (auto simp: cr_ReadFull_def split: if_splits)
  with 1 have le: "length (cr_pending cr2) \<le> ?n - 6" and "6 \<le> ?n" by auto
  have "length (cr_pending (cs_stream (snd (ReadNextEntry cs)))) \<le> ?n - 6"
    by (rule reads_ReadNextEntry [OF reads_left]) (use s r le in simp_all)
  then have "length (cr_pending (cs_stream cs')) \<le> ?n - 6" using assms by (simp only: snd_conv)
  with \<open>6 \<le> ?n\<close> show ?thesis by linarith
qed

section \<open>Iteration\<close>

abbreviation r_left :: "Reader \<Rightarrow> nat" where
  "r_left r \<equiv> length (cr_pending (cs_stream (r_stream r)))"

lemma fs_Read_left:
  "fs_Read s n = ((bs, e), s') \<Longrightarrow> length (cr_pending (snd s')) \<le> length (cr_pending (snd s))"
  by (auto simp: fs_Read_def Let_def split: prod.splits if_splits dest!: cr.read_split [OF TrueI])

lemma client_reads_left: "client_reads r r' \<Longrightarrow> r_left r' \<le> r_left r"
proof (induction rule: client_reads.induct)
  case (client_reads_step r r1 n res r2)
  then have "r_left r2 \<le> r_left r1"
    by (cases res) (auto simp: Reader_Read_def split: option.splits prod.splits dest!: fs_Read_left)
  then show ?case using client_reads_step.IH by simp
qed simp

lemma Reader_Next_left: "Reader_Next r = (Ok h, r') \<Longrightarrow> r_left r' + 6 \<le> r_left r"
  by (cases "ReadNextEntry (r_stream r)"; cases "fst (ReadNextEntry (r_stream r))")
     (auto simp: Reader_Next_def split: if_splits dest: ReadNextEntry_consumes)

text \<open>A client that calls \<open>Next\<close> again and again, and does \<open>c\<close> with each file: after \<open>k\<close> calls.\<close>

primrec client_loop :: "(Reader \<Rightarrow> Reader) \<Rightarrow> nat \<Rightarrow> Reader \<Rightarrow> Reader" where
  "client_loop c 0 r = c r"
| "client_loop c (Suc k) r = c (snd (Reader_Next (client_loop c k r)))"

section \<open>Properties\<close>

text \<open>
  C36.  Iterating over an archive ends: whatever the stream contains, and whatever the client reads
  of each file in between, after at most a sixth as many calls as the stream has bytes \<open>Next\<close> does not
  return a further header: it returns \<open>io.EOF\<close>, at the trailer for one, or another error, or it
  panics, as it does for an entry with a name size of 0.
\<close>

theorem Next_loop_ends:
  assumes "\<And>r. client_reads r (c r)"
  shows "\<exists>k. 6 * k \<le> length (reader_pending stream)
     \<and> \<not> is_Ok (fst (Reader_Next (client_loop c k (NewReaderWithSizes stream sizes))))"
proof (rule ccontr)
  let ?r = "\<lambda>k. client_loop c k (NewReaderWithSizes stream sizes)" and ?n = "length (reader_pending stream)"
  assume "\<not> ?thesis"
  then have ok: "is_Ok (fst (Reader_Next (?r k)))" if "6 * k \<le> ?n" for k using that by blast
  have "6 * k + r_left (?r k) \<le> ?n" if "6 * k \<le> ?n + 6" for k
    using that
  proof (induction k)
    case 0
    have "r_left (NewReaderWithSizes stream sizes) = ?n"
      by (simp add: NewReaderWithSizes_def SetFileSizes_def NewCpioStream_def)
    then show ?case using client_reads_left [OF assms, of "NewReaderWithSizes stream sizes"] by simp
  next
    case (Suc k)
    then have k: "6 * k \<le> ?n" by simp
    obtain h r' where nx: "Reader_Next (?r k) = (Ok h, r')"
      using ok [OF k] by (cases "Reader_Next (?r k)"; cases "fst (Reader_Next (?r k))") auto
    have "r_left (c r') \<le> r_left r'" by (rule client_reads_left [OF assms])
    then show ?case using Suc.IH k Reader_Next_left [OF nx] nx by simp
  qed
  from this [of "?n div 6 + 1"] show False by simp
qed

theorem Next_loop_ends_witness:
  "\<exists>k. 6 * k \<le> length (reader_pending sample_archive)
     \<and> \<not> is_Ok (fst (Reader_Next (client_loop (\<lambda>r. case Reader_Read r 2 of (Ok _, r') \<Rightarrow> r' | _ \<Rightarrow> r) k (NewReaderWithSizes sample_archive None))))"
proof (rule Next_loop_ends)
  show "client_reads r (case Reader_Read r 2 of (Ok _, r') \<Rightarrow> r' | _ \<Rightarrow> r)" for r
    by (auto split: prod.splits result.splits intro: client_reads_refl client_reads_step [OF client_reads_refl])
qed

end
