(* ===== verification/Extract.thy ===== *)
theory Extract
  imports Cpio_Progress Go_Path Go_OS
begin

text \<open>
  \<^verbatim>\<open>cpio/extract.go\<close>: unpacking an archive into a directory.  The operating system is a
  parameter that answers every call, knowing the calls before it; the model records the
  calls in their order.
\<close>

section \<open>Modes\<close>

abbreviation (input) S_ISUID :: "'a :: numeral" where "S_ISUID \<equiv> 0x800"
abbreviation (input) S_ISGID :: "'a :: numeral" where "S_ISGID \<equiv> 0x400"
abbreviation (input) S_ISVTX :: "'a :: numeral" where "S_ISVTX \<equiv> 0x200"
abbreviation (input) S_ISDIR :: "'a :: numeral" where "S_ISDIR \<equiv> 0x4000"
abbreviation (input) S_ISFIFO :: "'a :: numeral" where "S_ISFIFO \<equiv> 0x1000"
abbreviation (input) S_ISREG :: "'a :: numeral" where "S_ISREG \<equiv> 0x8000"
abbreviation (input) S_ISLNK :: "'a :: numeral" where "S_ISLNK \<equiv> 0xA000"
abbreviation (input) S_ISBLK :: "'a :: numeral" where "S_ISBLK \<equiv> 0x6000"
abbreviation (input) S_ISCHR :: "'a :: numeral" where "S_ISCHR \<equiv> 0x2000"
abbreviation (input) S_ISSOCK :: "'a :: numeral" where "S_ISSOCK \<equiv> 0xC000"

section \<open>System calls\<close>

datatype fs_op =
    MkdirAll string
  | Mkdir string int
  | Mkfifo string int
  | Symlink string string            \<comment> \<open>contents, path\<close>
  | CreateFile string
  | WriteFile string bytes
  | CloseFile string
  | Link string string               \<comment> \<open>existing file, new name\<close>

type_synonym fs_env = "fs_op list \<Rightarrow> fs_op \<Rightarrow> os_err option"

definition fs_call :: "fs_env \<Rightarrow> fs_op \<Rightarrow> fs_op list \<Rightarrow> os_err option \<times> fs_op list" where
  "fs_call os op ops = (os ops op, ops @ [op])"

section \<open>Extraction\<close>

record extract_state =
  ex_stream :: CpioStream
  ex_linkMap :: "int \<Rightarrow> string list option"
  ex_ops :: "fs_op list"

definition fs_do :: "fs_env \<Rightarrow> fs_op \<Rightarrow> extract_state \<Rightarrow> unit result \<times> extract_state" where
  "fs_do os op st =
     (case fs_call os op (ex_ops st) of
        (Some e, ops) \<Rightarrow> (Err (IOError (ErrOS e)), st\<lparr>ex_ops := ops\<rparr>)
      | (None, ops) \<Rightarrow> (Ok (), st\<lparr>ex_ops := ops\<rparr>))"

text \<open>\<^verbatim>\<open>fileutil.Mkfifo\<close>: the system call on Unix, nothing on other systems.\<close>

definition fileutil_Mkfifo :: "fs_env \<Rightarrow> string \<Rightarrow> int \<Rightarrow> extract_state \<Rightarrow> unit result \<times> extract_state" where
  "fileutil_Mkfifo os path m st = fs_do os (Mkfifo path m) st"

definition fileutil_Mkfifo_windows :: "string \<Rightarrow> int \<Rightarrow> extract_state \<Rightarrow> unit result \<times> extract_state" where
  "fileutil_Mkfifo_windows path m st = (Ok (), st)"

text \<open>The path sanitisation of the loop body.\<close>

function strip_parent :: "string \<Rightarrow> string" where
  "strip_parent target =
     (if take 3 target = ''../'' then strip_parent (drop 3 target) else target)"
  by pat_completeness auto
termination
proof (relation "measure length")
  show "(drop 3 target, target) \<in> measure length" if "take 3 target = ''../''" for target :: string
    using that by (cases target) auto
qed simp

declare strip_parent.simps [simp del]

definition extract_target :: "string \<Rightarrow> string \<Rightarrow> string result" where
  "extract_target dest filename =
     (let target = Join dest (strip_parent (Clean filename)) in
      if take (length dest + 1) target \<noteq> dest @ [slash] \<and> dest \<noteq> target
      then Err (InvalidCpioPath filename) else Ok target)"

text \<open>\<^verbatim>\<open>io.Copy\<close> into the file: the calls made, and how many bytes were written.\<close>

definition copy_Write :: "fs_env \<Rightarrow> string \<Rightarrow> (fs_op list \<times> nat) write_op" where
  "copy_Write os path w bs =
     (case fs_call os (WriteFile path bs) (fst w) of
        (Some e, ops) \<Rightarrow> (Some (ErrOS e), ops, snd w)
      | (None, ops) \<Rightarrow> (None, ops, snd w + length bs))"

definition copy_payload ::
  "fs_env \<Rightarrow> string \<Rightarrow> file_stream \<Rightarrow> extract_state \<Rightarrow> (nat result) \<times> extract_state" where
  "copy_payload os path payload st =
     (let s = (payload, cs_stream (ex_stream st)) in
      case CopyTo fs_Read (copy_Write os path) 32768 (Suc (cr_steps (snd s))) s (ex_ops st, 0) of
        (e, (_, cr), ops, written) \<Rightarrow>
          (case e of Some err \<Rightarrow> Err (IOError err) | None \<Rightarrow> Ok written,
           st\<lparr>ex_stream := (ex_stream st)\<lparr>cs_stream := cr\<rparr>, ex_ops := ops\<rparr>))"

primrec make_links :: "fs_env \<Rightarrow> string \<Rightarrow> string list \<Rightarrow> extract_state \<Rightarrow> unit result \<times> extract_state" where
  "make_links os target [] st = (Ok (), st)"
| "make_links os target (t # ts) st =
     ebind (fs_do os (Link target t) st) (\<lambda>_ st1. make_links os target ts st1) id"

definition extract_regular :: "fs_env \<Rightarrow> CpioEntry \<Rightarrow> string \<Rightarrow> extract_state \<Rightarrow> unit result \<times> extract_state" where
  "extract_regular os ent target st =
     (let hdr = ce_Header ent in
      if 1 < ch_nlink hdr \<and> ch_filesize hdr = 0 then
        (let l = (case ex_linkMap st (ch_ino hdr) of Some ts \<Rightarrow> ts | None \<Rightarrow> []) in
         (Ok (), st\<lparr>ex_linkMap := (ex_linkMap st)(ch_ino hdr := Some (l @ [target]))\<rparr>))
      else
        ebind (fs_do os (CreateFile target) st) (\<lambda>_ st1.
        ebind (copy_payload os target (ce_payload ent) st1) (\<lambda>written st2.
          if int written \<noteq> ch_filesize hdr then (Err ShortWrite, st2)
          else
        ebind (fs_do os (CloseFile target) st2) (\<lambda>_ st3.
          if 1 < ch_nlink hdr \<and> 0 < ch_filesize hdr then
            (case ex_linkMap st3 (ch_ino hdr) of
               None \<Rightarrow> (Err HardlinksMissing, st3)
             | Some l \<Rightarrow> make_links os target l st3)
          else (Ok (), st3)) id) id) id)"

text \<open>
  The target of a symbolic link is read by a single \<^verbatim>\<open>Read\<close> into a buffer of the size of the
  file.
\<close>

definition extract_symlink :: "fs_env \<Rightarrow> CpioEntry \<Rightarrow> string \<Rightarrow> extract_state \<Rightarrow> unit result \<times> extract_state" where
  "extract_symlink os ent target st =
     (let n = ch_filesize (ce_Header ent) in
      if n < 0 then (Panic MakeSliceOutOfRange, st)
      else (case fs_Read (ce_payload ent, cs_stream (ex_stream st)) (nat n) of
              ((bs, e), _, cr) \<Rightarrow>
                (let st1 = st\<lparr>ex_stream := (ex_stream st)\<lparr>cs_stream := cr\<rparr>\<rparr> in
                 case e of
                   Some err \<Rightarrow> (Err (IOError err), st1)
                 | None \<Rightarrow> fs_do os (Symlink (string_of_bytes (bs @ replicate (nat n - length bs) 0)) target) st1)))"

definition extract_entry :: "fs_env \<Rightarrow> string \<Rightarrow> CpioEntry \<Rightarrow> extract_state \<Rightarrow> unit result \<times> extract_state" where
  "extract_entry os dest ent st =
     (let hdr = ce_Header ent; m = ch_mode hdr AND NOT 0xFFF in
      case extract_target dest (ch_filename hdr) of
        Err e \<Rightarrow> (Err e, st)
      | Panic p \<Rightarrow> (Panic p, st)
      | Ok target \<Rightarrow>
          ebind (fs_do os (MkdirAll (Dir target)) st) (\<lambda>_ st1.
            if m = S_ISCHR then (Ok (), st1)
            else if m = S_ISBLK then (Ok (), st1)
            else if m = S_ISDIR then
              (case fs_call os (Mkdir target (ch_mode hdr AND 0x1FF)) (ex_ops st1) of
                 (Some e, ops) \<Rightarrow>
                   (if e \<noteq> ErrExist then Err (IOError (ErrOS e)) else Ok (), st1\<lparr>ex_ops := ops\<rparr>)
               | (None, ops) \<Rightarrow> (Ok (), st1\<lparr>ex_ops := ops\<rparr>))
            else if m = S_ISFIFO then fileutil_Mkfifo os target (take_bit 32 (ch_mode hdr)) st1
            else if m = S_ISLNK then extract_symlink os ent target st1
            else if m = S_ISREG then extract_regular os ent target st1
            else (Err (UnknownFileMode (ch_mode hdr) (ch_filename hdr)), st1)) id)"

text \<open>
  The loop, with fuel; \<open>None\<close> would mean that the fuel ran out.  Every entry consumes bytes of
  the archive, so one more than their number is enough.
\<close>

primrec extract_loop :: "fs_env \<Rightarrow> string \<Rightarrow> nat \<Rightarrow> extract_state \<Rightarrow> unit result option \<times> extract_state" where
  "extract_loop os dest 0 st = (None, st)"
| "extract_loop os dest (Suc k) st =
     (case ReadNextEntry (ex_stream st) of
        (Err e, cs) \<Rightarrow> (Some (Err e), st\<lparr>ex_stream := cs\<rparr>)
      | (Panic p, cs) \<Rightarrow> (Some (Panic p), st\<lparr>ex_stream := cs\<rparr>)
      | (Ok ent, cs) \<Rightarrow>
          (let st1 = st\<lparr>ex_stream := cs\<rparr> in
           if ch_filename (ce_Header ent) = TRAILER then (Some (Ok ()), st1)
           else (case extract_entry os dest ent st1 of
                   (Ok _, st2) \<Rightarrow> extract_loop os dest k st2
                 | (Err e, st2) \<Rightarrow> (Some (Err e), st2)
                 | (Panic p, st2) \<Rightarrow> (Some (Panic p), st2))))"

definition Extract :: "fs_env \<Rightarrow> reader \<Rightarrow> string \<Rightarrow> unit result option \<times> fs_op list" where
  "Extract os rs dest =
     (let st = \<lparr>ex_stream = NewCpioStream rs, ex_linkMap = Map.empty, ex_ops = []\<rparr> in
      case extract_loop os (Clean dest) (Suc (length (reader_pending rs))) st of
        (r, st') \<Rightarrow> (r, ex_ops st'))"

section \<open>Every operation stays below the destination\<close>

lemma extract_target_within:
  assumes "extract_target (Clean dest) filename = Ok t" "comps dest \<noteq> [] \<Longrightarrow> last (comps dest) \<noteq> ''..''"
  shows "within (Clean dest) t \<and> (within (Clean dest) (Dir t) \<or> t = Clean dest)"
proof (cases "t = Clean dest")
  case False
  let ?d = "Clean dest"
  have t: "t = Join ?d (strip_parent (Clean filename))" and pre: "take (length ?d + 1) t = ?d @ [slash]"
    using assms(1) False by (auto simp: extract_target_def Let_def split: if_splits)
  have "?d \<noteq> ''''" using render_ne [OF normal_comps [of dest]] by (simp add: Clean_render)
  then obtain p where p: "t = Clean p" unfolding t Join_def by simp
  have "t = (?d @ [slash]) @ drop (length ?d + 1) t" by (metis append_take_drop_id pre)
  then have q: "render (is_rooted p) (comps p) = render (is_rooted dest) (comps dest) @ slash # drop (length ?d + 1) t"
    using p by (simp add: Clean_render)
  from within_render [OF normal_comps normal_comps assms(2) q] within_Dir_render [OF normal_comps normal_comps assms(2) q]
  show ?thesis using p by (simp add: Clean_render)
qed (simp add: within_def)

text \<open>An operation that makes parents in \<open>M\<close> and touches paths in \<open>W\<close> only.\<close>

definition op_allowed :: "(string \<Rightarrow> bool) \<Rightarrow> (string \<Rightarrow> bool) \<Rightarrow> fs_op \<Rightarrow> bool" where
  "op_allowed M W op \<longleftrightarrow>
     (case op of
        MkdirAll p \<Rightarrow> M p
      | Mkdir p _ \<Rightarrow> W p
      | Mkfifo p _ \<Rightarrow> W p
      | Symlink _ p \<Rightarrow> W p
      | CreateFile p \<Rightarrow> W p
      | WriteFile p _ \<Rightarrow> W p
      | CloseFile p \<Rightarrow> W p
      | Link a b \<Rightarrow> W a \<and> W b)"

definition op_within :: "string \<Rightarrow> fs_op \<Rightarrow> bool" where
  "op_within d = op_allowed (\<lambda>p. within d p \<or> p = Dir d) (within d)"

text \<open>
  What a step of the extraction keeps: the operations so far and the pending hard links stay
  below the destination, and no bytes come back into the stream.
\<close>

definition contained :: "(string \<Rightarrow> bool) \<Rightarrow> (string \<Rightarrow> bool) \<Rightarrow> extract_state \<Rightarrow> bool" where
  "contained M W st \<longleftrightarrow> list_all (op_allowed M W) (ex_ops st)
     \<and> (\<forall>ino l. ex_linkMap st ino = Some l \<longrightarrow> list_all W l)"

abbreviation ex_left :: "extract_state \<Rightarrow> nat" where
  "ex_left st \<equiv> length (cr_pending (cs_stream (ex_stream st)))"

definition keeps :: "(string \<Rightarrow> bool) \<Rightarrow> (string \<Rightarrow> bool) \<Rightarrow> extract_state \<Rightarrow> extract_state \<Rightarrow> bool" where
  "keeps M W st st' \<longleftrightarrow> (contained M W st \<longrightarrow> contained M W st') \<and> ex_left st' \<le> ex_left st"

lemma keeps_refl [simp, intro]: "keeps M W st st"
  by (simp add: keeps_def)

lemma keeps_trans: "keeps M W st st1 \<Longrightarrow> keeps M W st1 st2 \<Longrightarrow> keeps M W st st2"
  by (auto simp: keeps_def)

lemma keeps_ebind:
  assumes "keeps M W st (snd m)" "\<And>x s. m = (Ok x, s) \<Longrightarrow> keeps M W s (snd (f x s))"
  shows "keeps M W st (snd (ebind m f id))"
proof (cases m)
  case (Pair r s)
  then show ?thesis using assms keeps_trans [of M W st s] by (cases r) auto
qed

lemma keeps_op: "op_allowed M W op \<Longrightarrow> keeps M W st (st\<lparr>ex_ops := ex_ops st @ [op]\<rparr>)"
  by (simp add: keeps_def contained_def)

lemma keeps_fs_do: "op_allowed M W op \<Longrightarrow> keeps M W st (snd (fs_do os op st))"
  using keeps_op [of M W op st] by (simp add: fs_do_def fs_call_def split: option.splits)

lemma keeps_copy_payload:
  assumes "W path"
  shows "keeps M W st (snd (copy_payload os path payload st))"
proof -
  let ?s = "(payload, cs_stream (ex_stream st))" and ?w = "(ex_ops st, 0 :: nat)"
  obtain e fs cr ops n where c: "CopyTo fs_Read (copy_Write os path) 32768 (Suc (cr_steps (cs_stream (ex_stream st)))) ?s ?w
      = (e, (fs, cr), ops, n)" by (metis prod.collapse)
  have "length (cr_pending (snd (fs, cr))) \<le> length (cr_pending (snd ?s))
      \<and> (list_all (op_allowed M W) (ex_ops st) \<longrightarrow> list_all (op_allowed M W) (fst (ops, n)))"
  proof (rule CopyTo_invariant [OF _ _ c])
    show "length (cr_pending (snd s')) \<le> length (cr_pending (snd ?s))"
      if "length (cr_pending (snd s)) \<le> length (cr_pending (snd ?s))" "fs_Read s k = ((bs, e), s')" for s k bs e s'
      using that fs_Read_left [OF that(2)] by simp
    show "list_all (op_allowed M W) (ex_ops st) \<longrightarrow> list_all (op_allowed M W) (fst (snd (copy_Write os path w bs)))"
      if "list_all (op_allowed M W) (ex_ops st) \<longrightarrow> list_all (op_allowed M W) (fst w)" for w bs
      using that assms by (auto simp: copy_Write_def fs_call_def op_allowed_def split: option.splits)
  qed simp_all
  then show ?thesis using c by (auto simp: copy_payload_def Let_def keeps_def contained_def simp del: CopyTo.simps)
qed

lemma keeps_make_links:
  "W target \<Longrightarrow> list_all W l \<Longrightarrow> keeps M W st (snd (make_links os target l st))"
  by (induction l arbitrary: st) (auto intro!: keeps_ebind keeps_fs_do simp: op_allowed_def)

lemma make_links_stream: "ex_stream (snd (make_links os target l st)) = ex_stream st"
proof (induction l arbitrary: st)
  case (Cons t l)
  obtain r s where f: "fs_do os (Link target t) st = (r, s)" by (metis prod.collapse)
  then have "ex_stream s = ex_stream st" by (auto simp: fs_do_def fs_call_def split: option.splits)
  then show ?case using f Cons by (cases r) auto
qed simp

lemma keeps_extract_regular:
  assumes "W target"
  shows "keeps M W st (snd (extract_regular os ent target st))"
proof (cases "1 < ch_nlink (ce_Header ent) \<and> ch_filesize (ce_Header ent) = 0")
  case True
  then show ?thesis
    using assms by (auto simp: extract_regular_def Let_def keeps_def contained_def split: option.splits)
next
  case False
  have links: "keeps M W s (snd (make_links os target l s))" if "ex_linkMap s ino = Some l" for s ino l
  proof (cases "contained M W s")
    case True
    then show ?thesis using that assms unfolding contained_def by (blast intro: keeps_make_links)
  qed (simp add: keeps_def make_links_stream)
  show ?thesis
    using False assms
    by (auto simp: extract_regular_def Let_def op_allowed_def split: option.splits
        intro!: keeps_ebind keeps_fs_do keeps_copy_payload links)
qed

lemma keeps_extract_symlink:
  assumes "W target"
  shows "keeps M W st (snd (extract_symlink os ent target st))"
proof -
  obtain bs e fs cr where r: "fs_Read (ce_payload ent, cs_stream (ex_stream st)) (nat (ch_filesize (ce_Header ent)))
      = ((bs, e), fs, cr)" by (metis prod.collapse)
  let ?st = "st\<lparr>ex_stream := (ex_stream st)\<lparr>cs_stream := cr\<rparr>\<rparr>"
  have st: "keeps M W st ?st" using fs_Read_left [OF r] by (simp add: keeps_def contained_def)
  have "keeps M W st (snd (fs_do os (Symlink x target) ?st))" for x
    by (rule keeps_trans [OF st keeps_fs_do]) (simp add: op_allowed_def assms)
  then show ?thesis using st by (auto simp: extract_symlink_def Let_def r split: option.splits)
qed

lemma keeps_extract_entry:
  assumes "\<And>t. extract_target d (ch_filename (ce_Header ent)) = Ok t \<Longrightarrow> W t \<and> M (Dir t)"
  shows "keeps M W st (snd (extract_entry os d ent st))"
proof (cases "extract_target d (ch_filename (ce_Header ent))")
  case (Ok t)
  have t: "W t" and p: "op_allowed M W (MkdirAll (Dir t))"
    using assms [OF Ok] by (auto simp: op_allowed_def)
  have mkdir: "keeps M W s (s\<lparr>ex_ops := ex_ops s @ [Mkdir t m]\<rparr>)" for s m
    using t by (intro keeps_op) (simp add: op_allowed_def)
  show ?thesis
    unfolding extract_entry_def Let_def Ok result.case
    by (rule keeps_ebind [OF keeps_fs_do [OF p]])
       (auto simp: fs_call_def op_allowed_def fileutil_Mkfifo_def t mkdir split: option.splits
          intro!: keeps_fs_do keeps_extract_symlink keeps_extract_regular)
qed (simp_all add: extract_entry_def Let_def)

section \<open>The loop\<close>

lemma extract_loop_contained:
  assumes "\<And>nm t. extract_target d nm = Ok t \<Longrightarrow> W t \<and> M (Dir t)"
  shows "contained M W st \<Longrightarrow> contained M W (snd (extract_loop os d fuel st))"
proof (induction fuel arbitrary: st)
  case (Suc k)
  obtain r cs where n: "ReadNextEntry (ex_stream st) = (r, cs)" by (metis prod.collapse)
  let ?st = "st\<lparr>ex_stream := cs\<rparr>"
  have st: "contained M W ?st" using Suc.prems by (simp add: contained_def)
  show ?case
  proof (cases r)
    case (Ok ent)
    obtain e st2 where x: "extract_entry os d ent ?st = (e, st2)" by (metis prod.collapse)
    then have "contained M W st2"
      using keeps_extract_entry [of d ent W M ?st os] assms st by (simp add: keeps_def)
    then show ?thesis using n Ok st x Suc.IH by (cases e) (auto simp: Let_def)
  qed (use n st in simp_all)
qed simp

lemma extract_loop_ends: "ex_left st < fuel \<Longrightarrow> fst (extract_loop os d fuel st) \<noteq> None"
proof (induction fuel arbitrary: st)
  case (Suc k)
  obtain r cs where n: "ReadNextEntry (ex_stream st) = (r, cs)" by (metis prod.collapse)
  let ?st = "st\<lparr>ex_stream := cs\<rparr>"
  show ?case
  proof (cases r)
    case (Ok ent)
    obtain e st2 where x: "extract_entry os d ent ?st = (e, st2)" by (metis prod.collapse)
    then have "ex_left st2 \<le> ex_left ?st"
      using keeps_extract_entry [of d ent "\<lambda>_. True" "\<lambda>_. True" ?st os] by (simp add: keeps_def)
    also have "\<dots> < ex_left st" using ReadNextEntry_consumes [of "ex_stream st" ent cs] n Ok by simp
    finally have "fst (extract_loop os d k st2) \<noteq> None" using Suc.prems by (intro Suc.IH) simp
    then show ?thesis using n Ok x by (cases e) (auto simp: Let_def)
  qed (use n in simp_all)
qed simp

section \<open>Properties\<close>

text \<open>
  C8.  Extraction stays below the destination, whatever the archive contains and however the
  operating system answers: every directory, file, pipe, symbolic link and hard link that
  \<open>Extract\<close> asks the system to create, and every file it writes, has a path that is the
  cleaned destination or lies below it without \<^verbatim>\<open>..\<close> on the way; only the parent
  directory of the destination itself may be created besides.  (The destination must not
  end in \<^verbatim>\<open>..\<close>.  Containment is that of the names: a symbolic link of the archive
  is followed by later operations.)
\<close>

theorem Extract_contained:
  assumes "comps dest \<noteq> [] \<Longrightarrow> last (comps dest) \<noteq> ''..''"
  shows "list_all (op_within (Clean dest)) (snd (Extract os rs dest))"
proof -
  let ?st = "\<lparr>ex_stream = NewCpioStream rs, ex_linkMap = Map.empty, ex_ops = []\<rparr>"
  let ?W = "within (Clean dest)" and ?M = "\<lambda>p. within (Clean dest) p \<or> p = Dir (Clean dest)"
  have "contained ?M ?W ?st" by (simp add: contained_def)
  moreover have "?W t \<and> ?M (Dir t)" if "extract_target (Clean dest) nm = Ok t" for nm t
    using extract_target_within [OF that assms] by auto
  ultimately have "contained ?M ?W (snd (extract_loop os (Clean dest) (Suc (length (reader_pending rs))) ?st))"
    by (intro extract_loop_contained)
  then show ?thesis
    by (simp add: Extract_def Let_def contained_def op_within_def split_def del: extract_loop.simps)
qed

theorem Extract_contained_witness:
  "list_all (op_within (Clean ''/tmp/../srv//d'')) (snd (Extract (\<lambda>_ _. None) sample_archive ''/tmp/../srv//d''))"
proof (rule Extract_contained)
  have "comps ''/tmp/../srv//d'' = [''srv'', ''d'']" by code_simp
  then show "last (comps ''/tmp/../srv//d'') \<noteq> ''..''" by simp
qed

text \<open>
  The condition on the destination is needed: only the prefixes \<^verbatim>\<open>../\<close> are stripped, so an entry \<^verbatim>\<open>..\<close> leads to the
  parent of a destination \<^verbatim>\<open>..\<close>, whose name passes the check.
\<close>

theorem extract_target_parent:
  "extract_target (Clean ''..'') ''..'' = Ok ''../..'' \<and> \<not> within (Clean ''..'') ''../..''"
proof -
  have "extract_target (Clean ''..'') ''..'' = Ok ''../..''" "Clean ''..'' = ''..''" "''..'' \<in> set (split_on slash ''..'')"
    by code_simp+
  then show ?thesis by (auto simp: within_def)
qed

text \<open>
  C33.  \<open>Extract\<close> ends on every stream that delivers finitely many bytes, with success, an error
  or a panic: every round of its loop consumes bytes of the archive.
\<close>

theorem Extract_terminates:
  "\<exists>r. fst (Extract os rs dest) = Some r"
proof -
  let ?st = "\<lparr>ex_stream = NewCpioStream rs, ex_linkMap = Map.empty, ex_ops = []\<rparr>"
  have "ex_left ?st = length (reader_pending rs)" by (simp add: NewCpioStream_def)
  then have "fst (extract_loop os (Clean dest) (Suc (length (reader_pending rs))) ?st) \<noteq> None"
    by (intro extract_loop_ends) simp
  then show ?thesis by (simp add: Extract_def Let_def split_def del: extract_loop.simps)
qed

end
