(* ===== verification/Answers.thy ===== *)
theory Answers
  imports Extract "HOL-Library.Sublist"
begin

text \<open>
  How extraction depends on the answers of the operating system.  \<open>granted\<close> says which answers let
  \<^verbatim>\<open>cpio/extract.go\<close> go on.  The behaviour of \<open>Extract\<close> on any system is compared with the one on
  its completion \<open>ideal os\<close>, which answers like \<open>os\<close> where \<open>os\<close> grants a call and grants the
  others too: both make the same calls up to the first one that is not granted, and there the
  extraction ends.  The completion is a device of the proofs; the properties speak of \<open>os\<close>.
\<close>

section \<open>Answers\<close>

text \<open>The system grants a call when it reports success; a directory that exists will do.\<close>

definition granted :: "fs_env \<Rightarrow> fs_op list \<Rightarrow> fs_op \<Rightarrow> bool" where
  "granted os ops op \<longleftrightarrow>
     (case os ops op of None \<Rightarrow> True | Some e \<Rightarrow> e = ErrExist \<and> (case op of Mkdir _ _ \<Rightarrow> True | _ \<Rightarrow> False))"

definition all_granted :: "fs_env \<Rightarrow> fs_op list \<Rightarrow> bool" where
  "all_granted os ops \<longleftrightarrow> (\<forall>i < length ops. granted os (take i ops) (ops ! i))"

text \<open>The last call is the first that was not granted, and its error is the result.\<close>

definition refused :: "fs_env \<Rightarrow> go_error \<Rightarrow> fs_op list \<Rightarrow> bool" where
  "refused os err ops \<longleftrightarrow> (\<exists>before op e. ops = before @ [op] \<and> all_granted os before \<and> \<not> granted os before op
     \<and> os before op = Some e \<and> err = IOError (ErrOS e))"

definition ideal :: "fs_env \<Rightarrow> fs_env" where
  "ideal os ops op = (if granted os ops op then os ops op else None)"

lemma all_granted_snoc [simp]:
  "all_granted os []" "all_granted os (ops @ [op]) \<longleftrightarrow> all_granted os ops \<and> granted os ops op"
  by (auto simp: all_granted_def nth_append less_Suc_eq)

lemma granted_ideal [simp]: "granted os ops op \<Longrightarrow> ideal os ops op = os ops op"
  by (simp add: ideal_def)

lemma not_granted: "\<not> granted os ops op \<Longrightarrow> ideal os ops op = None \<and> (\<exists>e. os ops op = Some e)"
  by (auto simp: ideal_def granted_def split: option.splits)

lemma granted_call: "(\<And>p m. op \<noteq> Mkdir p m) \<Longrightarrow> granted os ops op \<longleftrightarrow> os ops op = None"
  by (auto simp: granted_def split: option.splits fs_op.splits)

lemma all_granted_refused: "refused os e ops \<Longrightarrow> \<not> all_granted os ops"
  by (auto simp: refused_def)

section \<open>The same calls up to the first refusal\<close>

text \<open>
  \<open>x\<close> is what a step does on \<open>os\<close> and \<open>y\<close> what it does on the completion, both after the calls \<open>ops\<close>.
\<close>

definition tracks ::
  "fs_env \<Rightarrow> fs_op list \<Rightarrow> 'a result \<times> extract_state \<Rightarrow> 'a result \<times> extract_state \<Rightarrow> bool" where
  "tracks os ops x y \<longleftrightarrow> prefix ops (ex_ops (snd y))
     \<and> (all_granted os ops \<longrightarrow>
          y = x \<and> all_granted os (ex_ops (snd x))
          \<or> (\<exists>e. fst x = Err e \<and> refused os e (ex_ops (snd x))) \<and> prefix (ex_ops (snd x)) (ex_ops (snd y)))"

lemma tracks_refl [simp, intro]: "tracks os (ex_ops st) (r, st) (r, st)"
  by (simp add: tracks_def)

lemma tracks_update: "ex_ops st' = ops \<Longrightarrow> tracks os ops (r, st') (r, st')"
  by (simp add: tracks_def)

lemma tracks_ebind:
  assumes "tracks os ops m m'" "\<And>x s. tracks os (ex_ops s) (f x s) (f' x s)"
  shows "tracks os ops (ebind m f id) (ebind m' f' id)"
proof -
  obtain r s r' s' where m: "m = (r, s)" "m' = (r', s')" by (metis prod.collapse)
  have grow: "prefix (ex_ops s') (ex_ops (snd (ebind m' f' id)))"
    using assms(2) by (cases r') (simp_all add: m tracks_def)
  have 1: "prefix ops (ex_ops s')" using assms(1) by (simp add: m tracks_def)
  consider "\<not> all_granted os ops" | "m' = m" "all_granted os (ex_ops s)"
    | e where "r = Err e" "refused os e (ex_ops s)" "prefix (ex_ops s) (ex_ops s')"
    using assms(1) by (auto simp: m tracks_def)
  then show ?thesis
  proof cases
    case 2
    then show ?thesis using assms(2) 1 by (cases r) (auto simp: m tracks_def intro: prefix_order.trans)
  next
    case 3
    then show ?thesis using 1 grow by (auto simp: m(1) tracks_def intro: prefix_order.trans)
  qed (use 1 grow in \<open>auto simp: tracks_def intro: prefix_order.trans\<close>)
qed

text \<open>One call.\<close>

lemma tracks_fs_do:
  assumes "\<And>p m. op \<noteq> Mkdir p m"
  shows "tracks os (ex_ops st) (fs_do os op st) (fs_do (ideal os) op st)"
proof (cases "granted os (ex_ops st) op")
  case True
  then show ?thesis using assms by (auto simp: fs_do_def fs_call_def tracks_def granted_call split: option.splits)
next
  case False
  with not_granted [OF False] show ?thesis by (auto simp: fs_do_def fs_call_def tracks_def refused_def)
qed

lemma tracks_mkdir:
  "tracks os (ex_ops st)
     (case fs_call os (Mkdir t m) (ex_ops st) of
        (Some e, ops) \<Rightarrow> (if e \<noteq> ErrExist then Err (IOError (ErrOS e)) else Ok (), st\<lparr>ex_ops := ops\<rparr>)
      | (None, ops) \<Rightarrow> (Ok (), st\<lparr>ex_ops := ops\<rparr>))
     (case fs_call (ideal os) (Mkdir t m) (ex_ops st) of
        (Some e, ops) \<Rightarrow> (if e \<noteq> ErrExist then Err (IOError (ErrOS e)) else Ok (), st\<lparr>ex_ops := ops\<rparr>)
      | (None, ops) \<Rightarrow> (Ok (), st\<lparr>ex_ops := ops\<rparr>))"
proof (cases "granted os (ex_ops st) (Mkdir t m)")
  case True
  then show ?thesis by (auto simp: fs_call_def tracks_def granted_def split: option.splits)
next
  case False
  with not_granted [OF False] show ?thesis
    by (auto simp: fs_call_def tracks_def refused_def granted_def split: option.splits)
qed

text \<open>A copy: the writes up to the first that is refused.\<close>

lemma CopyTo_grows:
  assumes "CopyTo rd (copy_Write os t) b fuel s w = (e, s', w')"
  shows "prefix (fst w) (fst w')"
proof -
  have "True \<and> prefix (fst w) (fst w')"
  proof (rule CopyTo_invariant [where P = "\<lambda>_. True" and Q = "\<lambda>v. prefix (fst w) (fst v)", OF _ _ assms])
    show "prefix (fst w) (fst (snd (copy_Write os t v bs)))" if "prefix (fst w) (fst v)" for v bs
      using that by (simp add: copy_Write_def fs_call_def split: option.splits)
  qed simp_all
  then show ?thesis by simp
qed

lemma CopyTo_ideal:
  assumes "CopyTo rd (copy_Write os t) b fuel s w = (e, s', w')" "CopyTo rd (copy_Write (ideal os) t) b fuel s w = (ei, si, wi)"
    and "all_granted os (fst w)"
  shows "(ei, si, wi) = (e, s', w') \<and> all_granted os (fst w')
     \<or> prefix (fst w') (fst wi) \<and> (\<exists>x. e = Some x \<and> refused os (IOError x) (fst w'))"
  using assms
proof (induction fuel arbitrary: s w)
  case (Suc k)
  obtain bs er s1 where rd: "rd s b = ((bs, er), s1)" by (metis prod.collapse)
  let ?op = "WriteFile t bs"
  let ?w = "(fst w @ [?op], snd w + length bs)"
  have ideal: "copy_Write (ideal os) t w bs = (None, ?w)"
    by (cases "granted os (fst w) ?op")
       (simp_all add: copy_Write_def fs_call_def not_granted granted_call [of ?op])
  show ?case
  proof (cases "bs = [] \<or> granted os (fst w) ?op")
    case True
    let ?w1 = "if bs = [] then w else ?w"
    have w1: "(if bs = [] then (None, w) else copy_Write os t w bs) = (None, ?w1)"
      using True by (auto simp: copy_Write_def fs_call_def granted_call [of ?op])
    have w1i: "(if bs = [] then (None, w) else copy_Write (ideal os) t w bs) = (None, ?w1)" by (simp add: ideal)
    have "all_granted os (fst ?w1)" using True Suc.prems(3) by auto
    then show ?thesis
      using Suc.prems(1,2) Suc.IH [of s1 ?w1] by (cases er) (simp_all add: rd w1 w1i del: if_split)
  next
    case False
    then obtain x where x: "os (fst w) ?op = Some x" using not_granted by blast
    have e: "e = Some (ErrOS x)" "w' = (fst w @ [?op], snd w)"
      using Suc.prems(1) False x by (simp_all add: rd copy_Write_def fs_call_def)
    have "prefix (fst ?w) (fst wi)"
      using Suc.prems(2) False CopyTo_grows [of rd "ideal os" t b k s1 ?w ei si wi]
      by (auto simp: rd ideal split: option.splits)
    then show ?thesis using e False x Suc.prems(3) by (auto simp: refused_def)
  qed
qed simp

lemma tracks_copy_payload:
  "tracks os (ex_ops st) (copy_payload os t payload st) (copy_payload (ideal os) t payload st)"
proof -
  let ?s = "(payload, cs_stream (ex_stream st))" and ?w = "(ex_ops st, 0 :: nat)" and ?n = "Suc (cr_steps (cs_stream (ex_stream st)))"
  obtain e fs cr ops n where c: "CopyTo fs_Read (copy_Write os t) 32768 ?n ?s ?w = (e, (fs, cr), ops, n)"
    by (metis prod.collapse)
  obtain ei fsi cri opsi ni where ci: "CopyTo fs_Read (copy_Write (ideal os) t) 32768 ?n ?s ?w = (ei, (fsi, cri), opsi, ni)"
    by (metis prod.collapse)
  show ?thesis
    using CopyTo_grows [OF ci] CopyTo_ideal [OF c ci] c ci
    by (auto simp: copy_payload_def tracks_def simp del: CopyTo.simps)
qed

section \<open>A whole extraction\<close>

lemma tracks_make_links: "tracks os (ex_ops st) (make_links os t l st) (make_links (ideal os) t l st)"
  by (induction l arbitrary: st) (auto intro!: tracks_ebind tracks_fs_do)

lemma tracks_extract_regular:
  "tracks os (ex_ops st) (extract_regular os ent t st) (extract_regular (ideal os) ent t st)"
  by (auto simp: extract_regular_def Let_def split: option.splits
      intro!: tracks_update tracks_ebind tracks_fs_do tracks_copy_payload tracks_make_links)

lemma tracks_extract_symlink:
  "tracks os (ex_ops st) (extract_symlink os ent t st) (extract_symlink (ideal os) ent t st)"
proof -
  obtain bs e fs cr where r: "fs_Read (ce_payload ent, cs_stream (ex_stream st)) (nat (ch_filesize (ce_Header ent)))
      = ((bs, e), fs, cr)" by (metis prod.collapse)
  have "tracks os (ex_ops st) (fs_do os (Symlink x t) (st\<lparr>ex_stream := cs\<rparr>)) (fs_do (ideal os) (Symlink x t) (st\<lparr>ex_stream := cs\<rparr>))" for x cs
    using tracks_fs_do [of "Symlink x t" os "st\<lparr>ex_stream := cs\<rparr>"] by simp
  then show ?thesis by (auto simp: extract_symlink_def Let_def r intro!: tracks_update split: option.splits)
qed

lemma tracks_extract_entry:
  "tracks os (ex_ops st) (extract_entry os d ent st) (extract_entry (ideal os) d ent st)"
proof (cases "extract_target d (ch_filename (ce_Header ent))")
  case (Ok t)
  show ?thesis
    unfolding extract_entry_def Let_def Ok result.case
    by (rule tracks_ebind [OF tracks_fs_do])
       (auto simp: fileutil_Mkfifo_def simp del: if_split_asm
          intro!: tracks_mkdir tracks_fs_do tracks_extract_symlink tracks_extract_regular)
qed (simp_all add: extract_entry_def Let_def)

text \<open>The loop: its outcome is a value of an option, which is there on both sides when the fuel is enough.\<close>

lemma extract_loop_grows: "prefix (ex_ops st) (ex_ops (snd (extract_loop (ideal os) d fuel st)))"
proof (induction fuel arbitrary: st)
  case (Suc k)
  obtain n cs where n: "ReadNextEntry (ex_stream st) = (n, cs)" by (metis prod.collapse)
  obtain ent where ent: "n = Ok ent \<or> (\<forall>x. n \<noteq> Ok x)" by blast
  obtain r s where x: "extract_entry (ideal os) d ent (st\<lparr>ex_stream := cs\<rparr>) = (r, s)" by (metis prod.collapse)
  then have "prefix (ex_ops st) (ex_ops s)"
    using tracks_extract_entry [of os "st\<lparr>ex_stream := cs\<rparr>" d ent] by (simp add: tracks_def)
  then show ?case
    using n ent x Suc.IH [of s] by (cases n; cases r) (auto simp: Let_def intro: prefix_order.trans)
qed simp

lemma extract_loop_ideal:
  assumes "extract_loop os d fuel st = (Some r, st')" "extract_loop (ideal os) d fuel st = (ri, sti)" "all_granted os (ex_ops st)"
  shows "ri = Some r \<and> sti = st' \<and> all_granted os (ex_ops st')
     \<or> (\<exists>e. r = Err e \<and> refused os e (ex_ops st')) \<and> prefix (ex_ops st') (ex_ops sti)"
  using assms
proof (induction fuel arbitrary: st)
  case (Suc k)
  obtain n cs where n: "ReadNextEntry (ex_stream st) = (n, cs)" by (metis prod.collapse)
  show ?case
  proof (cases "\<exists>ent. n = Ok ent \<and> ch_filename (ce_Header ent) \<noteq> TRAILER")
    case True
    then obtain ent where ent: "n = Ok ent" "ch_filename (ce_Header ent) \<noteq> TRAILER" by blast
    obtain x s xi si where x: "extract_entry os d ent (st\<lparr>ex_stream := cs\<rparr>) = (x, s)"
        "extract_entry (ideal os) d ent (st\<lparr>ex_stream := cs\<rparr>) = (xi, si)" by (metis prod.collapse)
    have "xi = x \<and> si = s \<and> all_granted os (ex_ops s)
        \<or> (\<exists>e. x = Err e \<and> refused os e (ex_ops s)) \<and> prefix (ex_ops s) (ex_ops si)"
      using tracks_extract_entry [of os "st\<lparr>ex_stream := cs\<rparr>" d ent] Suc.prems(3) x by (auto simp: tracks_def)
    then show ?thesis
    proof (elim disjE conjE exE)
      assume "xi = x" "si = s" "all_granted os (ex_ops s)"
      then show ?thesis using Suc.prems(1,2) Suc.IH [of s] n ent x by (cases x) auto
    next
      fix e assume e: "x = Err e" "refused os e (ex_ops s)" "prefix (ex_ops s) (ex_ops si)"
      have "prefix (ex_ops si) (ex_ops sti)"
        using Suc.prems(2) n ent x(2) extract_loop_grows [of si os d k] by (cases xi) auto
      then show ?thesis using Suc.prems(1) n ent x(1) e by (auto intro: prefix_order.trans)
    qed
  qed (use Suc.prems n in \<open>cases n; auto simp: Let_def\<close>)
qed simp

lemma Extract_ideal:
  assumes "Extract (ideal os) rs dest = (Some u, full)"
  shows "Extract os rs dest = (Some u, full) \<and> all_granted os full
     \<or> (\<exists>e ops. Extract os rs dest = (Some (Err e), ops) \<and> refused os e ops \<and> prefix ops full)"
proof -
  let ?st = "\<lparr>ex_stream = NewCpioStream rs, ex_linkMap = Map.empty, ex_ops = []\<rparr>" and ?n = "Suc (length (reader_pending rs))"
  obtain r st where l: "extract_loop os (Clean dest) ?n ?st = (Some r, st)"
    using extract_loop_ends [of ?st ?n os "Clean dest"]
    by (cases "extract_loop os (Clean dest) ?n ?st") (auto simp: NewCpioStream_def simp del: extract_loop.simps)
  obtain ri sti where li: "extract_loop (ideal os) (Clean dest) ?n ?st = (ri, sti)" by (metis prod.collapse)
  show ?thesis
    using extract_loop_ideal [OF l li] assms l li by (auto simp: Extract_def Let_def simp del: extract_loop.simps)
qed

end
