(* ===== verification/Unpack.thy ===== *)
theory Unpack
  imports Answers
begin

text \<open>
  What extraction does to the file system, as an abstract specification: \<open>unpack\<close> says, from the
  files of an archive alone, which operations extract them, and \<^verbatim>\<open>cpio/extract.go\<close> (\<open>Extract\<close>) is
  proved to follow it, on every system and for every stream none of whose pieces ends
  inside the target of a symbolic link.  What happens when one does is the last property.
\<close>

section \<open>The specification\<close>

text \<open>The type of a file, as the digits of its mode above the permissions.\<close>

definition af_kind :: "archive_file \<Rightarrow> nat" where
  "af_kind f = af_mode f div 0x1000"

definition put_file :: "string \<Rightarrow> bytes \<Rightarrow> fs_op list" where
  "put_file t data = CreateFile t # (if data = [] then [] else [WriteFile t data]) @ [CloseFile t]"

text \<open>
  One file, with target \<open>t\<close>: device files are skipped; an empty regular file with further links
  waits for the one that carries the contents.
\<close>

definition unpack_file ::
  "(nat \<Rightarrow> string list option) \<Rightarrow> archive_file \<Rightarrow> string \<Rightarrow> unit result \<times> (nat \<Rightarrow> string list option) \<times> fs_op list" where
  "unpack_file L f t =
     (if af_kind f = 2 \<or> af_kind f = 6 then (Ok (), L, [])
      else if af_kind f = 4 then (Ok (), L, [Mkdir t (int (af_mode f mod 0x200))])
      else if af_kind f = 1 then (Ok (), L, [Mkfifo t (int (af_mode f))])
      else if af_kind f = 10 then
        (if af_data f = [] then (Err (IOError EOF), L, [])
         else (Ok (), L, [Symlink (string_of_bytes (af_data f)) t]))
      else if af_kind f = 8 then
        (if af_nlink f \<le> 1 then (Ok (), L, put_file t (af_data f))
         else if af_data f = [] then
           (Ok (), L(af_ino f \<mapsto> (case L (af_ino f) of Some l \<Rightarrow> l | None \<Rightarrow> []) @ [t]), [])
         else (case L (af_ino f) of
                 None \<Rightarrow> (Err HardlinksMissing, L, put_file t (af_data f))
               | Some l \<Rightarrow> (Ok (), L, put_file t (af_data f) @ map (Link t) l)))
      else (Err (UnknownFileMode (int (af_mode f)) (af_name f)), L, []))"

primrec unpack :: "string \<Rightarrow> (nat \<Rightarrow> string list option) \<Rightarrow> archive_file list \<Rightarrow> unit result \<times> fs_op list" where
  "unpack d L [] = (Ok (), [])"
| "unpack d L (f # fs) =
     (case extract_target d (af_name f) of
        Err e \<Rightarrow> (Err e, [])
      | Panic p \<Rightarrow> (Panic p, [])
      | Ok t \<Rightarrow>
          (case unpack_file L f t of
             (Ok _, L', ops) \<Rightarrow> (case unpack d L' fs of (r, ops') \<Rightarrow> (r, MkdirAll (Dir t) # ops @ ops'))
           | (Err e, _, ops) \<Rightarrow> (Err e, MkdirAll (Dir t) # ops)
           | (Panic p, _, ops) \<Rightarrow> (Panic p, MkdirAll (Dir t) # ops)))"

text \<open>A trace up to the size of the pieces in which a file is written.\<close>

definition join_write :: "string \<Rightarrow> bytes \<Rightarrow> fs_op list \<Rightarrow> fs_op list" where
  "join_write p bs ops =
     (case ops of
        WriteFile q cs # ops' \<Rightarrow> if p = q then WriteFile p (bs @ cs) # ops' else WriteFile p bs # ops
      | _ \<Rightarrow> WriteFile p bs # ops)"

fun coalesce :: "fs_op list \<Rightarrow> fs_op list" where
  "coalesce [] = []"
| "coalesce (WriteFile p bs # ops) = join_write p bs (coalesce ops)"
| "coalesce (op # ops) = op # coalesce ops"

text \<open>
  A system in which nothing goes wrong, except that a directory may exist already: the completion of a system
  (\<open>ideal\<close>) is one.  No real system is; the simulation is proved on the completion and then carried over to
  any system by \<open>Extract_ideal\<close>.
\<close>

definition willing :: "fs_env \<Rightarrow> bool" where
  "willing os \<longleftrightarrow> (\<forall>ops op. os ops op = None \<or> (\<exists>p m. op = Mkdir p m \<and> os ops op = Some ErrExist))"

section \<open>Pieces\<close>

lemma coalesce_writes:
  assumes "[] \<notin> set cs"
  shows "coalesce (map (WriteFile t) cs @ CloseFile t # ops)
     = (if concat cs = [] then [] else [WriteFile t (concat cs)]) @ CloseFile t # coalesce ops"
  using assms
proof (induction cs)
  case (Cons c cs)
  then show ?case by (cases "concat cs = []") (auto simp: join_write_def)
qed simp

lemma coalesce_put_file:
  "[] \<notin> set cs \<Longrightarrow> coalesce (CreateFile t # map (WriteFile t) cs @ CloseFile t # ops) = put_file t (concat cs) @ coalesce ops"
  by (simp add: coalesce_writes put_file_def)

lemma coalesce_links: "coalesce (map (Link t) l @ ops) = map (Link t) l @ coalesce ops"
  by (induction l) simp_all

section \<open>Modes\<close>

lemma int_and_not_mask: "int m AND NOT 0xFFF = int (m div 0x1000 * 0x1000)"
proof -
  have "int m AND NOT (mask 12) = push_bit 12 (drop_bit 12 (int m))"
    by (rule bit_eqI) (auto simp: bit_simps)
  then show ?thesis by (simp add: push_bit_eq_mult drop_bit_eq_div mask_eq_exp_minus_1 zdiv_int)
qed

lemma int_perm: "int m AND 0x1FF = int (m mod 0x200)"
  using take_bit_eq_mask [of 9 "int m"] by (simp add: mask_eq_exp_minus_1 take_bit_eq_mod zmod_int)

lemma kind_iff:
  "(int n AND NOT 0xFFF = S_ISCHR) = (n div 0x1000 = 2)" "(int n AND NOT 0xFFF = S_ISBLK) = (n div 0x1000 = 6)"
  "(int n AND NOT 0xFFF = S_ISDIR) = (n div 0x1000 = 4)" "(int n AND NOT 0xFFF = S_ISFIFO) = (n div 0x1000 = 1)"
  "(int n AND NOT 0xFFF = S_ISLNK) = (n div 0x1000 = 10)" "(int n AND NOT 0xFFF = S_ISREG) = (n div 0x1000 = 8)"
  unfolding int_and_not_mask by linarith+

lemma archive_header_simps [simp]:
  "ch_ino (archive_header f) = int (af_ino f)" "ch_mode (archive_header f) = int (af_mode f)"
  "ch_nlink (archive_header f) = int (af_nlink f)" "ch_filesize (archive_header f) = int (length (af_data f))"
  "ch_filename (archive_header f) = af_name f"
  by (simp_all add: archive_header_def newc_header_def af_numbers_def)

section \<open>The simulation of one entry\<close>

lemma fs_do_willing: "willing os \<Longrightarrow> (\<And>p m. op \<noteq> Mkdir p m) \<Longrightarrow> fs_do os op st = (Ok (), st\<lparr>ex_ops := ex_ops st @ [op]\<rparr>)"
proof -
  assume "willing os" "\<And>p m. op \<noteq> Mkdir p m"
  then have "os (ex_ops st) op = None" unfolding willing_def by blast
  then show ?thesis by (simp add: fs_do_def fs_call_def)
qed

lemma make_links_willing:
  assumes "willing os"
  shows "make_links os t l st = (Ok (), st\<lparr>ex_ops := ex_ops st @ map (Link t) l\<rparr>)"
  by (induction l arbitrary: st) (simp_all add: fs_do_willing [OF assms])

lemma copy_Write_willing:
  assumes "willing os"
  shows "copy_Write os t (ops, n) bs = (None, ops @ [WriteFile t bs], n + length bs)"
proof -
  have "os ops (WriteFile t bs) = None" using assms by (force simp: willing_def)
  then show ?thesis by (simp add: copy_Write_def fs_call_def)
qed

lemma foldl_copy_Write:
  assumes "willing os"
  shows "foldl (\<lambda>w bs. snd (copy_Write os t w bs)) (ops, n) cs = (ops @ map (WriteFile t) cs, n + length (concat cs))"
  by (induction cs arbitrary: ops n) (simp_all add: copy_Write_willing [OF assms])

lemma reads_fs_Read: "reads P \<Longrightarrow> P cr \<Longrightarrow> P (snd (snd (fs_Read (fs, cr) n)))"
  by (auto simp: reads_def fs_Read_def Let_def split: prod.splits) (metis snd_conv)+

lemma copy_payload_opened:
  assumes "willing os" "opened q (archive_header f) (af_data f) rest EOF ent (ex_stream st)"
    and "reads Q" "Q (cs_stream (ex_stream st))"
  shows "\<exists>cs cr. copy_payload os t (ce_payload ent) st =
       (Ok (length (af_data f)),
        st\<lparr>ex_stream := (ex_stream st)\<lparr>cs_stream := cr\<rparr>, ex_ops := ex_ops st @ map (WriteFile t) cs\<rparr>)
     \<and> concat cs = af_data f \<and> [] \<notin> set cs \<and> cs_at q rest EOF ((ex_stream st)\<lparr>cs_stream := cr\<rparr>)
     \<and> Q cr"
proof -
  let ?cs = "ex_stream st" and ?s = "(ce_payload ent, cs_stream (ex_stream st))"
  have step: "fs_in_step ?s" using opened_payload(3,4) [OF assms(2)] by (rule fs_in_step_start)
  have ok: "fst (copy_Write os t w bs) = None" for w bs
    using copy_Write_willing [OF assms(1), of t "fst w" "snd w" bs] by simp
  have "fs_steps ?s < Suc (cr_steps (snd ?s))" by (simp add: fs_steps_def)
  from fsr.CopyTo_pieces [OF step this, of 32768 "copy_Write os t" "(ex_ops st, 0)", OF _ ok]
  obtain fs' cr' cs where c: "CopyTo fs_Read (copy_Write os t) 32768 (Suc (cr_steps (snd ?s))) ?s (ex_ops st, 0)
      = (None, (fs', cr'), ex_ops st @ map (WriteFile t) cs, length (concat cs))"
      "concat cs = af_data f" "[] \<notin> set cs"
    by (auto simp: opened_payload [OF assms(2)] foldl_copy_Write [OF assms(1)] simp del: CopyTo.simps)
  let ?P = "\<lambda>s. reader_at q rest EOF \<lparr>r_stream = ?cs\<lparr>cs_stream := snd s\<rparr>, r_cur = Some (ent\<lparr>ce_payload := fst s\<rparr>)\<rparr>
      \<and> Q (snd s)"
  have inv: "?P s'" if "?P s" "fs_Read s n = ((bs, e), s')" for s n bs e s'
  proof -
    let ?r = "\<lparr>r_stream = ?cs\<lparr>cs_stream := snd s\<rparr>, r_cur = Some (ent\<lparr>ce_payload := fst s\<rparr>)\<rparr>"
    have "Reader_Read ?r n = (Ok (bs, e), \<lparr>r_stream = ?cs\<lparr>cs_stream := snd s'\<rparr>, r_cur = Some (ent\<lparr>ce_payload := fst s'\<rparr>)\<rparr>)"
      using that(2) by (cases s') (simp add: Reader_Read_def)
    then show ?thesis
      using Reader_Read_at [of q rest EOF ?r n] that reads_fs_Read [OF assms(3), of "snd s" "fst s" n] by simp
  qed
  have "?P ?s" using assms(2,4) by (simp add: opened_def)
  with CopyTo_invariant [where P = ?P and Q = "\<lambda>_. True", OF inv _ c(1)] have "?P (fs', cr')" by simp
  then show ?thesis
    using c by (intro exI [of _ cs] exI [of _ cr']) (simp add: copy_payload_def reader_at_def del: CopyTo.simps)
qed

text \<open>
  The target of a symbolic link comes from a single \<^verbatim>\<open>Read\<close>: complete if the piece the stream is in
  goes as far.
\<close>

lemma fs_Read_opened:
  assumes "opened q (archive_header f) (af_data f) rest EOF ent cs" "rd_chunks (cr_stream (cs_stream cs)) = y # ps"
    and "length (af_data f) \<le> length y" "rest \<noteq> []" "af_data f \<noteq> []"
  shows "\<exists>fs' cr'. fs_Read (ce_payload ent, cs_stream cs) (length (af_data f)) = ((af_data f, None), fs', cr')"
proof -
  let ?fs = "ce_payload ent" and ?cr = "cs_stream cs"
  obtain z where at: "cr_at (fs_start_pos ?fs) (af_data f @ z @ rest) EOF ?cr"
      and fs: "fs_curr_pos ?fs = 0" "fs_size ?fs = int (length (af_data f))"
    using assms(1) by (auto simp: opened_def)
  have pend: "y @ concat ps = af_data f @ z @ rest" and pos: "cr_curPos ?cr = fs_start_pos ?fs"
    using at assms(2) by (simp_all add: cr_at_def reader_pending_def)
  have y: "take (length (af_data f)) y = af_data f" using pend assms(3) by (metis append_eq_conv_conj take_all take_append diff_is_0_eq take0 append_Nil2)
  have "ps \<noteq> []" if "length y \<le> length (af_data f)"
  proof
    assume "ps = []"
    then have "length (y @ concat ps) \<le> length (af_data f)" using that by simp
    then show False using assms(4) unfolding pend by simp
  qed
  then show ?thesis using fs pos assms(2,3,5) y by (auto simp: fs_Read_def Let_def cr_Read_def reader_Read_def)
qed

lemma Reader_Read_opened:
  assumes "opened q (archive_header f) (af_data f) rest EOF ent cs" "fs_Read (ce_payload ent, cs_stream cs) n = ((bs, e), fs', cr')"
  shows "cs_at q rest EOF (cs\<lparr>cs_stream := cr'\<rparr>)" "reads Q \<Longrightarrow> Q (cs_stream cs) \<Longrightarrow> Q cr'"
proof -
  have "Reader_Read \<lparr>r_stream = cs, r_cur = Some ent\<rparr> n
      = (Ok (bs, e), \<lparr>r_stream = cs\<lparr>cs_stream := cr'\<rparr>, r_cur = Some (ent\<lparr>ce_payload := fs'\<rparr>)\<rparr>)"
    using assms(2) by (simp add: Reader_Read_def)
  moreover have "reader_at q rest EOF \<lparr>r_stream = cs, r_cur = Some ent\<rparr>" using assms(1) by (simp add: opened_def)
  ultimately have "reader_at q rest EOF \<lparr>r_stream = cs\<lparr>cs_stream := cr'\<rparr>, r_cur = Some (ent\<lparr>ce_payload := fs'\<rparr>)\<rparr>"
    by (rule Reader_Read_at [rotated])
  then show "cs_at q rest EOF (cs\<lparr>cs_stream := cr'\<rparr>)" by (simp add: reader_at_def)
  show "reads Q \<Longrightarrow> Q (cs_stream cs) \<Longrightarrow> Q cr'"
    using reads_fs_Read [of Q "cs_stream cs" "ce_payload ent" n] assms(2) by simp
qed

text \<open>
  The state of the extraction at position \<open>p\<close>, with the bytes \<open>bs\<close> of the archive to come from a stream of which
  \<open>Q\<close> is known.
\<close>

definition unpacking :: "nat \<Rightarrow> bytes \<Rightarrow> (countingReader \<Rightarrow> bool) \<Rightarrow> (nat \<Rightarrow> string list option) \<Rightarrow> extract_state \<Rightarrow> bool" where
  "unpacking p bs Q L st \<longleftrightarrow> cs_at p bs EOF (ex_stream st) \<and> Q (cs_stream (ex_stream st))
     \<and> (\<forall>ino. ex_linkMap st (int ino) = L ino)"

text \<open>The operations \<open>ops'\<close> are \<open>ops\<close>, up to pieces.\<close>

definition same_ops :: "fs_op list \<Rightarrow> fs_op list \<Rightarrow> bool" where
  "same_ops ops' ops \<longleftrightarrow> (\<forall>tail. coalesce (ops' @ tail) = ops @ coalesce tail)"

lemma same_ops_intros [simp, intro]:
  "same_ops [] []" "same_ops [Mkdir t m] [Mkdir t m]" "same_ops [Mkfifo t m] [Mkfifo t m]"
  "same_ops [Symlink s t] [Symlink s t]" "same_ops [MkdirAll t] [MkdirAll t]" "same_ops (map (Link t) l) (map (Link t) l)"
  by (simp_all add: same_ops_def coalesce_links)

lemma same_ops_append: "same_ops a' a \<Longrightarrow> same_ops b' b \<Longrightarrow> same_ops (a' @ b') (a @ b)"
  by (simp add: same_ops_def)

lemma same_ops_put_file:
  "[] \<notin> set cs \<Longrightarrow> same_ops (CreateFile t # map (WriteFile t) cs @ [CloseFile t]) (put_file t (concat cs))"
  using coalesce_put_file by (simp add: same_ops_def)

lemma extract_regular_deferred:
  assumes "opened q (archive_header f) (af_data f) rest EOF ent (ex_stream st)" "unpacking q rest Q L st" "af_kind f = 8"
    and "1 < af_nlink f" "af_data f = []" "unpack_file L f t = (r, L', ops)"
  shows "\<exists>st'. extract_regular os ent t st = (r, st') \<and> ex_ops st' = ex_ops st \<and> ops = [] \<and> unpacking q rest Q L' st'"
proof -
  have hdr: "ce_Header ent = archive_header f" using assms(1) by (simp add: opened_def)
  have L: "ex_linkMap st (int ino) = L ino" for ino using assms(2) by (simp add: unpacking_def)
  let ?st = "st\<lparr>ex_linkMap := (ex_linkMap st)(int (af_ino f) :=
      Some ((case L (af_ino f) of Some ts \<Rightarrow> ts | None \<Rightarrow> []) @ [t]))\<rparr>"
  have "extract_regular os ent t st = (Ok (), ?st)" using assms(4,5) by (simp add: extract_regular_def hdr L Let_def)
  moreover have "r = Ok ()" "ops = []" "unpacking q rest Q L' ?st"
    using assms L by (auto simp: unpack_file_def unpacking_def)
  ultimately show ?thesis by (intro exI [of _ ?st]) simp
qed

lemma extract_regular_unpack:
  assumes "willing os" "opened q (archive_header f) (af_data f) rest EOF ent (ex_stream st)" "unpacking q rest Q L st" "af_kind f = 8"
    and "unpack_file L f t = (r, L', ops)" "reads Q"
  shows "\<exists>st' ops'. extract_regular os ent t st = (r, st') \<and> ex_ops st' = ex_ops st @ ops' \<and> same_ops ops' ops
     \<and> unpacking q rest Q L' st'"
proof (cases "1 < af_nlink f \<and> af_data f = []")
  case True
  then obtain st' where "extract_regular os ent t st = (r, st')" "ex_ops st' = ex_ops st" "ops = []" "unpacking q rest Q L' st'"
    using extract_regular_deferred [OF assms(2-4) _ _ assms(5)] by blast
  then show ?thesis by (intro exI [of _ st'] exI [of _ "[]"]) simp
next
  case False
  have hdr: "ce_Header ent = archive_header f" using assms(2) by (simp add: opened_def)
  let ?st1 = "st\<lparr>ex_ops := ex_ops st @ [CreateFile t]\<rparr>"
  have "opened q (archive_header f) (af_data f) rest EOF ent (ex_stream ?st1)" "Q (cs_stream (ex_stream ?st1))"
    using assms(2,3) by (simp_all add: unpacking_def)
  from copy_payload_opened [OF assms(1) this(1) assms(6) this(2), of t] obtain cs cr where
    cp: "copy_payload os t (ce_payload ent) ?st1 = (Ok (length (af_data f)),
        ?st1\<lparr>ex_stream := (ex_stream st)\<lparr>cs_stream := cr\<rparr>, ex_ops := ex_ops ?st1 @ map (WriteFile t) cs\<rparr>)"
    and cs: "concat cs = af_data f" "[] \<notin> set cs" and at: "cs_at q rest EOF ((ex_stream st)\<lparr>cs_stream := cr\<rparr>)"
      "Q cr" by auto
  let ?ops = "CreateFile t # map (WriteFile t) cs @ [CloseFile t]"
  let ?st = "st\<lparr>ex_stream := (ex_stream st)\<lparr>cs_stream := cr\<rparr>, ex_ops := ex_ops st @ ?ops\<rparr>"
  have put: "same_ops ?ops (put_file t (af_data f))" using same_ops_put_file [OF cs(2), of t] cs(1) by simp
  have L: "ex_linkMap ?st (int ino) = L ino" for ino using assms(3) by (simp add: unpacking_def)
  have U: "unpacking q rest Q L ?st" using assms(3) at by (simp add: unpacking_def)
  have x: "extract_regular os ent t st =
      (if 1 < af_nlink f then (case L (af_ino f) of None \<Rightarrow> (Err HardlinksMissing, ?st) | Some l \<Rightarrow> make_links os t l ?st)
       else (Ok (), ?st))"
    using False cp L by (auto simp: extract_regular_def hdr Let_def fs_do_willing [OF assms(1)] split: option.splits)
  show ?thesis
  proof (cases "1 < af_nlink f \<and> L (af_ino f) \<noteq> None")
    case True
    then obtain l where l: "L (af_ino f) = Some l" by auto
    let ?st' = "?st\<lparr>ex_ops := ex_ops ?st @ map (Link t) l\<rparr>"
    have "extract_regular os ent t st = (Ok (), ?st')" using x True l by (simp add: make_links_willing [OF assms(1)])
    moreover have "r = Ok () \<and> L' = L \<and> ops = put_file t (af_data f) @ map (Link t) l"
      using True False l assms(4,5) by (auto simp: unpack_file_def)
    moreover have "unpacking q rest Q L ?st'" using U by (simp add: unpacking_def)
    ultimately show ?thesis
      using same_ops_append [OF put same_ops_intros(6)] by (intro exI [of _ ?st'] exI [of _ "?ops @ map (Link t) l"]) simp
  next
    case no: False
    have "r = (if 1 < af_nlink f then Err HardlinksMissing else Ok ()) \<and> L' = L \<and> ops = put_file t (af_data f)"
      using no False assms(4,5) by (auto simp: unpack_file_def)
    then show ?thesis using x no put U by (intro exI [of _ ?st] exI [of _ ?ops]) (auto split: option.splits)
  qed
qed

lemma extract_symlink_unpack:
  assumes "willing os" "opened q (archive_header f) (af_data f) rest EOF ent (ex_stream st)" "unpacking q rest Q L st" "af_kind f = 10"
    and "unpack_file L f t = (r, L', ops)" "reads Q" "rest \<noteq> []"
    and "rd_chunks (cr_stream (cs_stream (ex_stream st))) = y # ps" "length (af_data f) \<le> length y"
  shows "\<exists>st' ops'. extract_symlink os ent t st = (r, st') \<and> ex_ops st' = ex_ops st @ ops' \<and> same_ops ops' ops
     \<and> unpacking q rest Q L' st'"
proof -
  have hdr: "ce_Header ent = archive_header f" and fs: "fs_curr_pos (ce_payload ent) = 0"
      "fs_size (ce_payload ent) = int (length (af_data f))" using assms(2) by (simp_all add: opened_def)
  let ?s = "(ce_payload ent, cs_stream (ex_stream st))" and ?n = "length (af_data f)"
  obtain bs e fs' cr' where rd: "fs_Read ?s ?n = ((bs, e), fs', cr')" by (metis prod.collapse)
  note at = Reader_Read_opened(1) [OF assms(2) rd] Reader_Read_opened(2) [OF assms(2) rd assms(6)]
  let ?st = "st\<lparr>ex_stream := (ex_stream st)\<lparr>cs_stream := cr'\<rparr>\<rparr>"
  have U: "unpacking q rest Q L ?st" using assms(3) at by (simp add: unpacking_def)
  show ?thesis
  proof (cases "af_data f = []")
    case True
    then have "extract_symlink os ent t st = (Err (IOError EOF), st)"
      using fs by (simp add: extract_symlink_def hdr Let_def fs_Read_def)
    moreover have "r = Err (IOError EOF) \<and> L' = L \<and> ops = []" using True assms(4,5) by (simp add: unpack_file_def)
    ultimately show ?thesis using assms(3) by (intro exI [of _ st] exI [of _ "[]"]) simp
  next
    case False
    from fs_Read_opened [OF assms(2,8,9,7) False] rd have "bs = af_data f" "e = None" by auto
    then have "extract_symlink os ent t st = (Ok (), ?st\<lparr>ex_ops := ex_ops st @ [Symlink (string_of_bytes (af_data f)) t]\<rparr>)"
      using rd by (simp add: extract_symlink_def hdr Let_def fs_do_willing [OF assms(1)])
    moreover have "r = Ok () \<and> L' = L \<and> ops = [Symlink (string_of_bytes (af_data f)) t]"
      using False assms(4,5) by (simp add: unpack_file_def)
    moreover have "unpacking q rest Q L (?st\<lparr>ex_ops := ex_ops st @ [Symlink (string_of_bytes (af_data f)) t]\<rparr>)"
      using U by (simp add: unpacking_def)
    ultimately show ?thesis
      by (intro exI [of _ "?st\<lparr>ex_ops := ex_ops st @ [Symlink (string_of_bytes (af_data f)) t]\<rparr>"]
          exI [of _ "[Symlink (string_of_bytes (af_data f)) t]"]) simp
  qed
qed

lemma extract_entry_unpack:
  assumes "willing os" "opened q (archive_header f) (af_data f) rest EOF ent (ex_stream st)" "unpacking q rest Q L st" "af_ok f"
    and "extract_target d (af_name f) = Ok t" "unpack_file L f t = (r, L', ops)"
    and "reads Q" "rest \<noteq> []"
    and "af_kind f = 10 \<Longrightarrow> \<exists>y ps. rd_chunks (cr_stream (cs_stream (ex_stream st))) = y # ps \<and> length (af_data f) \<le> length y"
  shows "\<exists>st' ops'. extract_entry os d ent st = (r, st') \<and> ex_ops st' = ex_ops st @ ops'
     \<and> same_ops ops' (MkdirAll (Dir t) # ops) \<and> unpacking q rest Q L' st'"
proof -
  have hdr: "ce_Header ent = archive_header f" using assms(2) by (simp add: opened_def)
  let ?st = "st\<lparr>ex_ops := ex_ops st @ [MkdirAll (Dir t)]\<rparr>"
  have 1: "opened q (archive_header f) (af_data f) rest EOF ent (ex_stream ?st)" "unpacking q rest Q L ?st"
    using assms(2,3) by (simp_all add: unpacking_def)
  define body where "body =
     (if af_kind f = 2 \<or> af_kind f = 6 then (Ok (), ?st)
      else if af_kind f = 4 then (Ok (), ?st\<lparr>ex_ops := ex_ops ?st @ [Mkdir t (int (af_mode f mod 0x200))]\<rparr>)
      else if af_kind f = 1 then (Ok (), ?st\<lparr>ex_ops := ex_ops ?st @ [Mkfifo t (int (af_mode f))]\<rparr>)
      else if af_kind f = 10 then extract_symlink os ent t ?st
      else if af_kind f = 8 then extract_regular os ent t ?st
      else (Err (UnknownFileMode (int (af_mode f)) (af_name f)), ?st))"
  have mkdir: "os ops (Mkdir p k) = None \<or> os ops (Mkdir p k) = Some ErrExist" for ops p k
    using assms(1) unfolding willing_def by blast
  have "af_mode f < 2 ^ 32" using assms(4) by (simp add: af_ok_def af_numbers_def)
  then have "int (af_mode f) < 2 ^ 32" by simp
  then have fifo: "take_bit 32 (int (af_mode f)) = int (af_mode f)" by (intro take_bit_int_eq_self) simp_all
  have parent: "fs_do os (MkdirAll (Dir t)) st = (Ok (), ?st)" by (simp add: fs_do_willing [OF assms(1)])
  have x: "extract_entry os d ent st = body"
    unfolding extract_entry_def Let_def hdr archive_header_simps assms(5) result.case fifo int_perm kind_iff body_def af_kind_def
      parent ebind_simps
    using mkdir [of "ex_ops ?st" t "int (af_mode f mod 0x200)"]
    by (auto simp: fs_call_def fileutil_Mkfifo_def fs_do_willing [OF assms(1)])
  have "\<exists>st' ops'. body = (r, st') \<and> ex_ops st' = ex_ops ?st @ ops' \<and> same_ops ops' ops \<and> unpacking q rest Q L' st'"
  proof (cases "af_kind f = 8 \<or> af_kind f = 10")
    case True
    then show ?thesis
      using extract_symlink_unpack [OF assms(1) 1 _ assms(6-8)] extract_regular_unpack [OF assms(1) 1 _ assms(6,7)] assms(9)
      by (auto simp: body_def)
  next
    case False
    then show ?thesis using assms(6) 1(2)
      by (auto simp: body_def unpack_file_def unpacking_def split: if_splits)
  qed
  then obtain st' ops' where "body = (r, st')" "ex_ops st' = ex_ops ?st @ ops'" "same_ops ops' ops" "unpacking q rest Q L' st'"
    by blast
  then show ?thesis
    using same_ops_append [OF same_ops_intros(5), of ops' ops] by (intro exI [of _ st'] exI [of _ "MkdirAll (Dir t) # ops'"]) (simp add: x)
qed

section \<open>The simulation of an archive\<close>

lemma extract_loop_trailer:
  assumes "cs_at p (newc_bytes trailer @ rest) EOF (ex_stream st)" "af_ok trailer" "p + length (newc_bytes trailer) < 2 ^ 62"
    and "af_name trailer = TRAILER"
  shows "\<exists>cs. extract_loop os d (Suc k) st = (Some (Ok ()), st\<lparr>ex_stream := cs\<rparr>)"
proof -
  obtain ent cs where "ReadNextEntry (ex_stream st) = (Ok ent, cs)" "ce_Header ent = archive_header trailer"
    using ReadNextEntry_opened [OF assms(1-3)] opened_payload(7) by blast
  then show ?thesis using assms(4) by (intro exI [of _ cs]) (simp add: Let_def)
qed

text \<open>
  No piece of a stream that ends where \<open>B\<close> says ends inside the target of a symbolic link of the files
  \<open>fs\<close>, which \<open>tail\<close> follows.
\<close>

primrec targets_whole :: "nat set \<Rightarrow> archive_file list \<Rightarrow> bytes \<Rightarrow> bool" where
  "targets_whole B [] tail \<longleftrightarrow> True"
| "targets_whole B (f # fs) tail \<longleftrightarrow>
     (af_kind f = 10 \<longrightarrow>
        (let k = length (zeros_to_4 (length (af_data f)) @ concat (map newc_bytes fs) @ tail) in
         \<forall>b \<in> B. b \<le> k \<or> k + length (af_data f) \<le> b))
     \<and> targets_whole B fs tail"

lemma cut_at_first:
  assumes "cut_at B r" "reader_pending r = data @ bs" "bs \<noteq> []"
    and "\<And>b. b \<in> B \<Longrightarrow> b \<le> length bs \<or> length bs + length data \<le> b"
  shows "\<exists>y ps. rd_chunks r = y # ps \<and> length data \<le> length y"
proof -
  obtain y ps where y: "rd_chunks r = y # ps" using assms(2,3) by (cases "rd_chunks r") (auto simp: reader_pending_def)
  have "length (concat ps) \<in> B" "y \<noteq> []" using assms(1) y by (auto simp: cut_at_def)
  moreover have "length y + length (concat ps) = length data + length bs"
    using arg_cong [OF assms(2), of length] y by (simp add: reader_pending_def)
  ultimately have "length data \<le> length y" using assms(4) [of "length (concat ps)"] by (cases y) auto
  then show ?thesis using y by blast
qed

lemma reads_cut_at: "reads (\<lambda>cr. cut_at B (cr_stream cr))"
  using reader_Read_cut_at [of B] by (auto simp: reads_def cr_Read_def split: prod.splits) (metis snd_conv)

lemma extract_loop_unpack:
  assumes "willing os" "reads Q" "list_all af_ok (trailer # fs)" "\<forall>f \<in> set fs. af_name f \<noteq> TRAILER" "af_name trailer = TRAILER"
    and "\<forall>f \<in> set fs. af_kind f = 10 \<longrightarrow> (\<forall>cr. Q cr \<longrightarrow> cut_at B (cr_stream cr))"
    and "targets_whole B fs (newc_bytes trailer @ rest)"
    and "unpacking p (archive_bytes fs trailer @ rest) Q L st" "p + length (archive_bytes fs trailer) < 2 ^ 62"
    and "length fs < fuel" "unpack d L fs = (r, ops)"
  shows "\<exists>st' ops'. extract_loop os d fuel st = (Some r, st') \<and> ex_ops st' = ex_ops st @ ops' \<and> same_ops ops' ops"
  using assms(3-)
proof (induction fs arbitrary: p L st fuel r ops)
  case Nil
  then obtain k where k: "fuel = Suc k" by (cases fuel) auto
  have "cs_at p (newc_bytes trailer @ rest) EOF (ex_stream st)" "af_ok trailer" "p + length (newc_bytes trailer) < 2 ^ 62"
    using Nil.prems(1,6,7) by (simp_all add: unpacking_def archive_bytes_def)
  from extract_loop_trailer [OF this Nil.prems(3), of os d k] obtain cs
    where "extract_loop os d fuel st = (Some (Ok ()), st\<lparr>ex_stream := cs\<rparr>)" unfolding k by blast
  then show ?case using Nil.prems(9) by (intro exI [of _ "st\<lparr>ex_stream := cs\<rparr>"] exI [of _ "[]"]) simp
next
  case (Cons f fs)
  let ?q = "p + length (newc_bytes f)" and ?rest = "archive_bytes fs trailer @ rest"
  obtain k where k: "fuel = Suc k" "length fs < k" using Cons.prems(8) by (cases fuel) auto
  have "cs_at p (newc_bytes f @ ?rest) EOF (ex_stream st)" "af_ok f" "?q < 2 ^ 62"
    using Cons.prems(1,6,7) by (simp_all add: unpacking_def archive_bytes_def)
  note at = this
  from ReadNextEntry_opened [OF at] obtain ent cs
    where rn: "ReadNextEntry (ex_stream st) = (Ok ent, cs)" and op: "opened ?q (archive_header f) (af_data f) ?rest EOF ent cs" by blast
  have pend: "cr_pending (cs_stream cs) = af_data f @ zeros_to_4 (length (af_data f)) @ ?rest"
    using ReadNextEntry_newc [OF at] rn by (auto simp: cr_at_def)
  let ?st = "st\<lparr>ex_stream := cs\<rparr>"
  have hdr: "ce_Header ent = archive_header f" using op by (simp add: opened_def)
  have Q: "Q (cs_stream cs)"
    using ReadNextEntry_keeps [OF assms(2), of "ex_stream st"] Cons.prems(6) rn by (simp add: unpacking_def)
  then have U: "unpacking ?q ?rest Q L ?st" using opened_payload(5) [OF op] Cons.prems(6) by (simp add: unpacking_def)
  have loop: "extract_loop os d fuel st = (case extract_entry os d ent ?st of
      (Ok _, st2) \<Rightarrow> extract_loop os d k st2 | (Err e, st2) \<Rightarrow> (Some (Err e), st2) | (Panic p, st2) \<Rightarrow> (Some (Panic p), st2))"
    using Cons.prems(2) by (simp add: k(1) rn hdr Let_def)
  show ?case
  proof (cases "extract_target d (af_name f)")
    case (Ok t)
    obtain r1 L1 ops1 where u: "unpack_file L f t = (r1, L1, ops1)" by (metis prod.collapse)
    have ne: "?rest \<noteq> []" by (simp add: archive_bytes_def newc_bytes_def newc_start_def newcMagic_def bytes_of_string_def)
    have op': "opened ?q (archive_header f) (af_data f) ?rest EOF ent (ex_stream ?st)" using op by simp
    have whole: "\<exists>y ps. rd_chunks (cr_stream (cs_stream (ex_stream ?st))) = y # ps \<and> length (af_data f) \<le> length y" if "af_kind f = 10"
    proof -
      have "cut_at B (cr_stream (cs_stream cs))" using Cons.prems(4) Q that by simp
      from cut_at_first [OF this pend] show ?thesis
        using Cons.prems(5) that ne by (simp add: Let_def archive_bytes_def add.commute)
    qed
    obtain st1 ops1' where e: "extract_entry os d ent ?st = (r1, st1)" "ex_ops st1 = ex_ops st @ ops1'"
        "same_ops ops1' (MkdirAll (Dir t) # ops1)" "unpacking ?q ?rest Q L1 st1"
      using extract_entry_unpack [OF assms(1) op' U \<open>af_ok f\<close> Ok u assms(2) ne whole] by auto
    show ?thesis
    proof (cases r1)
      case ok: (Ok x)
      obtain r2 ops2 where u2: "unpack d L1 fs = (r2, ops2)" by (metis prod.collapse)
      have "?q + length (archive_bytes fs trailer) < 2 ^ 62" using Cons.prems(7) by (simp add: archive_bytes_def)
      from Cons.IH [OF _ _ Cons.prems(3) _ _ e(4) this k(2) u2] Cons.prems(1,2,4,5) obtain st2 ops2'
        where l: "extract_loop os d k st1 = (Some r2, st2)" "ex_ops st2 = ex_ops st1 @ ops2'" "same_ops ops2' ops2" by auto
      have "r = r2 \<and> ops = (MkdirAll (Dir t) # ops1) @ ops2" using Cons.prems(9) Ok u u2 ok by simp
      then show ?thesis using loop e(1,2) ok l same_ops_append [OF e(3) l(3)]
        by (intro exI [of _ st2] exI [of _ "ops1' @ ops2'"]) simp
    qed (use Cons.prems(9) Ok u e loop in auto)
  qed (use Cons.prems(9) loop hdr in \<open>auto simp: extract_entry_def Let_def\<close>)
qed

text \<open>
  The stream \<open>rs\<close> delivers every target of a symbolic link in one piece; the files \<open>fs\<close> are followed by \<open>tail\<close>.
\<close>

definition links_whole :: "reader \<Rightarrow> archive_file list \<Rightarrow> bytes \<Rightarrow> bool" where
  "links_whole rs fs tail \<longleftrightarrow> (\<forall>f \<in> set fs. af_kind f \<noteq> 10)
     \<or> [] \<notin> set (rd_chunks rs) \<and> targets_whole (set (cuts (rd_chunks rs))) fs tail"

lemma targets_whole_mono: "targets_whole B fs tail \<Longrightarrow> C \<subseteq> B \<Longrightarrow> targets_whole C fs tail"
  by (induction fs) (auto simp: Let_def)

lemma targets_whole_0: "targets_whole {0} fs tail"
  by (induction fs) (simp_all add: Let_def)

lemma no_links_whole: "\<forall>f \<in> set fs. af_kind f \<noteq> 10 \<Longrightarrow> links_whole rs fs tail"
  by (simp add: links_whole_def)

text \<open>A stream in one piece does.\<close>

lemma one_piece_whole: "rd_chunks rs = [c] \<Longrightarrow> c \<noteq> [] \<Longrightarrow> links_whole rs fs tail"
  by (simp add: links_whole_def targets_whole_0)

text \<open>The completed system: nothing goes wrong.\<close>

lemma willing_ideal: "willing (ideal os)"
  by (auto simp: willing_def ideal_def granted_def split: option.splits fs_op.splits)

lemma Extract_willing:
  assumes "reader_pending rs = archive_bytes fs trailer @ rest" "rd_fin rs = EOF"
    and "list_all af_ok (trailer # fs)" "\<forall>f \<in> set fs. af_name f \<noteq> TRAILER" "af_name trailer = TRAILER"
    and "length (archive_bytes fs trailer) < 2 ^ 62" "links_whole rs fs (newc_bytes trailer @ rest)"
    and "willing os" "unpack (Clean dest) Map.empty fs = (u, uops)"
  shows "\<exists>full. Extract os rs dest = (Some u, full) \<and> coalesce full = uops"
proof -
  let ?st = "\<lparr>ex_stream = NewCpioStream rs, ex_linkMap = Map.empty, ex_ops = []\<rparr>"
  let ?B = "if \<forall>f \<in> set fs. af_kind f \<noteq> 10 then {0} else set (cuts (rd_chunks rs))"
  let ?Q = "\<lambda>cr. (\<exists>f \<in> set fs. af_kind f = 10) \<longrightarrow> cut_at ?B (cr_stream cr)"
  have Q: "reads ?Q" using reads_cut_at [of ?B] by (auto simp: reads_def)
  have whole: "targets_whole ?B fs (newc_bytes trailer @ rest)" and Q0: "?Q (cs_stream (NewCpioStream rs))"
    using assms(7) by (auto simp: links_whole_def targets_whole_0 cut_at_def NewCpioStream_def)
  have U: "unpacking 0 (archive_bytes fs trailer @ rest) ?Q Map.empty ?st"
    using assms(1,2) Q0 by (simp add: unpacking_def cs_at_def NewCpioStream_def cr_at_def)
  have "length fs \<le> length (concat (map newc_bytes fs))"
    by (induction fs) (auto simp: newc_bytes_def newc_start_def newcMagic_def bytes_of_string_def)
  then have fuel: "length fs < Suc (length (reader_pending rs))" using assms(1) by (simp add: archive_bytes_def)
  obtain st' ops' where "extract_loop os (Clean dest) (Suc (length (reader_pending rs))) ?st = (Some u, st')"
      "ex_ops st' = ops'" "same_ops ops' uops"
    using extract_loop_unpack [OF assms(8) Q assms(3-5) _ whole U _ fuel assms(9)] assms(6) by auto
  then show ?thesis by (auto simp: Extract_def Let_def same_ops_def simp del: extract_loop.simps dest: spec [of _ "[]"])
qed

text \<open>Any system: the calls are those of the specification, or they end with the first one that is not granted.\<close>

definition unpacks_to ::
  "fs_env \<Rightarrow> unit result option \<times> fs_op list \<Rightarrow> unit result \<times> fs_op list \<Rightarrow> bool" where
  "unpacks_to os x spec \<longleftrightarrow>
     (\<exists>full. coalesce full = snd spec
        \<and> (x = (Some (fst spec), full) \<and> all_granted os full
           \<or> (\<exists>e ops. x = (Some (Err e), ops) \<and> refused os e ops \<and> prefix ops full)))"

lemma Extract_unpack:
  assumes "reader_pending rs = archive_bytes fs trailer @ rest" "rd_fin rs = EOF"
    and "list_all af_ok (trailer # fs)" "\<forall>f \<in> set fs. af_name f \<noteq> TRAILER" "af_name trailer = TRAILER"
    and "length (archive_bytes fs trailer) < 2 ^ 62" "links_whole rs fs (newc_bytes trailer @ rest)"
  shows "unpacks_to os (Extract os rs dest) (unpack (Clean dest) Map.empty fs)"
proof -
  obtain u uops where u: "unpack (Clean dest) Map.empty fs = (u, uops)" by (metis prod.collapse)
  from Extract_willing [OF assms willing_ideal u, of os] obtain full
    where "Extract (ideal os) rs dest = (Some u, full)" "coalesce full = uops" by blast
  with Extract_ideal [of os rs dest u full] show ?thesis by (auto simp: unpacks_to_def u)
qed

section \<open>Properties\<close>

text \<open>
  C9.  Extraction does what the specification \<open>unpack\<close> says.  The stream starts with the
  encodings of any files and a trailer, in pieces of any sizes; only the target of a symbolic link
  must come in one piece (\<open>links_whole\<close>; there is no condition if the archive has no symbolic
  links, or if the stream is a single piece).  The system may answer in any way.  If it grants
  every call, where a directory that exists already will do, \<open>Extract\<close> returns the outcome of
  \<open>unpack\<close> and makes its calls in the same order, up to the size of the pieces in which a
  file is written: every regular file is created with exactly its contents, hard links are
  made to the file that carries the contents, directories, pipes and symbolic links are
  created, and devices are skipped.  Otherwise the calls are the same up to the first that is
  not granted, which is the last one, and its error is returned.
\<close>

theorem Extract_refines_unpack:
  assumes "reader_pending rs = archive_bytes fs trailer @ rest" "rd_fin rs = EOF"
    and "list_all af_ok (trailer # fs)" "\<forall>f \<in> set fs. af_name f \<noteq> TRAILER" "af_name trailer = TRAILER"
    and "length (archive_bytes fs trailer) < 2 ^ 62" "links_whole rs fs (newc_bytes trailer @ rest)"
  shows "\<exists>full. coalesce full = snd (unpack (Clean dest) Map.empty fs)
     \<and> (Extract os rs dest = (Some (fst (unpack (Clean dest) Map.empty fs)), full) \<and> all_granted os full
        \<or> (\<exists>e ops. Extract os rs dest = (Some (Err e), ops) \<and> refused os e ops \<and> prefix ops full))"
  using Extract_unpack [OF assms, of os dest] by (simp add: unpacks_to_def)

lemma sample_targets: "extract_target ''/d'' ''./a'' = Ok ''/d/a''" "extract_target ''/d'' ''./b'' = Ok ''/d/b''"
  "Dir ''/d/a'' = ''/d''" "Dir ''/d/b'' = ''/d''" "Clean ''/d'' = ''/d''"
  by code_simp+

lemma sample_kind: "af_kind (sample_file nm data) = 8"
  by (simp add: af_kind_def sample_file_def)

lemma sample_unpack:
  "unpack (Clean ''/d'') Map.empty [sample_file ''./a'' [1, 2, 3], sample_file ''./b'' []]
     = (Ok (), [MkdirAll ''/d'', CreateFile ''/d/a'', WriteFile ''/d/a'' [1, 2, 3], CloseFile ''/d/a'',
                MkdirAll ''/d'', CreateFile ''/d/b'', CloseFile ''/d/b''])"
  by (simp add: sample_targets unpack_file_def sample_kind sample_file_fields put_file_def)

lemma never_refused: "\<not> refused (\<lambda>_ _. None) e ops"
  by (simp add: refused_def)

lemma Extract_unpack_granted:
  "unpacks_to (\<lambda>_ _. None) (Extract (\<lambda>_ _. None) rs dest) spec \<Longrightarrow>
     \<exists>ops. Extract (\<lambda>_ _. None) rs dest = (Some (fst spec), ops) \<and> coalesce ops = snd spec"
  by (auto simp: unpacks_to_def never_refused)

text \<open>An archive with a symbolic link, in two pieces that meet inside the target of the link.\<close>

definition sample_link :: archive_file where
  "sample_link = (sample_file ''./l'' [0x6d, 0x6f, 0x74, 0x64])\<lparr>af_mode := 0xa1ff\<rparr>"

definition link_archive :: reader where
  "link_archive =
     \<lparr>rd_chunks = [newc_start sample_link @ [0x6d, 0x6f], [0x74, 0x64] @ newc_bytes (sample_file TRAILER [])],
      rd_fin = EOF, rd_eager = False\<rparr>"

lemma sample_link_simps [simp]:
  "af_name sample_link = ''./l''" "af_data sample_link = [0x6d, 0x6f, 0x74, 0x64]" "af_kind sample_link = 10"
  by (simp_all add: sample_link_def sample_file_def af_kind_def)

lemma link_archive_pending: "reader_pending link_archive = archive_bytes [sample_link] (sample_file TRAILER []) @ []"
  by (simp add: link_archive_def reader_pending_def archive_bytes_def newc_bytes_def) (simp add: zeros_to_4_def)

lemma link_archive_ok: "list_all af_ok [sample_file TRAILER [], sample_link]"
  by (simp add: sample_file_ok TRAILER_def) (simp add: sample_link_def sample_file_def af_ok_def af_numbers_def)

lemma link_archive_small: "length (archive_bytes [sample_link] (sample_file TRAILER [])) < 2 ^ 62"
proof -
  have "length (zeros_to_4 n) < 4" for n by (simp add: zeros_to_4_def)
  from this [of "111 + length ''./l''"] sample_file_length [of TRAILER "[]"] show ?thesis
    by (simp add: archive_bytes_def newc_bytes_def length_newc_start TRAILER_def) (simp add: zeros_to_4_def)
qed

lemma link_target: "extract_target (Clean ''/d'') ''./l'' = Ok ''/d/l''" "Dir ''/d/l'' = ''/d''"
  by code_simp+

text \<open>The same archive in pieces that leave the target whole, on a system that grants everything and on one without links.\<close>

definition whole_link_archive :: reader where
  "whole_link_archive = link_archive\<lparr>rd_chunks :=
     [newc_start sample_link, [0x6d, 0x6f, 0x74, 0x64] @ take 9 (newc_bytes (sample_file TRAILER [])),
      drop 9 (newc_bytes (sample_file TRAILER []))]\<rparr>"

abbreviation (input) no_symlink :: fs_env where
  "no_symlink \<equiv> \<lambda>_ op. case op of Symlink _ _ \<Rightarrow> Some (Errno 1) | _ \<Rightarrow> None"

lemma coalesce_calls: "(\<And>p bs. WriteFile p bs \<notin> set (coalesce ops)) \<Longrightarrow> coalesce ops = ops"
proof (induction ops rule: coalesce.induct)
  case (2 p bs ops)
  have "\<exists>q cs. WriteFile q cs \<in> set (join_write p bs (coalesce ops))"
    by (auto simp: join_write_def split: list.splits fs_op.splits)
  then show ?case using 2 by auto
qed auto

lemma refused_symlink:
  assumes "refused no_symlink e ops" "prefix ops [MkdirAll p, Symlink x t]"
  shows "e = IOError (ErrOS (Errno 1)) \<and> ops = [MkdirAll p, Symlink x t]"
  using assms by (auto simp: refused_def granted_def prefix_Cons append_eq_Cons_conv)

theorem Extract_refines_unpack_witness:
  "(\<exists>ops. Extract (\<lambda>_ _. None) sample_archive ''/d'' = (Some (Ok ()), ops)
      \<and> coalesce ops = [MkdirAll ''/d'', CreateFile ''/d/a'', WriteFile ''/d/a'' [1, 2, 3], CloseFile ''/d/a'',
                        MkdirAll ''/d'', CreateFile ''/d/b'', CloseFile ''/d/b''])
   \<and> Extract (\<lambda>_ _. None) whole_link_archive ''/d'' = (Some (Ok ()), [MkdirAll ''/d'', Symlink ''motd'' ''/d/l''])
   \<and> Extract no_symlink whole_link_archive ''/d''
       = (Some (Err (IOError (ErrOS (Errno 1)))), [MkdirAll ''/d'', Symlink ''motd'' ''/d/l''])"
proof -
  let ?fs = "[sample_file ''./a'' [1, 2, 3], sample_file ''./b'' []]" and ?t = "sample_file TRAILER []" and ?l = sample_link
  have names: "\<forall>f \<in> set ?fs. af_name f \<noteq> TRAILER" "af_name ?t = TRAILER" "\<forall>f \<in> set [?l]. af_name f \<noteq> TRAILER"
    by (simp_all add: sample_file_fields TRAILER_def)
  have ok: "list_all af_ok (?t # ?fs)" by (simp add: sample_file_ok TRAILER_def)
  have "links_whole sample_archive ?fs bs" for bs by (simp add: links_whole_def sample_kind)
  from Extract_refines_unpack [OF sample_archive_pending ok names(1,2) sample_archive_small this, of "''/d''" "\<lambda>_ _. None"]
  have 1: "\<exists>ops. Extract (\<lambda>_ _. None) sample_archive ''/d'' = (Some (Ok ()), ops)
      \<and> coalesce ops = [MkdirAll ''/d'', CreateFile ''/d/a'', WriteFile ''/d/a'' [1, 2, 3], CloseFile ''/d/a'',
                        MkdirAll ''/d'', CreateFile ''/d/b'', CloseFile ''/d/b'']"
    unfolding sample_unpack by (auto simp: never_refused)
  have pend: "reader_pending whole_link_archive = archive_bytes [?l] ?t @ []" "rd_fin whole_link_archive = EOF"
    by (simp_all add: whole_link_archive_def link_archive_def reader_pending_def archive_bytes_def newc_bytes_def [of ?l])
       (simp add: zeros_to_4_def)
  have long: "9 < length (newc_bytes ?t)" by (simp add: newc_bytes_def length_newc_start)
  then have "newc_start ?l \<noteq> []" "drop 9 (newc_bytes ?t) \<noteq> []"
    by (auto simp: newc_start_def newcMagic_def bytes_of_string_def)
  then have whole: "links_whole whole_link_archive [?l] (newc_bytes ?t @ [])"
    using long by (auto simp: links_whole_def whole_link_archive_def Let_def zeros_to_4_def)
  have s: "string_of_bytes [0x6d, 0x6f, 0x74, 0x64] = ''motd''" by code_simp
  have u: "unpack (Clean ''/d'') Map.empty [?l] = (Ok (), [MkdirAll ''/d'', Symlink ''motd'' ''/d/l''])"
    by (simp add: link_target unpack_file_def s)
  note x = Extract_refines_unpack [OF pend link_archive_ok names(3,2) link_archive_small whole, of "''/d''", unfolded u fst_conv snd_conv]
  have full: "full = [MkdirAll ''/d'', Symlink ''motd'' ''/d/l'']" if "coalesce full = [MkdirAll ''/d'', Symlink ''motd'' ''/d/l'']" for full
    using coalesce_calls [of full] that by simp
  have "Extract (\<lambda>_ _. None) whole_link_archive ''/d'' = (Some (Ok ()), [MkdirAll ''/d'', Symlink ''motd'' ''/d/l''])"
    using x [of "\<lambda>_ _. None"] full by (auto simp: never_refused)
  moreover have "\<not> all_granted no_symlink [MkdirAll ''/d'', Symlink ''motd'' ''/d/l'']"
    by (auto simp: all_granted_def granted_def intro!: exI [of _ 1])
  then have "Extract no_symlink whole_link_archive ''/d''
       = (Some (Err (IOError (ErrOS (Errno 1)))), [MkdirAll ''/d'', Symlink ''motd'' ''/d/l''])"
    using x [of no_symlink] full refused_symlink by fastforce
  ultimately show ?thesis using 1 by blast
qed

text \<open>
  A destination that cleans to the current directory or to the root directory cannot be
  extracted into: whatever the system and the rest of the archive, \<open>Extract\<close> stops at the first
  entry that is not the destination itself with the error for an invalid path, and has made no call.
\<close>

theorem Extract_rejects_dot_and_root:
  assumes "comps dest = []" "reader_pending rs = newc_bytes f @ rest" "af_ok f" "length (newc_bytes f) < 2 ^ 62"
    and "af_name f \<noteq> TRAILER" "Join (Clean dest) (strip_parent (Clean (af_name f))) \<noteq> Clean dest"
  shows "Extract os rs dest = (Some (Err (InvalidCpioPath (af_name f))), [])"
proof -
  let ?d = "Clean dest" and ?t = "Join (Clean dest) (strip_parent (Clean (af_name f)))"
  have "?d \<noteq> ''''" using render_ne [OF normal_comps [of dest]] by (simp add: Clean_render)
  then obtain p where p: "?t = Clean p" by (simp add: Join_def)
  have "take (length ?d + 1) ?t \<noteq> ?d @ [slash]"
  proof
    assume pre: "take (length ?d + 1) ?t = ?d @ [slash]"
    have "?t = (?d @ [slash]) @ drop (length ?d + 1) ?t" by (metis append_take_drop_id pre)
    then have "render (is_rooted p) (comps p) = render (is_rooted dest) (comps dest) @ slash # drop (length ?d + 1) ?t"
      using p by (simp add: Clean_render)
    from render_below [OF normal_comps normal_comps this] assms(1) show False by simp
  qed
  then have t: "extract_target ?d (af_name f) = Err (InvalidCpioPath (af_name f))"
    using assms(6) by (simp add: extract_target_def Let_def)
  have "cs_at 0 (newc_bytes f @ rest) (rd_fin rs) (NewCpioStream rs)"
    using assms(2) by (simp add: cs_at_def NewCpioStream_def cr_at_def)
  from ReadNextEntry_opened [OF this assms(3)] assms(4) obtain ent cs
    where rn: "ReadNextEntry (NewCpioStream rs) = (Ok ent, cs)" "ce_Header ent = archive_header f"
    by (auto simp: opened_def)
  then show ?thesis using assms(5) t by (simp add: Extract_def Let_def extract_entry_def)
qed

theorem Extract_rejects_dot_and_root_witness:
  "Extract (\<lambda>_ _. None) sample_archive ''sub/..'' = (Some (Err (InvalidCpioPath ''./a'')), [])"
proof -
  let ?a = "sample_file ''./a'' [1, 2, 3]"
  have nm: "af_name ?a = ''./a''" by (simp add: sample_file_def)
  have "Extract (\<lambda>_ _. None) sample_archive ''sub/..'' = (Some (Err (InvalidCpioPath (af_name ?a))), [])"
  proof (rule Extract_rejects_dot_and_root)
    show "comps ''sub/..'' = []" by code_simp
    show "reader_pending sample_archive = newc_bytes ?a @ archive_bytes [sample_file ''./b'' []] (sample_file TRAILER []) @ [0, 0]"
      by (simp add: sample_archive_pending archive_bytes_def)
    show "Join (Clean ''sub/..'') (strip_parent (Clean (af_name ?a))) \<noteq> Clean ''sub/..''" unfolding nm by code_simp
    show "length (newc_bytes ?a) < 2 ^ 62" using sample_file_length [of "''./a''" "[1, 2, 3]"] by simp
  qed (simp_all add: sample_file_ok nm TRAILER_def)
  then show ?thesis by (simp add: nm)
qed

text \<open>A stream whose pieces after the first one, or after what is left of it, are \<open>ps\<close>.\<close>

definition pieces_before :: "bytes list \<Rightarrow> countingReader \<Rightarrow> bool" where
  "pieces_before ps cr \<longleftrightarrow>
     (\<exists>y. rd_chunks (cr_stream cr) = y # ps) \<or> length (cr_pending cr) \<le> length (concat ps)"

lemma reads_pieces_before: "reads (pieces_before ps)"
proof -
  have "pieces_before ps (snd (cr_Read cr n))" if "pieces_before ps cr" for cr n
  proof (cases "length (cr_pending cr) \<le> length (concat ps)")
    case True
    then have "length (cr_pending (snd (cr_Read cr n))) \<le> length (concat ps)"
      using reads_left [of "length (concat ps)"] unfolding reads_def by blast
    then show ?thesis by (simp add: pieces_before_def)
  next
    case False
    with that obtain y where "rd_chunks (cr_stream cr) = y # ps" by (auto simp: pieces_before_def)
    then show ?thesis by (simp add: pieces_before_def cr_Read_def reader_Read_def reader_pending_def)
  qed
  then show ?thesis by (auto simp: reads_def)
qed

lemma fs_Read_first_piece:
  assumes "opened q hdr data rest EOF ent cs" "pieces_before ps (cs_stream cs)"
    and "data = c @ d" "concat ps = d @ z" "cr_pending (cs_stream cs) = c @ d @ z" "c \<noteq> []" "d \<noteq> []"
  shows "\<exists>fs' cr'. fs_Read (ce_payload ent, cs_stream cs) (length data) = ((c, None), fs', cr')"
proof -
  have "\<not> length (cr_pending (cs_stream cs)) \<le> length (concat ps)" using assms(4-6) by simp
  then obtain y where y: "rd_chunks (cr_stream (cs_stream cs)) = y # ps" using assms(2) by (auto simp: pieces_before_def)
  then have "y = c" using assms(4,5) by (simp add: reader_pending_def)
  moreover have "ps \<noteq> []" using assms(4,7) by auto
  moreover have "fs_curr_pos (ce_payload ent) = 0" "fs_size (ce_payload ent) = int (length data)"
      "cr_curPos (cs_stream cs) = fs_start_pos (ce_payload ent)"
    using assms(1) by (auto simp: opened_def cr_at_def)
  ultimately show ?thesis using y assms(3,6,7) by (cases c) (simp_all add: fs_Read_def Let_def cr_Read_def reader_Read_def)
qed

text \<open>
  \<^verbatim>\<open>os.Symlink\<close> passes its arguments to the system as C strings, so it refuses a string with a NUL byte
  with the error \<^verbatim>\<open>EINVAL\<close>.
\<close>

abbreviation EINVAL :: os_err where "EINVAL \<equiv> Errno 22"

definition refuses_NUL :: "fs_env \<Rightarrow> bool" where
  "refuses_NUL os \<longleftrightarrow> (\<forall>ops x t. CHR 0x00 \<in> set x \<longrightarrow> os ops (Symlink x t) = Some EINVAL)"

text \<open>
  C37.  The target of a symbolic link is taken from a single \<^verbatim>\<open>Read\<close>: when the stream delivers it in
  two pieces, as a decompressor or a pipe may, \<open>Extract\<close> asks the system for a link to the first
  piece with a NUL byte for every missing one.  As \<^verbatim>\<open>os.Symlink\<close> refuses strings with NUL bytes,
  the extraction fails with \<^verbatim>\<open>EINVAL\<close>, although the archive is valid and the specification
  extracts it.
\<close>

theorem Extract_symlink_short_read:
  assumes "rd_chunks rs = (newc_start f @ c) # ps" "rd_fin rs = EOF"
    and "reader_pending rs = archive_bytes [f] trailer @ rest"
    and "list_all af_ok [trailer, f]" "af_name f \<noteq> TRAILER" "af_name trailer = TRAILER"
    and "length (archive_bytes [f] trailer) < 2 ^ 62"
    and "af_kind f = 10" "af_data f = c @ d" "c \<noteq> []" "d \<noteq> []" "extract_target (Clean dest) (af_name f) = Ok t"
    and "os [] (MkdirAll (Dir t)) = None" "refuses_NUL os"
  shows "Extract os rs dest =
       (Some (Err (IOError (ErrOS EINVAL))), [MkdirAll (Dir t), Symlink (string_of_bytes (c @ replicate (length d) 0)) t])
     \<and> unpack (Clean dest) Map.empty [f] = (Ok (), [MkdirAll (Dir t), Symlink (string_of_bytes (c @ d)) t])"
proof
  let ?st = "\<lparr>ex_stream = NewCpioStream rs, ex_linkMap = Map.empty, ex_ops = []\<rparr>"
  let ?q = "length (newc_bytes f)" and ?rest = "newc_bytes trailer @ rest"
  have at0: "cs_at 0 (newc_bytes f @ ?rest) EOF (NewCpioStream rs)"
    using assms(2,3) by (simp add: cs_at_def NewCpioStream_def cr_at_def archive_bytes_def)
  have q: "0 + ?q < 2 ^ 62" using assms(7) by (simp add: archive_bytes_def)
  from ReadNextEntry_opened [OF at0 _ q] assms(4) obtain ent cs where rn: "ReadNextEntry (NewCpioStream rs) = (Ok ent, cs)"
      and op: "opened ?q (archive_header f) (af_data f) ?rest EOF ent cs" by auto
  have hdr: "ce_Header ent = archive_header f" using opened_payload(7) [OF op] .
  let ?z = "zeros_to_4 (length (af_data f)) @ ?rest"
  have pend: "cr_pending (cs_stream cs) = c @ d @ ?z"
    using ReadNextEntry_newc [OF at0 _ q] assms(4,9) rn by (auto simp: cr_at_def)
  have "newc_start f @ c @ concat ps = newc_start f @ c @ d @ ?z"
    using assms(1,3,9) by (simp add: reader_pending_def archive_bytes_def newc_bytes_def)
  then have ps: "concat ps = d @ ?z" by simp
  have "pieces_before ps (cs_stream (NewCpioStream rs))"
    using assms(1) by (simp add: pieces_before_def NewCpioStream_def)
  then have pb: "pieces_before ps (cs_stream cs)" using ReadNextEntry_keeps [OF reads_pieces_before] rn by (metis snd_conv)
  obtain fs' cr' where rd: "fs_Read (ce_payload ent, cs_stream cs) (length (af_data f)) = ((c, None), fs', cr')"
    using fs_Read_first_piece [OF op pb assms(9) ps pend assms(10,11)] by blast
  let ?x = "string_of_bytes (c @ replicate (length d) 0)"
  let ?st1 = "\<lparr>ex_stream = cs\<lparr>cs_stream := cr'\<rparr>, ex_linkMap = Map.empty, ex_ops = [MkdirAll (Dir t), Symlink ?x t]\<rparr>"
  have "CHR 0x00 \<in> set ?x" using assms(11) by (cases d) (simp_all add: string_of_bytes_def char_of_def)
  then have "os ops (Symlink ?x t) = Some EINVAL" for ops using assms(14) by (simp add: refuses_NUL_def)
  then have "extract_symlink os ent t (?st\<lparr>ex_stream := cs, ex_ops := [MkdirAll (Dir t)]\<rparr>) = (Err (IOError (ErrOS EINVAL)), ?st1)"
    using rd assms(9) by (simp add: extract_symlink_def hdr Let_def nat_int_add fs_do_def fs_call_def)
  then have "extract_entry os (Clean dest) ent (?st\<lparr>ex_stream := cs\<rparr>) = (Err (IOError (ErrOS EINVAL)), ?st1)"
    unfolding extract_entry_def Let_def hdr archive_header_simps assms(12) result.case kind_iff
      assms(8) [unfolded af_kind_def] by (simp add: fs_do_def fs_call_def assms(13))
  then show "Extract os rs dest = (Some (Err (IOError (ErrOS EINVAL))), [MkdirAll (Dir t), Symlink ?x t])"
    using rn assms(5) hdr by (simp add: Extract_def Let_def)
qed (use assms(8-12) in \<open>simp add: unpack_file_def\<close>)

text \<open>A system that refuses strings with NUL bytes and grants everything else.\<close>

definition c_strings :: fs_env where
  "c_strings = (\<lambda>_ op. case op of Symlink x _ \<Rightarrow> if CHR 0x00 \<in> set x then Some EINVAL else None | _ \<Rightarrow> None)"

theorem Extract_symlink_short_read_witness:
  "Extract c_strings link_archive ''/d'' =
     (Some (Err (IOError (ErrOS EINVAL))), [MkdirAll ''/d'', Symlink (''mo'' @ [CHR 0x00, CHR 0x00]) ''/d/l''])"
proof -
  let ?c = "[0x6d, 0x6f] :: bytes" and ?d = "[0x74, 0x64] :: bytes"
  have s: "string_of_bytes (?c @ replicate (length ?d) 0) = ''mo'' @ [CHR 0x00, CHR 0x00]" by code_simp
  have "Extract c_strings link_archive ''/d'' = (Some (Err (IOError (ErrOS EINVAL))),
       [MkdirAll (Dir ''/d/l''), Symlink (string_of_bytes (?c @ replicate (length ?d) 0)) ''/d/l''])
     \<and> unpack (Clean ''/d'') Map.empty [sample_link]
       = (Ok (), [MkdirAll (Dir ''/d/l''), Symlink (string_of_bytes (?c @ ?d)) ''/d/l''])"
    by (rule Extract_symlink_short_read [OF _ _ link_archive_pending link_archive_ok _ _ link_archive_small])
       (simp_all add: link_archive_def sample_file_fields TRAILER_def link_target c_strings_def refuses_NUL_def)
  then show ?thesis unfolding link_target(2) s by blast
qed

end
