(* ===== verification/Calls.thy ===== *)
theory Calls
  imports Unpack
begin

text \<open>
  The order of the system calls of extraction, and what becomes of a call that fails.  The
  protocol of \<^verbatim>\<open>cpio/extract.go\<close> is a step relation on phases, its runs are the traces of
  calls that the system has granted, and every trace of \<open>Extract\<close> is such a run, or one
  followed by a single failed call whose error is returned.
\<close>

section \<open>The protocol\<close>

text \<open>
  Between two entries nothing is open.  The parent directory of a target is made before
  the target; a file is created, written and closed before it gets further links.
\<close>

datatype phase =
    Between
  | Parent string     \<comment> \<open>the parent of this target exists\<close>
  | Writing string    \<comment> \<open>this file is open\<close>
  | Stored string     \<comment> \<open>this file is complete\<close>

primrec resting :: "phase \<Rightarrow> bool" where
  "resting Between = True"
| "resting (Parent t) = True"
| "resting (Writing t) = False"
| "resting (Stored t) = True"

inductive call_step :: "phase \<Rightarrow> fs_op \<Rightarrow> phase \<Rightarrow> bool" where
  parent: "resting p \<Longrightarrow> call_step p (MkdirAll (Dir t)) (Parent t)"
| mkdir: "call_step (Parent t) (Mkdir t m) Between"
| mkfifo: "call_step (Parent t) (Mkfifo t m) Between"
| symlink: "call_step (Parent t) (Symlink x t) Between"
| create: "call_step (Parent t) (CreateFile t) (Writing t)"
| put: "call_step (Writing t) (WriteFile t bs) (Writing t)"
| close: "call_step (Writing t) (CloseFile t) (Stored t)"
| link: "call_step (Stored t) (Link t u) (Stored t)"

declare call_step.intros [intro]

inductive_cases create_stepE [elim!]: "call_step p (CreateFile t) q"
inductive_cases write_stepE [elim!]: "call_step p (WriteFile t bs) q"
inductive_cases close_stepE [elim!]: "call_step p (CloseFile t) q"
inductive_cases link_stepE [elim!]: "call_step p (Link t u) q"
inductive_simps writing_step_iff: "call_step p op (Writing t)"
inductive_simps stored_step_iff: "call_step p op (Stored t)"
inductive_simps parent_step_iff: "call_step p op (Parent t)"

inductive calls :: "fs_env \<Rightarrow> phase \<Rightarrow> fs_op list \<Rightarrow> bool" for os where
  start: "calls os Between []"
| call: "calls os p ops \<Longrightarrow> call_step p op q \<Longrightarrow> granted os ops op \<Longrightarrow> calls os q (ops @ [op])"

text \<open>An error: of the archive or the stream, or the one of the last call.\<close>

definition halted :: "fs_env \<Rightarrow> go_error \<Rightarrow> fs_op list \<Rightarrow> bool" where
  "halted os e ops \<longleftrightarrow> (\<exists>p. calls os p ops)
     \<or> (\<exists>ops' op p q x. ops = ops' @ [op] \<and> calls os p ops' \<and> call_step p op q
          \<and> os ops' op = Some x \<and> e = IOError (ErrOS x))"

definition leads :: "fs_env \<Rightarrow> (phase \<Rightarrow> bool) \<Rightarrow> 'a result \<times> extract_state \<Rightarrow> bool" where
  "leads os Q m \<longleftrightarrow>
     (case fst m of
        Ok _ \<Rightarrow> \<exists>p. Q p \<and> calls os p (ex_ops (snd m))
      | Err e \<Rightarrow> halted os e (ex_ops (snd m))
      | Panic _ \<Rightarrow> \<exists>p. calls os p (ex_ops (snd m)))"

section \<open>Extraction follows the protocol\<close>

lemma calls_halted: "calls os p ops \<Longrightarrow> halted os e ops"
  by (auto simp: halted_def)

lemma halted_call:
  "calls os p ops \<Longrightarrow> call_step p op q \<Longrightarrow> os ops op = Some x \<Longrightarrow> halted os (IOError (ErrOS x)) (ops @ [op])"
  unfolding halted_def by blast

lemma leads_mono: "leads os Q m \<Longrightarrow> (\<And>p. Q p \<Longrightarrow> R p) \<Longrightarrow> leads os R m"
  by (auto simp: leads_def split: result.splits)

lemma leads_ebind:
  assumes "leads os Q m" "\<And>x s p. m = (Ok x, s) \<Longrightarrow> Q p \<Longrightarrow> calls os p (ex_ops s) \<Longrightarrow> leads os R (f x s)"
  shows "leads os R (ebind m f id)"
proof (cases m)
  case (Pair r s)
  then show ?thesis using assms by (cases r) (auto simp: leads_def)
qed

lemma leads_Ok: "calls os p (ex_ops st) \<Longrightarrow> Q p \<Longrightarrow> leads os Q (Ok x, st)"
  by (auto simp: leads_def)

lemma leads_stop:
  "calls os p (ex_ops st) \<Longrightarrow> leads os Q (Err e, st)" "calls os p (ex_ops st) \<Longrightarrow> leads os Q (Panic k, st)"
  by (auto simp: leads_def intro: calls_halted)

lemma leads_fs_do:
  assumes "calls os p (ex_ops st)" "call_step p op q"
  shows "leads os ((=) q) (fs_do os op st)"
proof (cases "os (ex_ops st) op")
  case None
  then have "calls os q (ex_ops st @ [op])" using assms by (intro calls.call) (auto simp: granted_def)
  then show ?thesis using None by (simp add: fs_do_def fs_call_def leads_def)
next
  case (Some e)
  then show ?thesis using halted_call [OF assms] by (simp add: fs_do_def fs_call_def leads_def)
qed

lemma CopyTo_failing:
  assumes "\<And>w bs. Q w \<Longrightarrow> case write w bs of (None, w') \<Rightarrow> Q w' | (Some x, w') \<Rightarrow> F x w'"
  shows "CopyTo read write bufsize fuel s w = (e, s', w') \<Longrightarrow> Q w \<Longrightarrow> Q w' \<or> (\<exists>x. e = Some x \<and> F x w')"
proof (induction fuel arbitrary: s w)
  case (Suc k)
  obtain bs er s1 where rd: "read s bufsize = ((bs, er), s1)" by (metis prod.collapse)
  obtain we w1 where wr: "(if bs = [] then (None, w) else write w bs) = (we, w1)" by (metis prod.collapse)
  have "case we of None \<Rightarrow> Q w1 | Some x \<Rightarrow> F x w1"
    using assms [OF Suc.prems(2), of bs] Suc.prems(2) wr by (auto split: if_splits)
  then show ?case using Suc.IH Suc.prems(1) rd wr by (auto split: option.splits)
qed simp

lemma leads_copy_payload:
  assumes "calls os (Writing t) (ex_ops st)"
  shows "leads os ((=) (Writing t)) (copy_payload os t payload st)"
proof -
  let ?s = "(payload, cs_stream (ex_stream st))" and ?w = "(ex_ops st, 0 :: nat)"
  let ?F = "\<lambda>x w. \<exists>ops bs er. fst w = ops @ [WriteFile t bs] \<and> calls os (Writing t) ops
      \<and> os ops (WriteFile t bs) = Some er \<and> x = ErrOS er"
  obtain e fs cr ops n where c: "CopyTo fs_Read (copy_Write os t) 32768 (Suc (cr_steps (cs_stream (ex_stream st)))) ?s ?w
      = (e, (fs, cr), ops, n)" by (metis prod.collapse)
  have "calls os (Writing t) (fst (ops, n)) \<or> (\<exists>x. e = Some x \<and> ?F x (ops, n))"
  proof (rule CopyTo_failing [where Q = "\<lambda>w. calls os (Writing t) (fst w)" and F = ?F, OF _ c])
    fix w :: "fs_op list \<times> nat" and bs
    assume w: "calls os (Writing t) (fst w)"
    then have "calls os (Writing t) (fst w @ [WriteFile t bs])" if "os (fst w) (WriteFile t bs) = None"
      using that by (intro calls.call) (auto simp: granted_def)
    then show "case copy_Write os t w bs of (None, w') \<Rightarrow> calls os (Writing t) (fst w') | (Some x, w') \<Rightarrow> ?F x w'"
      using w by (auto simp: copy_Write_def fs_call_def split: option.splits)
  qed (use assms in simp)
  then show ?thesis
    using c halted_call [OF _ call_step.put]
    by (auto simp: copy_payload_def leads_def intro: calls_halted simp del: CopyTo.simps split: option.splits)
qed

lemma leads_make_links:
  "calls os (Stored t) (ex_ops st) \<Longrightarrow> leads os ((=) (Stored t)) (make_links os t l st)"
  by (induction l arbitrary: st) (auto intro: leads_Ok intro!: leads_ebind [OF leads_fs_do])

lemma leads_extract_regular:
  assumes "calls os (Parent t) (ex_ops st)"
  shows "leads os resting (extract_regular os ent t st)"
proof (cases "1 < ch_nlink (ce_Header ent) \<and> ch_filesize (ce_Header ent) = 0")
  case True
  then show ?thesis using assms by (auto simp: extract_regular_def Let_def intro: leads_Ok)
next
  case False
  have links: "leads os resting (make_links os t l s)" if "calls os (Stored t) (ex_ops s)" for l s
    by (rule leads_mono [OF leads_make_links [OF that]]) auto
  show ?thesis
    unfolding extract_regular_def Let_def if_not_P [OF False]
    by (rule leads_ebind [OF leads_fs_do [OF assms call_step.create]],
        rule leads_ebind [OF leads_copy_payload], simp)
       (auto simp: links leads_Ok [of os "Stored t"] intro!: leads_stop leads_ebind [OF leads_fs_do [OF _ call_step.close]]
          split: option.splits)
qed

lemma leads_extract_symlink:
  assumes "calls os (Parent t) (ex_ops st)"
  shows "leads os resting (extract_symlink os ent t st)"
proof -
  obtain bs e fs cr where r: "fs_Read (ce_payload ent, cs_stream (ex_stream st)) (nat (ch_filesize (ce_Header ent)))
      = ((bs, e), fs, cr)" by (metis prod.collapse)
  let ?st = "st\<lparr>ex_stream := (ex_stream st)\<lparr>cs_stream := cr\<rparr>\<rparr>"
  have "calls os (Parent t) (ex_ops ?st)" using assms by simp
  then have "leads os resting (fs_do os (Symlink x t) ?st)" for x
    by (rule leads_mono [OF leads_fs_do [OF _ call_step.symlink]]) auto
  then show ?thesis using assms r by (auto simp: extract_symlink_def Let_def intro!: leads_stop split: option.splits)
qed

lemma leads_mkdir:
  assumes "calls os (Parent t) (ex_ops st)"
  shows "leads os resting (case fs_call os (Mkdir t m) (ex_ops st) of
       (Some e, ops) \<Rightarrow> (if e \<noteq> ErrExist then Err (IOError (ErrOS e)) else Ok (), st\<lparr>ex_ops := ops\<rparr>)
     | (None, ops) \<Rightarrow> (Ok (), st\<lparr>ex_ops := ops\<rparr>))"
proof (cases "granted os (ex_ops st) (Mkdir t m)")
  case True
  then have "calls os Between (ex_ops (st\<lparr>ex_ops := ex_ops st @ [Mkdir t m]\<rparr>))"
    using calls.call [OF assms call_step.mkdir] by simp
  from leads_Ok [OF this, of resting] show ?thesis using True by (auto simp: fs_call_def granted_def split: option.splits)
next
  case False
  then show ?thesis
    using halted_call [OF assms call_step.mkdir]
    by (auto simp: fs_call_def granted_def leads_def split: option.splits)
qed

lemma leads_extract_entry:
  assumes "calls os p (ex_ops st)" "resting p"
  shows "leads os resting (extract_entry os d ent st)"
proof (cases "extract_target d (ch_filename (ce_Header ent))")
  case (Ok t)
  have fifo: "leads os resting (fileutil_Mkfifo os t m s)" if "calls os (Parent t) (ex_ops s)" for m s
    unfolding fileutil_Mkfifo_def by (rule leads_mono [OF leads_fs_do [OF that call_step.mkfifo]]) auto
  show ?thesis
    unfolding extract_entry_def Let_def Ok result.case
    by (rule leads_ebind [OF leads_fs_do [OF assms(1) call_step.parent [OF assms(2)]]])
       (auto simp: leads_Ok [of os "Parent t"] leads_mkdir leads_extract_symlink leads_extract_regular fifo
          simp del: if_split_asm intro!: leads_stop)
qed (use assms in \<open>auto simp: extract_entry_def Let_def intro: leads_stop\<close>)

lemma extract_loop_calls:
  assumes "calls os p (ex_ops st)" "resting p" "extract_loop os d fuel st = (Some r, st')"
  shows "leads os resting (r, st')"
  using assms
proof (induction fuel arbitrary: p st)
  case (Suc k)
  obtain n cs where n: "ReadNextEntry (ex_stream st) = (n, cs)" by (metis prod.collapse)
  let ?st = "st\<lparr>ex_stream := cs\<rparr>"
  have st: "calls os p (ex_ops ?st)" using Suc.prems(1) by simp
  show ?case
  proof (cases n)
    case (Ok ent)
    obtain e st2 where x: "extract_entry os d ent ?st = (e, st2)" by (metis prod.collapse)
    note L = leads_extract_entry [OF st Suc.prems(2), of d ent, unfolded x]
    show ?thesis
    proof (cases "ch_filename (ce_Header ent) = TRAILER")
      case True
      then show ?thesis using n Ok st Suc.prems(2,3) by (auto simp: Let_def intro: leads_Ok)
    next
      case False
      show ?thesis
      proof (cases e)
        case ok: (Ok u)
        with L obtain q where "resting q" "calls os q (ex_ops st2)" by (auto simp: leads_def)
        then show ?thesis using Suc.IH [of q st2] n Ok False x ok Suc.prems(3) by simp
      qed (use L n Ok False x Suc.prems(3) in simp_all)
    qed
  qed (use n st Suc.prems(3) in \<open>auto intro: leads_stop\<close>)
qed simp

lemma Extract_calls:
  assumes "Extract os rs dest = (Some r, ops)"
  obtains st where "ex_ops st = ops" "leads os resting (r, st)"
proof -
  let ?st = "\<lparr>ex_stream = NewCpioStream rs, ex_linkMap = Map.empty, ex_ops = []\<rparr>"
  obtain st where x: "extract_loop os (Clean dest) (Suc (length (reader_pending rs))) ?st = (Some r, st)" "ex_ops st = ops"
    using assms by (auto simp: Extract_def Let_def simp del: extract_loop.simps split: prod.splits)
  have "calls os Between (ex_ops ?st)" by (simp add: calls.start)
  from that [OF x(2) extract_loop_calls [OF this _ x(1)]] show ?thesis by simp
qed

section \<open>What the protocol means for a trace\<close>

definition opened_files :: "fs_op list \<Rightarrow> string list" where
  "opened_files ops = concat (map (\<lambda>op. case op of CreateFile t \<Rightarrow> [t] | _ \<Rightarrow> []) ops)"

definition closed_files :: "fs_op list \<Rightarrow> string list" where
  "closed_files ops = concat (map (\<lambda>op. case op of CloseFile t \<Rightarrow> [t] | _ \<Rightarrow> []) ops)"

text \<open>What has happened before a call.\<close>

definition follows :: "fs_op list \<Rightarrow> fs_op \<Rightarrow> bool" where
  "follows ops op \<longleftrightarrow>
     (case op of
        MkdirAll d \<Rightarrow> closed_files ops = opened_files ops
      | Mkdir t _ \<Rightarrow> ops \<noteq> [] \<and> last ops = MkdirAll (Dir t)
      | Mkfifo t _ \<Rightarrow> ops \<noteq> [] \<and> last ops = MkdirAll (Dir t)
      | Symlink _ t \<Rightarrow> ops \<noteq> [] \<and> last ops = MkdirAll (Dir t)
      | CreateFile t \<Rightarrow> ops \<noteq> [] \<and> last ops = MkdirAll (Dir t)
      | WriteFile t _ \<Rightarrow> (\<exists>pre ws. ops = pre @ CreateFile t # map (WriteFile t) ws)
      | CloseFile t \<Rightarrow> (\<exists>pre ws. ops = pre @ CreateFile t # map (WriteFile t) ws)
      | Link t _ \<Rightarrow> (\<exists>pre ws ls. ops = pre @ CreateFile t # map (WriteFile t) ws @ CloseFile t # map (Link t) ls))"

definition phase_ok :: "phase \<Rightarrow> fs_op list \<Rightarrow> bool" where
  "phase_ok p ops \<longleftrightarrow>
     (case p of
        Between \<Rightarrow> closed_files ops = opened_files ops
      | Parent t \<Rightarrow> closed_files ops = opened_files ops \<and> ops \<noteq> [] \<and> last ops = MkdirAll (Dir t)
      | Writing t \<Rightarrow> closed_files ops @ [t] = opened_files ops \<and> (\<exists>pre ws. ops = pre @ CreateFile t # map (WriteFile t) ws)
      | Stored t \<Rightarrow> closed_files ops = opened_files ops
          \<and> (\<exists>pre ws ls. ops = pre @ CreateFile t # map (WriteFile t) ws @ CloseFile t # map (Link t) ls))"

lemma files_simps [simp]:
  "opened_files [] = []" "closed_files [] = []"
  "opened_files (xs @ ys) = opened_files xs @ opened_files ys" "closed_files (xs @ ys) = closed_files xs @ closed_files ys"
  "opened_files (op # ops) = (case op of CreateFile t \<Rightarrow> [t] | _ \<Rightarrow> []) @ opened_files ops"
  "closed_files (op # ops) = (case op of CloseFile t \<Rightarrow> [t] | _ \<Rightarrow> []) @ closed_files ops"
  by (simp_all add: opened_files_def closed_files_def)

lemma extend_writes: "(\<exists>pre ws. ops = pre @ CreateFile t # map (WriteFile t) ws) \<Longrightarrow>
    \<exists>pre ws. ops @ [WriteFile t bs] = pre @ CreateFile t # map (WriteFile t) ws"
  by (metis append.assoc append_Cons list.simps(8) list.simps(9) map_append)

lemma extend_links: "(\<exists>pre ws ls. ops = pre @ CreateFile t # map (WriteFile t) ws @ CloseFile t # map (Link t) ls) \<Longrightarrow>
    \<exists>pre ws ls. ops @ [Link t u] = pre @ CreateFile t # map (WriteFile t) ws @ CloseFile t # map (Link t) ls"
  by (metis append.assoc append_Cons list.simps(8) list.simps(9) map_append)

lemma close_writes: "(\<exists>pre ws. ops = pre @ CreateFile t # map (WriteFile t) ws) \<Longrightarrow>
    \<exists>pre ws ls. ops @ [CloseFile t] = pre @ CreateFile t # map (WriteFile t) ws @ CloseFile t # map (Link t) ls"
  by (metis append.assoc append_Cons append_Nil list.simps(8))

lemma phase_step: "call_step p op q \<Longrightarrow> phase_ok p ops \<Longrightarrow> follows ops op \<and> phase_ok q (ops @ [op])"
proof (induction rule: call_step.induct)
  case (parent p t)
  then show ?case by (cases p) (auto simp: phase_ok_def follows_def)
next
  case (create t)
  then show ?case by (auto simp: phase_ok_def follows_def)
next
  case (put t bs)
  then show ?case using extend_writes by (auto simp: phase_ok_def follows_def)
next
  case (close t)
  then show ?case using close_writes by (auto simp: phase_ok_def follows_def)
next
  case (link t u)
  then show ?case using extend_links by (auto simp: phase_ok_def follows_def)
qed (auto simp: phase_ok_def follows_def)

lemma calls_phase: "calls os p ops \<Longrightarrow> phase_ok p ops"
  by (induction rule: calls.induct) (auto simp: phase_ok_def [of Between "[]"] dest: phase_step)

text \<open>Every call of a run comes when the protocol allows it and is granted.\<close>

lemma calls_each: "calls os p ops \<Longrightarrow> ops = before @ op # after \<Longrightarrow> follows before op \<and> granted os before op"
proof (induction arbitrary: after rule: calls.induct)
  case (call p ops op' q)
  show ?case
  proof (cases after rule: rev_cases)
    case Nil
    then show ?thesis using call phase_step [OF call.hyps(2) calls_phase [OF call.hyps(1)]] by simp
  next
    case (snoc after' x)
    then show ?thesis using call.IH [of after'] call.prems by simp
  qed
qed simp

lemma resting_closed: "calls os p ops \<Longrightarrow> resting p \<Longrightarrow> closed_files ops = opened_files ops"
  by (drule calls_phase) (cases p, auto simp: phase_ok_def)

lemma phase_left_open:
  "phase_ok p ops \<Longrightarrow> \<exists>l. opened_files ops = closed_files ops @ l \<and> length l \<le> 1 \<and> (resting p \<longrightarrow> l = [])"
  by (rule exI [of _ "case p of Writing t \<Rightarrow> [t] | _ \<Rightarrow> []"]) (auto simp: phase_ok_def split: phase.splits)

lemma leads_each:
  assumes "leads os resting (r, st)" "ex_ops st = before @ op # after"
  shows "follows before op \<and> (granted os before op
     \<or> after = [] \<and> (\<exists>x. os before op = Some x \<and> r = Err (IOError (ErrOS x))))"
proof (cases "\<exists>p. calls os p (ex_ops st)")
  case True
  then show ?thesis using calls_each assms(2) by blast
next
  case False
  then obtain e ops' op' p q x where e: "r = Err e" "ex_ops st = ops' @ [op']" "calls os p ops'" "call_step p op' q"
      "os ops' op' = Some x" "e = IOError (ErrOS x)"
    using assms(1) by (auto simp: leads_def halted_def split: result.splits)
  show ?thesis
  proof (cases after rule: rev_cases)
    case Nil
    then show ?thesis using assms(2) e phase_step [OF e(4) calls_phase [OF e(3)]] by simp
  next
    case (snoc after' y)
    then show ?thesis using assms(2) e(2) calls_each [OF e(3), of before op after'] by simp
  qed
qed

lemma leads_left_open:
  assumes "leads os resting (r, st)"
  shows "\<exists>l. opened_files (ex_ops st) = closed_files (ex_ops st) @ l \<and> length l \<le> 1 \<and> (r = Ok () \<longrightarrow> l = [])"
proof (cases "\<exists>p. calls os p (ex_ops st)")
  case True
  then obtain p where "calls os p (ex_ops st)" "r = Ok () \<longrightarrow> resting p"
    using assms by (cases r) (auto simp: leads_def)
  then show ?thesis using phase_left_open [OF calls_phase, of os p] by blast
next
  case False
  then obtain e ops op p q where e: "r = Err e" "ex_ops st = ops @ [op]" "calls os p ops" "call_step p op q"
    using assms by (auto simp: leads_def halted_def split: result.splits)
  then show ?thesis using phase_left_open phase_step [OF e(4) calls_phase [OF e(3)]] by fastforce
qed

section \<open>Properties\<close>

text \<open>
  C34.  The system calls of an extraction come in order, whatever the archive contains and however
  the system answers: a directory, pipe, symbolic link or file is created right after its
  parent directory has been asked for; a file is written and closed only while it is the one
  just created; a hard link is made only to the file just written and closed; and the next
  entry is begun only when every file is closed.  At most one file is left open, none if
  extraction succeeds.
\<close>

theorem Extract_call_order:
  assumes "Extract os rs dest = (Some r, ops)"
  shows "(\<forall>before op after. ops = before @ op # after \<longrightarrow> follows before op)
     \<and> (\<exists>l. opened_files ops = closed_files ops @ l \<and> length l \<le> 1 \<and> (r = Ok () \<longrightarrow> l = []))"
proof -
  obtain st where st: "ex_ops st = ops" "leads os resting (r, st)" using Extract_calls [OF assms] .
  show ?thesis using leads_each [OF st(2)] leads_left_open [OF st(2)] unfolding st(1) by blast
qed

text \<open>
  C35.  Extraction stops at the first system call that fails and returns its error: a call that is
  refused, other than for a directory that exists already, is the last one, and its error
  is the result.  So when extraction succeeds, every call has succeeded.
\<close>

theorem Extract_stops_at_failure:
  assumes "Extract os rs dest = (Some r, before @ op # after)" "\<not> granted os before op"
  shows "after = [] \<and> (\<exists>x. os before op = Some x \<and> r = Err (IOError (ErrOS x)))"
proof -
  obtain st where "ex_ops st = before @ op # after" "leads os resting (r, st)" using Extract_calls [OF assms(1)] .
  then show ?thesis using leads_each assms(2) by blast
qed

theorem Extract_call_order_witness:
  "\<exists>ops. Extract (\<lambda>_ _. None) sample_archive ''/d'' = (Some (Ok ()), ops) \<and> closed_files ops = opened_files ops"
proof -
  have names: "\<forall>f \<in> set [sample_file ''./a'' [1, 2, 3], sample_file ''./b'' []]. af_name f \<noteq> TRAILER"
      "af_name (sample_file TRAILER []) = TRAILER"
    by (simp_all add: sample_file_fields TRAILER_def)
  have ok: "list_all af_ok [sample_file TRAILER [], sample_file ''./a'' [1, 2, 3], sample_file ''./b'' []]"
    by (simp add: sample_file_ok TRAILER_def)
  obtain ops where x: "Extract (\<lambda>_ _. None) sample_archive ''/d'' = (Some (Ok ()), ops)"
    using Extract_unpack [OF sample_archive_pending ok names sample_archive_small, of "\<lambda>_ _. None" "''/d''"]
    unfolding sample_unpack by (auto simp: sample_kind no_links_whole dest!: Extract_unpack_granted)
  from Extract_call_order [OF x] x show ?thesis by auto
qed

abbreviation (input) no_create :: fs_env where
  "no_create \<equiv> \<lambda>_ op. case op of CreateFile _ \<Rightarrow> Some ErrNotExist | _ \<Rightarrow> None"

lemma refused_trace:
  "Extract no_create sample_archive ''/d''
     = (Some (Err (IOError (ErrOS ErrNotExist))), [MkdirAll ''/d''] @ CreateFile ''/d/a'' # [])"
proof -
  let ?f = "sample_file ''./a'' [1, 2, 3]"
  let ?rest = "archive_bytes [sample_file ''./b'' []] (sample_file TRAILER []) @ [0, 0]"
  have at: "cs_at 0 (newc_bytes ?f @ ?rest) EOF (NewCpioStream sample_archive)"
    using sample_archive_pending by (simp add: cs_at_def NewCpioStream_def cr_at_def archive_bytes_def)
  have "0 + length (newc_bytes ?f) < 2 ^ 62" using sample_file_length [of "''./a''" "[1, 2, 3]"] by simp
  from ReadNextEntry_opened [OF at _ this] obtain ent cs
    where "ReadNextEntry (NewCpioStream sample_archive) = (Ok ent, cs)" "ce_Header ent = archive_header ?f"
    by (auto simp: sample_file_ok opened_def)
  moreover have "int (af_mode ?f) AND - 4096 = S_ISREG"
    using sample_kind kind_iff(6) [of "af_mode ?f"] by (simp add: af_kind_def)
  ultimately show ?thesis
    by (simp add: Extract_def Let_def extract_entry_def extract_regular_def fs_do_def fs_call_def
        sample_file_fields sample_targets TRAILER_def)
qed

theorem Extract_stops_at_failure_witness:
  "\<exists>x. no_create [MkdirAll ''/d''] (CreateFile ''/d/a'') = Some x
     \<and> fst (Extract no_create sample_archive ''/d'') = Some (Err (IOError (ErrOS x)))"
  using Extract_stops_at_failure [OF refused_trace] by (simp add: granted_def refused_trace)

end
