(* ===== verification/Disk.thy ===== *)
theory Disk
  imports Calls
begin

text \<open>
  What an extraction leaves on the disk.  The calls of a trace are carried out on the file system of
  \<open>Go_OS\<close>, in which names refer to files, so that hard links share their contents; the specification
  \<open>unpack\<close>, and with it \<^verbatim>\<open>cpio/extract.go\<close>, then gives every regular file of an archive its
  contents.  The disk has no symbolic links, through which a path could lead elsewhere, so
  the archives are those without them.
\<close>

section \<open>Carrying out a trace\<close>

text \<open>
  The names of regular files.  An open file is the one its path refers to, as nothing is renamed or
  removed; directories and pipes have other names than the files and are not recorded.
\<close>

definition file_step :: "os_state \<Rightarrow> fs_op \<Rightarrow> os_state" where
  "file_step st op =
     (case op of
        CreateFile p \<Rightarrow> snd (os_Create (os_ok (\<lambda>_ _ b. b)) p st)
      | WriteFile p bs \<Rightarrow> (case os_dir st p of Some i \<Rightarrow> put_bytes i st bs | None \<Rightarrow> st)
      | Link p q \<Rightarrow> (case os_dir st p of Some i \<Rightarrow> st\<lparr>os_dir := (os_dir st)(q \<mapsto> i)\<rparr> | None \<Rightarrow> st)
      | _ \<Rightarrow> st)"

abbreviation file_run :: "os_state \<Rightarrow> fs_op list \<Rightarrow> os_state" where
  "file_run \<equiv> foldl file_step"

text \<open>A call on a disk without symbolic links, which therefore cannot make one, and a sequence of calls.\<close>

definition disk_step :: "os_state \<Rightarrow> fs_op \<Rightarrow> os_state option" where
  "disk_step st op = (case op of Symlink _ _ \<Rightarrow> None | _ \<Rightarrow> Some (file_step st op))"

primrec disk_run :: "os_state \<Rightarrow> fs_op list \<Rightarrow> os_state option" where
  "disk_run st [] = Some st"
| "disk_run st (op # ops) = Option.bind (disk_step st op) (\<lambda>st'. disk_run st' ops)"

lemma disk_run_eq: "(\<And>x t. Symlink x t \<notin> set ops) \<Longrightarrow> disk_run st ops = Some (file_run st ops)"
proof (induction ops arbitrary: st)
  case (Cons op ops)
  have "disk_step st op = Some (file_step st op)" using Cons.prems by (cases op) (auto simp: disk_step_def)
  then show ?case using Cons by simp
qed simp

lemma coalesce_symlink: "Symlink x t \<in> set (coalesce ops) \<longleftrightarrow> Symlink x t \<in> set ops"
  by (induction ops rule: coalesce.induct) (auto simp: join_write_def split: list.splits fs_op.splits if_splits)

lemma unpack_no_symlink:
  assumes "\<forall>f \<in> set fs. af_kind f \<noteq> 10"
  shows "Symlink x t \<notin> set (snd (unpack d L fs))"
  using assms
proof (induction fs arbitrary: L)
  case (Cons f fs)
  have "Symlink x t \<notin> set (snd (snd (unpack_file L f u)))" for u
    using Cons.prems by (auto simp: unpack_file_def put_file_def split: option.splits)
  then show ?case
    using Cons by (auto simp: split_def split: result.splits) 
qed simp

definition disk_ok :: "os_state \<Rightarrow> bool" where
  "disk_ok st \<longleftrightarrow> (\<forall>p i. os_dir st p = Some i \<longrightarrow> i < os_next st)"

text \<open>The size of the pieces in which a file is written does not matter.\<close>

lemma file_step_writes: "file_step (file_step st (WriteFile p bs)) (WriteFile p cs) = file_step st (WriteFile p (bs @ cs))"
  by (simp add: file_step_def put_bytes_append split: option.splits)

lemma file_run_join: "file_run st (join_write p bs ops) = file_run st (WriteFile p bs # ops)"
  by (auto simp: join_write_def file_step_writes split: list.splits fs_op.splits)

lemma file_run_coalesce: "file_run st (coalesce ops) = file_run st ops"
  by (induction ops arbitrary: st rule: coalesce.induct) (simp_all add: file_run_join)

section \<open>New files\<close>

text \<open>A state with one more file, under some new names.\<close>

definition adds_file :: "os_state \<Rightarrow> string set \<Rightarrow> bytes \<Rightarrow> os_state \<Rightarrow> bool" where
  "adds_file st names data st' \<longleftrightarrow>
     os_dir st' = (\<lambda>q. if q \<in> names then Some (os_next st) else os_dir st q)
     \<and> (\<forall>i < os_next st. os_inodes st' i = os_inodes st i)
     \<and> ino_data (os_inodes st' (os_next st)) = data \<and> os_next st' = Suc (os_next st)"

lemma adds_file_data:
  assumes "adds_file st names data st'" "disk_ok st"
  shows "disk_ok st'" "file_data st' q = (if q \<in> names then Some data else file_data st q)"
proof -
  show "disk_ok st'" using assms by (auto simp: disk_ok_def adds_file_def less_Suc_eq split: if_splits)
  show "file_data st' q = (if q \<in> names then Some data else file_data st q)"
    using assms by (cases "os_dir st q") (auto simp: adds_file_def file_data_def disk_ok_def)
qed

lemma adds_file_dir: "adds_file st names data st' \<Longrightarrow> os_dir st' q = (if q \<in> names then Some (os_next st) else os_dir st q)"
  by (simp add: adds_file_def)

lemma put_file_adds:
  assumes "os_dir st t = None"
  shows "adds_file st {t} data (file_run st (put_file t data))"
  using assms
  by (auto simp: put_file_def file_step_def os_Create_def new_file_def adds_file_def put_bytes_def write_at_def)

lemma links_add:
  assumes "adds_file st names data st1" "t \<in> names"
  shows "adds_file st (names \<union> set l) data (file_run st1 (map (Link t) l))"
  using assms
proof (induction l arbitrary: names st1)
  case (Cons q l)
  have "adds_file st (insert q names) data (file_step st1 (Link t q))"
    using Cons.prems by (auto simp: adds_file_def file_step_def)
  from Cons.IH [OF this] Cons.prems(2) show ?case by simp
qed simp

section \<open>One file of an archive\<close>

text \<open>
  A regular file is stored, or it is deferred: an empty file with several links waits for the one
  that carries the contents.
\<close>

definition af_deferred :: "archive_file \<Rightarrow> bool" where
  "af_deferred f \<longleftrightarrow> af_kind f = 8 \<and> 1 < af_nlink f \<and> af_data f = []"

definition af_carrier :: "archive_file \<Rightarrow> bool" where
  "af_carrier f \<longleftrightarrow> af_kind f = 8 \<and> 1 < af_nlink f \<and> af_data f \<noteq> []"

definition af_stored :: "archive_file \<Rightarrow> bool" where
  "af_stored f \<longleftrightarrow> af_kind f = 8 \<and> (af_nlink f \<le> 1 \<or> af_data f \<noteq> [])"

definition target_of :: "string \<Rightarrow> archive_file \<Rightarrow> string" where
  "target_of d f = (case extract_target d (af_name f) of Ok t \<Rightarrow> t | _ \<Rightarrow> '''')"

abbreviation pend :: "(nat \<Rightarrow> string list option) \<Rightarrow> nat \<Rightarrow> string set" where
  "pend L i \<equiv> (case L i of Some l \<Rightarrow> set l | None \<Rightarrow> {})"

abbreviation file_names :: "(nat \<Rightarrow> string list option) \<Rightarrow> archive_file \<Rightarrow> string \<Rightarrow> string set" where
  "file_names L f t \<equiv> (if af_carrier f then insert t (pend L (af_ino f)) else {t})"

lemma unpack_file_disk:
  assumes "unpack_file L f t = (Ok (), L', ops)" "os_dir st t = None"
  shows "if af_stored f then adds_file st (file_names L f t) (af_data f) (file_run st ops) else file_run st ops = st"
proof (cases "af_carrier f")
  case True
  then obtain l where l: "L (af_ino f) = Some l" and ops: "ops = put_file t (af_data f) @ map (Link t) l"
    using assms(1) by (auto simp: unpack_file_def af_carrier_def split: option.splits)
  from links_add [OF put_file_adds [OF assms(2), of "af_data f"], of t l] True l
  show ?thesis by (auto simp: ops af_stored_def af_carrier_def)
next
  case False
  then show ?thesis
    using assms put_file_adds [OF assms(2), of "af_data f"]
    by (auto simp: unpack_file_def af_carrier_def af_stored_def file_step_def split: if_splits)
qed

lemma unpack_file_pend:
  "unpack_file L f t = (Ok (), L', ops) \<Longrightarrow>
     pend L' i = (if af_deferred f \<and> i = af_ino f then insert t (pend L i) else pend L i)"
  by (auto simp: unpack_file_def af_deferred_def split: if_splits option.splits)

section \<open>A whole archive\<close>

text \<open>
  Nothing is in the way of what is left to unpack: the targets are distinct, not taken and not
  waiting for a hard link, no name waits for two files, and no two files carry the contents of the same one.
\<close>

definition clear :: "string \<Rightarrow> (nat \<Rightarrow> string list option) \<Rightarrow> archive_file list \<Rightarrow> os_state \<Rightarrow> bool" where
  "clear d L fs st \<longleftrightarrow> distinct (map (target_of d) fs) \<and> distinct (map af_ino (filter af_carrier fs)) \<and> disk_ok st
     \<and> (\<forall>f \<in> set fs. os_dir st (target_of d f) = None \<and> (\<forall>i. target_of d f \<notin> pend L i))
     \<and> (\<forall>i j t. t \<in> pend L i \<longrightarrow> t \<in> pend L j \<longrightarrow> i = j)"

lemma unpack_stepE:
  assumes "unpack d L (f # fs) = (Ok (), ops)" "clear d L (f # fs) st"
  obtains L' st1 ops2 where "file_run st ops = file_run st1 ops2" "unpack d L' fs = (Ok (), ops2)" "clear d L' fs st1"
    and "\<And>i. pend L' i = (if af_deferred f \<and> i = af_ino f then insert (target_of d f) (pend L i) else pend L i)"
    and "if af_stored f then adds_file st (file_names L f (target_of d f)) (af_data f) st1 else st1 = st"
proof -
  let ?t = "target_of d f"
  obtain L' ops1 ops2 where u: "unpack_file L f ?t = (Ok (), L', ops1)" "unpack d L' fs = (Ok (), ops2)"
      and ops: "ops = MkdirAll (Dir ?t) # ops1 @ ops2"
    using assms(1) by (auto simp: target_of_def split: result.splits prod.splits)
  let ?st = "file_run st ops1"
  have free: "os_dir st ?t = None" "\<And>i. ?t \<notin> pend L i" "disk_ok st" using assms(2) by (auto simp: clear_def)
  note p = unpack_file_pend [OF u(1)] and add = unpack_file_disk [OF u(1) free(1)]
  have dir: "os_dir ?st q = os_dir st q" if "q \<noteq> ?t" "\<And>i. q \<notin> pend L i" for q
    using add that by (auto simp: adds_file_def split: if_splits)
  have "disk_ok ?st" using add adds_file_data(1) free(3) by (auto split: if_splits)
  then have "clear d L' fs ?st"
    using assms(2) dir free(2) unfolding clear_def p by (auto simp: dir image_iff split: if_splits)
  then show thesis using that [of ?st ops2 L'] u(2) p add by (simp add: ops file_step_def)
qed

definition touched :: "string \<Rightarrow> (nat \<Rightarrow> string list option) \<Rightarrow> archive_file list \<Rightarrow> string set" where
  "touched d L fs = target_of d ` set fs \<union> (\<Union>g \<in> set (filter af_carrier fs). pend L (af_ino g))"

lemma untouched:
  assumes "unpack d L fs = (Ok (), ops)" "clear d L fs st" "q \<notin> touched d L fs"
  shows "os_dir (file_run st ops) q = os_dir st q \<and> file_data (file_run st ops) q = file_data st q"
  using assms
proof (induction fs arbitrary: L st ops)
  case (Cons f fs)
  from Cons.prems(1,2) show ?case
  proof (cases rule: unpack_stepE)
    case (1 L' st1 ops2)
    have q: "q \<notin> touched d L' fs" "q \<notin> file_names L f (target_of d f)"
      using Cons.prems(3) unfolding touched_def 1(4) by (auto split: if_splits)
    have "disk_ok st" using Cons.prems(2) by (simp add: clear_def)
    then have "os_dir st1 q = os_dir st q \<and> file_data st1 q = file_data st q"
      using 1(5) q(2) by (auto simp: adds_file_data(2) adds_file_dir split: if_splits)
    with Cons.IH [OF 1(2,3) q(1)] show ?thesis by (simp add: 1(1))
  qed
qed simp

lemma stored_contents:
  assumes "unpack d L fs = (Ok (), ops)" "clear d L fs st" "f \<in> set fs" "af_stored f"
  shows "file_data (file_run st ops) (target_of d f) = Some (af_data f)"
  using assms
proof (induction fs arbitrary: L st ops)
  case (Cons g fs)
  from Cons.prems(1,2) show ?case
  proof (cases rule: unpack_stepE)
    case (1 L' st1 ops2)
    show ?thesis
    proof (cases "f \<in> set fs")
      case True
      then show ?thesis using Cons.IH [OF 1(2,3) _ Cons.prems(4)] by (simp add: 1(1))
    next
      case False
      with Cons.prems(3) have g: "g = f" by simp
      have "target_of d f \<notin> touched d L' fs"
        using Cons.prems(2,4) unfolding touched_def g clear_def 1(4) by (auto simp: af_stored_def af_deferred_def)
      moreover have "file_data st1 (target_of d f) = Some (af_data f)"
        using 1(5) Cons.prems(2,4) adds_file_data(2) by (auto simp: g clear_def)
      ultimately show ?thesis using untouched [OF 1(2,3)] by (simp add: 1(1))
    qed
  qed
qed simp

lemma pending_linked:
  assumes "unpack d L fs = (Ok (), ops)" "clear d L fs st" "t \<in> pend L (af_ino g)" "g \<in> set fs" "af_carrier g"
  shows "os_dir (file_run st ops) t = os_dir (file_run st ops) (target_of d g)"
  using assms
proof (induction fs arbitrary: L st ops)
  case (Cons f fs)
  from Cons.prems(1,2) show ?case
  proof (cases rule: unpack_stepE)
    case (1 L' st1 ops2)
    have t: "t \<in> pend L' (af_ino g)" using Cons.prems(3) by (auto simp: 1(4))
    show ?thesis
    proof (cases "g \<in> set fs")
      case True
      then show ?thesis using Cons.IH [OF 1(2,3) t _ Cons.prems(5)] by (simp add: 1(1))
    next
      case False
      with Cons.prems(4) have f: "f = g" by simp
      have L': "pend L' i = pend L i" for i
        using 1(4) [of i] Cons.prems(5) by (simp add: f af_carrier_def af_deferred_def)
      have "af_ino x \<noteq> af_ino g" if "x \<in> set fs" "af_carrier x" for x
        using Cons.prems(2,5) that by (auto simp: f clear_def image_iff)
      then have "t \<notin> touched d L' fs" "target_of d g \<notin> touched d L' fs"
        using Cons.prems(2,3) unfolding touched_def f clear_def L' by (auto, blast)
      moreover have "os_dir st1 t = os_dir st1 (target_of d g)"
        using 1(5) Cons.prems(3,5) by (auto simp: f adds_file_dir af_stored_def af_carrier_def split: if_splits)
      ultimately show ?thesis using untouched [OF 1(2,3)] by (simp add: 1(1))
    qed
  qed
qed simp

text \<open>A deferred file gets the contents of the file that carries them, if one follows.\<close>

lemma deferred_linked:
  assumes "unpack d L (fs @ f # gs) = (Ok (), ops)" "clear d L (fs @ f # gs) st" "af_deferred f"
  shows "if \<exists>g \<in> set gs. af_carrier g \<and> af_ino g = af_ino f
     then \<forall>g \<in> set gs. af_carrier g \<and> af_ino g = af_ino f \<longrightarrow>
            os_dir (file_run st ops) (target_of d f) = os_dir (file_run st ops) (target_of d g)
     else os_dir (file_run st ops) (target_of d f) = None"
  using assms(1,2)
proof (induction fs arbitrary: L st ops)
  case Nil
  from Nil [unfolded append_Nil] show ?case
  proof (cases rule: unpack_stepE)
    case (1 L' st1 ops2)
    have t: "target_of d f \<in> pend L' (af_ino f)" using assms(3) by (simp add: 1(4))
    have st1: "st1 = st" using 1(5) assms(3) by (simp add: af_stored_def af_deferred_def split: if_splits)
    have none: "os_dir (file_run st ops) (target_of d f) = None" if "\<not> (\<exists>g \<in> set gs. af_carrier g \<and> af_ino g = af_ino f)"
    proof -
      have "target_of d f \<notin> touched d L' gs"
        using that Nil(2) unfolding touched_def clear_def 1(4) by auto
      then show ?thesis using untouched [OF 1(2,3)] Nil(2) by (simp add: 1(1) st1 clear_def)
    qed
    show ?thesis using none pending_linked [OF 1(2,3)] t by (auto simp: 1(1))
  qed
next
  case (Cons x fs)
  from Cons.prems [unfolded append_Cons] show ?case
  proof (cases rule: unpack_stepE)
    case (1 L' st1 ops2)
    from Cons.IH [OF 1(2,3)] show ?thesis by (simp add: 1(1))
  qed
qed

section \<open>Properties\<close>

text \<open>
  The files of an archive are on the disk: a stored file has its contents; a deferred one is another name of the
  file after it that carries the contents of its inode, or does not exist if there is none; every other name
  is as before.
\<close>

definition installed :: "string \<Rightarrow> archive_file list \<Rightarrow> os_state \<Rightarrow> os_state \<Rightarrow> bool" where
  "installed d fs st st' \<longleftrightarrow>
     (\<forall>f \<in> set fs. af_stored f \<longrightarrow> file_data st' (target_of d f) = Some (af_data f))
     \<and> (\<forall>xs f ys. fs = xs @ f # ys \<and> af_deferred f \<longrightarrow>
          (\<forall>g \<in> set ys. af_carrier g \<and> af_ino g = af_ino f \<longrightarrow>
             os_dir st' (target_of d f) = os_dir st' (target_of d g) \<and> file_data st' (target_of d f) = Some (af_data g))
          \<and> ((\<forall>g \<in> set ys. \<not> (af_carrier g \<and> af_ino g = af_ino f)) \<longrightarrow> file_data st' (target_of d f) = None))
     \<and> (\<forall>q. q \<notin> target_of d ` set fs \<longrightarrow> file_data st' q = file_data st q)"

lemma installedD:
  assumes "installed d fs st st'"
  shows "f \<in> set fs \<Longrightarrow> af_stored f \<Longrightarrow> file_data st' (target_of d f) = Some (af_data f)"
    and "fs = xs @ f # ys \<Longrightarrow> af_deferred f \<Longrightarrow> g \<in> set ys \<Longrightarrow> af_carrier g \<Longrightarrow> af_ino g = af_ino f \<Longrightarrow>
       file_data st' (target_of d f) = Some (af_data g)"
    and "q \<notin> target_of d ` set fs \<Longrightarrow> file_data st' q = file_data st q"
  using assms unfolding installed_def by blast+

text \<open>A disk on which the files of an archive have room.\<close>

definition room_for :: "string \<Rightarrow> archive_file list \<Rightarrow> os_state \<Rightarrow> bool" where
  "room_for d fs st \<longleftrightarrow> disk_ok st \<and> distinct (map (target_of d) fs) \<and> distinct (map af_ino (filter af_carrier fs))
     \<and> (\<forall>f \<in> set fs. os_dir st (target_of d f) = None)"

lemma room_clear: "room_for d fs st \<Longrightarrow> clear d Map.empty fs st"
  by (simp add: room_for_def clear_def)

lemma unpack_installs:
  assumes "unpack d Map.empty fs = (Ok (), ops)" "room_for d fs st" "file_run st ops = st'"
  shows "installed d fs st st'"
  unfolding installed_def
proof (intro conjI allI impI ballI)
  note c = room_clear [OF assms(2)]
  show stored: "file_data st' (target_of d f) = Some (af_data f)" if "f \<in> set fs" "af_stored f" for f
    using stored_contents [OF assms(1) c that] assms(3) by simp
  show "file_data st' q = file_data st q" if "q \<notin> target_of d ` set fs" for q
    using untouched [OF assms(1) c, of q] that assms(3) by (simp add: touched_def)
  fix xs f ys
  assume f: "fs = xs @ f # ys \<and> af_deferred f"
  note link = deferred_linked [OF assms(1) [unfolded conjunct1 [OF f]] c [unfolded conjunct1 [OF f]] conjunct2 [OF f],
      unfolded assms(3)]
  show "file_data st' (target_of d f) = None" if "\<forall>g \<in> set ys. \<not> (af_carrier g \<and> af_ino g = af_ino f)"
    using link that by (auto simp: file_data_def)
  fix g
  assume g: "g \<in> set ys" "af_carrier g \<and> af_ino g = af_ino f"
  then show same: "os_dir st' (target_of d f) = os_dir st' (target_of d g)" using link by (auto split: if_splits)
  have "file_data st' (target_of d g) = Some (af_data g)"
    using g f by (intro stored) (auto simp: af_stored_def af_carrier_def)
  then show "file_data st' (target_of d f) = Some (af_data g)" using same by (simp add: file_data_def)
qed

text \<open>On any system: a successful extraction has done what the specification says.\<close>

lemma unpacks_installs:
  assumes "unpacks_to os (Some (Ok ()), ops) (unpack (Clean dest) Map.empty fs)" "\<forall>f \<in> set fs. af_kind f \<noteq> 10"
    and "room_for (Clean dest) fs st"
  shows "\<exists>st'. disk_run st ops = Some st' \<and> installed (Clean dest) fs st st'"
proof -
  have u: "unpack (Clean dest) Map.empty fs = (Ok (), coalesce ops)"
    using assms(1) by (cases "unpack (Clean dest) Map.empty fs") (auto simp: unpacks_to_def)
  have "Symlink x t \<notin> set ops" for x t
    using unpack_no_symlink [OF assms(2), of x t "Clean dest" Map.empty] by (simp add: u coalesce_symlink)
  then have "disk_run st ops = Some (file_run st ops)" by (rule disk_run_eq)
  then show ?thesis using unpack_installs [OF u assms(3) file_run_coalesce] by simp
qed


text \<open>Two names of one file, the first without contents, and an archive with them.\<close>

definition hard_file :: "string \<Rightarrow> bytes \<Rightarrow> archive_file" where
  "hard_file nm data = (sample_file nm data)\<lparr>af_nlink := 2\<rparr>"

definition hard_archive :: reader where
  "hard_archive = reader_of (archive_bytes [hard_file ''./a'' [], hard_file ''./b'' [1, 2, 3]] (sample_file TRAILER []))"

definition empty_disk :: os_state where
  "empty_disk = \<lparr>os_dir = Map.empty, os_inodes = (\<lambda>_. \<lparr>ino_regular = True, ino_nlink = 0, ino_data = []\<rparr>),
     os_next = 0, os_pos = (\<lambda>_. 0), os_stdout = []\<rparr>"

lemma hard_file_simps [simp]:
  "af_name (hard_file nm data) = nm" "af_data (hard_file nm data) = data" "af_kind (hard_file nm data) = 8"
  "af_nlink (hard_file nm data) = 2" "af_ino (hard_file nm data) = 7"
  by (simp_all add: hard_file_def sample_file_def af_kind_def)

lemma hard_file_ok: "length nm < 1000 \<Longrightarrow> length data < 1000 \<Longrightarrow> af_ok (hard_file nm data)"
  by (simp add: af_ok_def af_numbers_def sample_file_def hard_file_def)

lemma hard_file_length: "length (newc_bytes (hard_file nm data)) = length (newc_bytes (sample_file nm data))"
  by (simp add: newc_bytes_def length_newc_start sample_file_fields)


end
