(* ===== verification/Payload.thy ===== *)
theory Payload
  imports Rpmutils Extract
begin

text \<open>
  The payload of a package: the choice of the decompressor (\<^verbatim>\<open>uncompress.go\<close>), the reader
  that pairs the entries of the archive with the file list of the header (\<^verbatim>\<open>payload.go\<close>) and
  the methods of \<^verbatim>\<open>rpmutils.go\<close> that open a payload.

  The decompressors are parameters: each turns the stream of the compressed payload into
  another stream, or fails.
\<close>

section \<open>Decompression\<close>

text \<open>A stream, and whether it has a \<^verbatim>\<open>Close\<close> method.\<close>

record payload_stream =
  ps_reader :: reader
  ps_closer :: bool

record decompressors =
  dc_zstd :: "reader \<Rightarrow> payload_stream result"
  dc_gzip :: "reader \<Rightarrow> payload_stream result"
  dc_bzip2 :: "reader \<Rightarrow> payload_stream"
  dc_lzma :: "reader \<Rightarrow> payload_stream result"
  dc_xz :: "reader \<Rightarrow> payload_stream result"

text \<open>
  \<^verbatim>\<open>newZstdReader\<close> in its two builds: the C library's reader cannot fail to open; the Go
  library's decoder can, and is wrapped so that it has a \<^verbatim>\<open>Close\<close> method.
\<close>

definition newZstdReader_cgo :: "(reader \<Rightarrow> reader) \<Rightarrow> reader \<Rightarrow> payload_stream result" where
  "newZstdReader_cgo zstd_NewReader r = Ok \<lparr>ps_reader = zstd_NewReader r, ps_closer = True\<rparr>"

definition newZstdReader_nocgo :: "(reader \<Rightarrow> reader result) \<Rightarrow> reader \<Rightarrow> payload_stream result" where
  "newZstdReader_nocgo zstd_NewReader r =
     rbind (zstd_NewReader r) (\<lambda>decoder. Ok \<lparr>ps_reader = decoder, ps_closer = True\<rparr>)"

definition noCloseWrapper :: "reader \<Rightarrow> payload_stream" where
  "noCloseWrapper r = \<lparr>ps_reader = r, ps_closer = False\<rparr>"

text \<open>
  \<^verbatim>\<open>io.MultiReader(bytes.NewReader(b), r)\<close> for a non-empty \<open>b\<close>: the bytes \<open>b\<close>, without an
  error, and then the stream.
\<close>

definition splice_back :: "bytes \<Rightarrow> reader \<Rightarrow> reader" where
  "splice_back b r = r\<lparr>rd_chunks := b # rd_chunks r, rd_eager := rd_eager r \<and> rd_chunks r \<noteq> []\<rparr>"

definition check_format :: "RpmHeader \<Rightarrow> unit result" where
  "check_format hdr =
     (if Rpm_HasTag hdr PAYLOADFORMAT
      then rbind (Rpm_GetString hdr PAYLOADFORMAT) (\<lambda>val.
             if val \<noteq> ''cpio'' then Err (UnknownPayloadFormat val) else Ok ())
      else Ok ())"

definition find_compression :: "reader \<Rightarrow> RpmHeader \<Rightarrow> (string \<times> reader) result" where
  "find_compression r hdr =
     (if Rpm_HasTag hdr PAYLOADCOMPRESSOR
      then rbind (Rpm_GetString hdr PAYLOADCOMPRESSOR) (\<lambda>val. Ok (val, r))
      else (case reader_ReadFull r 2 of
              ((_, Some e), _) \<Rightarrow> Err (IOError e)
            | ((b, None), r1) \<Rightarrow>
                Ok (if b ! 0 = 0x1f \<and> b ! 1 = 0x8b then ''gzip'' else ''uncompressed'', splice_back b r1)))"

definition decompress :: "decompressors \<Rightarrow> string \<Rightarrow> reader \<Rightarrow> payload_stream result" where
  "decompress dc compression r =
     (if compression = ''zstd'' then dc_zstd dc r
      else if compression = ''gzip'' then dc_gzip dc r
      else if compression = ''bzip2'' then Ok (dc_bzip2 dc r)
      else if compression = ''lzma'' then dc_lzma dc r
      else if compression = ''xz'' then dc_xz dc r
      else if compression = ''uncompressed'' then Ok (noCloseWrapper r)
      else Err (UnknownCompression compression))"

definition uncompressRpmPayloadReader :: "decompressors \<Rightarrow> reader \<Rightarrow> RpmHeader \<Rightarrow> payload_stream result" where
  "uncompressRpmPayloadReader dc r hdr =
     rbind (check_format hdr) (\<lambda>_.
     rbind (find_compression r hdr) (\<lambda>(compression, r1). decompress dc compression r1))"

section \<open>The payload reader\<close>

record payloadReader =
  pr_closer :: bool                \<comment> \<open>whether the stream has a Close method\<close>
  pr_closed :: bool                \<comment> \<open>whether it has been called\<close>
  pr_cr :: Reader
  pr_files :: "fileInfo list"
  pr_fileMap :: "string \<Rightarrow> nat option"
  pr_isLink :: "bool list"
  pr_index :: int

text \<open>What the loop of \<^verbatim>\<open>newPayloadReader\<close> builds up.\<close>

record scan_state =
  sc_fileMap :: "string \<Rightarrow> nat option"
  sc_isLink :: "bool list"
  sc_fileSizes :: "int list"
  sc_lastInodes :: "64 word \<Rightarrow> nat option"

definition scan_file :: "nat \<Rightarrow> fileInfo \<Rightarrow> scan_state \<Rightarrow> scan_state" where
  "scan_file i fi sc =
     (let sc1 = sc\<lparr>sc_fileMap := (sc_fileMap sc)(name fi \<mapsto> i)\<rparr> in
      if fileType fi = S_ISREG then
        let sc2 = sc1\<lparr>sc_fileSizes := (sc_fileSizes sc1)[i := fi_Size fi]\<rparr>;
            ino = inode64 fi;
            sc3 = (case sc_lastInodes sc2 ino of
                     Some lastInode \<Rightarrow>
                       if ino \<noteq> 0
                       then sc2\<lparr>sc_isLink := (sc_isLink sc2)[lastInode := True],
                                sc_fileSizes := (sc_fileSizes sc2)[lastInode := 0]\<rparr>
                       else sc2
                   | None \<Rightarrow> sc2)
        in sc3\<lparr>sc_lastInodes := (sc_lastInodes sc3)(ino \<mapsto> i)\<rparr>
      else if fileType fi = S_ISLNK then
        sc1\<lparr>sc_fileSizes := (sc_fileSizes sc1)[i := int (length (linkName fi))]\<rparr>
      else sc1)"

primrec scan_files :: "nat \<Rightarrow> fileInfo list \<Rightarrow> scan_state \<Rightarrow> scan_state" where
  "scan_files i [] sc = sc"
| "scan_files i (fi # fis) sc = scan_files (Suc i) fis (scan_file i fi sc)"

definition scan_start :: "nat \<Rightarrow> scan_state" where
  "scan_start n =
     \<lparr>sc_fileMap = Map.empty, sc_isLink = replicate n False, sc_fileSizes = replicate n 0,
      sc_lastInodes = Map.empty\<rparr>"

definition newPayloadReader :: "payload_stream \<Rightarrow> fileInfo list \<Rightarrow> payloadReader" where
  "newPayloadReader r files =
     (let sc = scan_files 0 files (scan_start (length files)) in
      \<lparr>pr_closer = ps_closer r, pr_closed = False,
       pr_cr = NewReaderWithSizes (ps_reader r) (Some (sc_fileSizes sc)),
       pr_files = files, pr_fileMap = sc_fileMap sc, pr_isLink = sc_isLink sc, pr_index = 0\<rparr>)"

definition strip_dot :: "string \<Rightarrow> string" where
  "strip_dot nm = (if 1 < length nm \<and> nm ! 0 = CHR ''.'' \<and> nm ! 1 = CHR ''/'' then tl nm else nm)"

definition pr_Next :: "payloadReader \<Rightarrow> fileInfo result \<times> payloadReader" where
  "pr_Next pr =
     (case Reader_Next (pr_cr pr) of
        (Panic p, cr) \<Rightarrow> (Panic p, pr\<lparr>pr_cr := cr\<rparr>)
      | (Err e, cr) \<Rightarrow> (Err e, pr\<lparr>pr_cr := cr, pr_closed := (pr_closed pr \<or> pr_closer pr)\<rparr>)
      | (Ok hdr, cr) \<Rightarrow>
          (let pr1 = pr\<lparr>pr_cr := cr\<rparr>;
               found = (if ch_stripped hdr then Ok (ch_index hdr)
                        else (case pr_fileMap pr (strip_dot (ch_filename hdr)) of
                                None \<Rightarrow> Err (InvalidPayloadFile (strip_dot (ch_filename hdr)))
                              | Some i \<Rightarrow> Ok (int i)))
           in (case found of
                 Err e \<Rightarrow> (Err e, pr1)
               | Panic p \<Rightarrow> (Panic p, pr1)
               | Ok i \<Rightarrow>
                   if int (length (pr_files pr)) \<le> i then (Err InvalidPayloadIndex, pr1)
                   else (index (pr_files pr) i, pr1\<lparr>pr_index := i\<rparr>))))"

definition pr_Read :: "payloadReader \<Rightarrow> nat \<Rightarrow> (bytes \<times> io_err option) result \<times> payloadReader" where
  "pr_Read pr n = (case Reader_Read (pr_cr pr) n of (res, cr) \<Rightarrow> (res, pr\<lparr>pr_cr := cr\<rparr>))"

definition pr_IsLink :: "payloadReader \<Rightarrow> bool result" where
  "pr_IsLink pr = index (pr_isLink pr) (pr_index pr)"

section \<open>Opening the payload of a package\<close>

definition Rpm_PayloadReader :: "decompressors \<Rightarrow> Rpm \<Rightarrow> Reader result" where
  "Rpm_PayloadReader dc rpm =
     rbind (uncompressRpmPayloadReader dc (rpm_f rpm) (Header rpm)) (\<lambda>pld. Ok (NewReader (ps_reader pld)))"

definition PayloadReaderExtended :: "decompressors \<Rightarrow> Rpm \<Rightarrow> payloadReader result" where
  "PayloadReaderExtended dc rpm =
     rbind (uncompressRpmPayloadReader dc (rpm_f rpm) (Header rpm)) (\<lambda>pld.
     rbind (Rpm_GetFiles (Header rpm)) (\<lambda>files.
       Ok (newPayloadReader pld files)))"

text \<open>The result, the calls to the system, and whether the stream was closed.\<close>

definition ExpandPayload ::
  "decompressors \<Rightarrow> fs_env \<Rightarrow> Rpm \<Rightarrow> string \<Rightarrow> unit result option \<times> fs_op list \<times> bool" where
  "ExpandPayload dc os rpm dest =
     (case uncompressRpmPayloadReader dc (rpm_f rpm) (Header rpm) of
        Err e \<Rightarrow> (Some (Err e), [], False)
      | Panic p \<Rightarrow> (Some (Panic p), [], False)
      | Ok pld \<Rightarrow> (case Extract os (ps_reader pld) dest of (r, ops) \<Rightarrow> (r, ops, ps_closer pld)))"

section \<open>Links and sizes\<close>

text \<open>The last index below a bound with a property.\<close>

primrec last_such :: "(nat \<Rightarrow> bool) \<Rightarrow> nat \<Rightarrow> nat option" where
  "last_such P 0 = None"
| "last_such P (Suc k) = (if P k then Some k else last_such P k)"

lemma last_such_Some: "last_such P k = Some j \<longleftrightarrow> j < k \<and> P j \<and> (\<forall>i. j < i \<and> i < k \<longrightarrow> \<not> P i)"
  by (induction k) (auto simp: less_Suc_eq)

lemma last_such_None: "last_such P k = None \<longleftrightarrow> (\<forall>j < k. \<not> P j)"
  by (induction k) (auto simp: less_Suc_eq)

abbreviation is_reg :: "fileInfo \<Rightarrow> bool" where
  "is_reg fi \<equiv> fileType fi = S_ISREG"

text \<open>
  File \<open>i\<close> is linked, within the first \<open>k\<close> files, to a later one that carries the contents;
  and the number of bytes the archive has for it.
\<close>

definition linked :: "fileInfo list \<Rightarrow> nat \<Rightarrow> nat \<Rightarrow> bool" where
  "linked fis k i \<longleftrightarrow> is_reg (fis ! i) \<and> inode64 (fis ! i) \<noteq> 0
     \<and> (\<exists>j < k. i < j \<and> is_reg (fis ! j) \<and> inode64 (fis ! j) = inode64 (fis ! i))"

definition stored_size :: "fileInfo list \<Rightarrow> nat \<Rightarrow> nat \<Rightarrow> int" where
  "stored_size fis k i =
     (if k \<le> i then 0
      else if is_reg (fis ! i) then (if linked fis k i then 0 else fi_Size (fis ! i))
      else if fileType (fis ! i) = S_ISLNK then int (length (linkName (fis ! i)))
      else 0)"

definition scanned :: "fileInfo list \<Rightarrow> nat \<Rightarrow> scan_state" where
  "scanned fis k =
     \<lparr>sc_fileMap = (\<lambda>nm. last_such (\<lambda>j. name (fis ! j) = nm) k),
      sc_isLink = map (linked fis k) [0..<length fis],
      sc_fileSizes = map (stored_size fis k) [0..<length fis],
      sc_lastInodes = (\<lambda>ino. last_such (\<lambda>j. is_reg (fis ! j) \<and> inode64 (fis ! j) = ino) k)\<rparr>"

lemma linked_bound: "linked fis k i \<Longrightarrow> i < k"
  by (auto simp: linked_def)

lemma linked_Suc:
  "linked fis (Suc k) i \<longleftrightarrow> linked fis k i
     \<or> (is_reg (fis ! k) \<and> inode64 (fis ! k) \<noteq> 0
        \<and> last_such (\<lambda>j. is_reg (fis ! j) \<and> inode64 (fis ! j) = inode64 (fis ! k)) k = Some i)"
  (is "?L \<longleftrightarrow> ?R")
proof
  assume L: ?L
  show ?R
  proof (cases "linked fis k i")
    case False
    with L have i: "i < k" "is_reg (fis ! k)" "is_reg (fis ! i)" "inode64 (fis ! k) = inode64 (fis ! i)" "inode64 (fis ! i) \<noteq> 0"
      by (auto simp: linked_def less_Suc_eq)
    moreover have "\<not> (is_reg (fis ! j) \<and> inode64 (fis ! j) = inode64 (fis ! k))" if "i < j" "j < k" for j
      using False that i by (auto simp: linked_def)
    ultimately show ?thesis by (auto simp: last_such_Some)
  qed simp
qed (auto simp: linked_def last_such_Some intro: less_SucI)

lemma stored_size_Suc:
  assumes "i \<noteq> k"
  shows "stored_size fis (Suc k) i = (if linked fis (Suc k) i then 0 else stored_size fis k i)"
  using assms linked_bound [of fis "Suc k" i] by (auto simp: stored_size_def linked_Suc not_less_eq_eq linked_def)

lemma stored_size_at:
  "stored_size fis (Suc k) k =
     (if is_reg (fis ! k) then fi_Size (fis ! k)
      else if fileType (fis ! k) = S_ISLNK then int (length (linkName (fis ! k))) else 0)"
  "stored_size fis k k = 0"
  by (auto simp: stored_size_def linked_def)

lemma scan_file_scanned:
  assumes "k < length fis"
  shows "scan_file k (fis ! k) (scanned fis k) = scanned fis (Suc k)"
proof -
  let ?fi = "fis ! k" and ?l = "last_such (\<lambda>j. is_reg (fis ! j) \<and> inode64 (fis ! j) = inode64 (fis ! k)) k"
  have l: "l < k \<and> l < length fis" if "?l = Some l" for l using that assms by (simp add: last_such_Some)
  have links: "map (linked fis (Suc k)) [0..<length fis] =
      (case ?l of Some l \<Rightarrow> if is_reg ?fi \<and> inode64 ?fi \<noteq> 0 then (map (linked fis k) [0..<length fis])[l := True]
                            else map (linked fis k) [0..<length fis]
       | None \<Rightarrow> map (linked fis k) [0..<length fis])"
    by (rule nth_equalityI) (use l in \<open>auto simp: linked_Suc nth_list_update split: option.splits\<close>)
  have sizes: "map (stored_size fis (Suc k)) [0..<length fis] =
      (let s = (map (stored_size fis k) [0..<length fis])[k := stored_size fis (Suc k) k] in
       case ?l of Some l \<Rightarrow> if is_reg ?fi \<and> inode64 ?fi \<noteq> 0 then s[l := 0] else s | None \<Rightarrow> s)"
  proof (rule nth_equalityI)
    fix i assume "i < length (map (stored_size fis (Suc k)) [0..<length fis])"
    moreover have "stored_size fis k i = 0" if "linked fis k i" using that by (simp add: stored_size_def linked_def)
    ultimately show "map (stored_size fis (Suc k)) [0..<length fis] ! i =
      (let s = (map (stored_size fis k) [0..<length fis])[k := stored_size fis (Suc k) k] in
       case ?l of Some l \<Rightarrow> if is_reg ?fi \<and> inode64 ?fi \<noteq> 0 then s[l := 0] else s | None \<Rightarrow> s) ! i"
      using l by (cases "i = k") (auto simp: stored_size_Suc linked_Suc nth_list_update Let_def split: option.splits)
  qed (auto simp: Let_def split: option.splits)
  have same: "(map (stored_size fis k) [0..<length fis])[k := 0] = map (stored_size fis k) [0..<length fis]"
    using assms by (intro nth_equalityI) (auto simp: nth_list_update stored_size_at)
  show ?thesis
    unfolding scanned_def [of fis "Suc k"] links sizes
    by (auto simp: scan_file_def scanned_def stored_size_at same Let_def fun_eq_iff split: option.splits)
qed

lemma scan_files_scanned:
  "k \<le> length fis \<Longrightarrow> scan_files k (drop k fis) (scanned fis k) = scanned fis (length fis)"
proof (induction "length fis - k" arbitrary: k)
  case (Suc n)
  then have k: "k < length fis" by simp
  then have "drop k fis = fis ! k # drop (Suc k) fis" by (simp add: Cons_nth_drop_Suc)
  with Suc.hyps(1) [of "Suc k"] Suc.hyps(2) k show ?case by (simp add: scan_file_scanned)
qed simp

lemma newPayloadReader_eq:
  "newPayloadReader r fis =
     \<lparr>pr_closer = ps_closer r, pr_closed = False,
      pr_cr = NewReaderWithSizes (ps_reader r) (Some (map (stored_size fis (length fis)) [0..<length fis])),
      pr_files = fis, pr_fileMap = (\<lambda>nm. last_such (\<lambda>j. name (fis ! j) = nm) (length fis)),
      pr_isLink = map (linked fis (length fis)) [0..<length fis], pr_index = 0\<rparr>"
proof -
  have "scan_start (length fis) = scanned fis 0"
    by (auto simp: scan_start_def scanned_def linked_def stored_size_def intro!: nth_equalityI)
  then show ?thesis using scan_files_scanned [of 0 fis] by (simp add: newPayloadReader_def scanned_def Let_def)
qed

section \<open>Reading a payload\<close>

text \<open>The entries a payload is made of, and the position in the file list each of them belongs to.\<close>

datatype payload_entry = Plain archive_file | Stripped nat bytes

primrec entry_bytes :: "payload_entry \<Rightarrow> bytes" where
  "entry_bytes (Plain f) = newc_bytes f"
| "entry_bytes (Stripped i data) = stripped_bytes i data"

primrec entry_data :: "payload_entry \<Rightarrow> bytes" where
  "entry_data (Plain f) = af_data f"
| "entry_data (Stripped i data) = data"

text \<open>The path of an entry: an entry named \<^verbatim>\<open>./etc/motd\<close> belongs to the file \<^verbatim>\<open>/etc/motd\<close>.\<close>

definition entry_path :: "string \<Rightarrow> string" where
  "entry_path nm = (if take 2 nm = ''./'' then drop 1 nm else nm)"

lemma strip_dot_path: "strip_dot = entry_path"
proof
  show "strip_dot nm = entry_path nm" for nm
    by (cases nm rule: remdups_adj.cases) (auto simp: strip_dot_def entry_path_def)
qed

primrec entry_pos :: "fileInfo list \<Rightarrow> payload_entry \<Rightarrow> nat option" where
  "entry_pos fis (Plain f) = last_such (\<lambda>j. name (fis ! j) = entry_path (af_name f)) (length fis)"
| "entry_pos fis (Stripped i data) = (if i < length fis then Some i else None)"

primrec entry_ok :: "fileInfo list \<Rightarrow> payload_entry \<Rightarrow> bool" where
  "entry_ok fis (Plain f) \<longleftrightarrow> af_ok f \<and> af_name f \<noteq> TRAILER
     \<and> last_such (\<lambda>j. name (fis ! j) = entry_path (af_name f)) (length fis) \<noteq> None"
| "entry_ok fis (Stripped i data) \<longleftrightarrow> i < length fis \<and> i < 2 ^ 32
     \<and> stored_size fis (length fis) i = int (length data)"

text \<open>Reading a payload file by file, each of them to its end.\<close>

primrec read_payload :: "nat \<Rightarrow> payloadReader \<Rightarrow> (fileInfo \<times> bool result \<times> bytes) list \<times> go_error option" where
  "read_payload 0 pr = ([], Some (IOError ErrNoProgress))"
| "read_payload (Suc k) pr =
     (case pr_Next pr of
        (Ok fi, pr1) \<Rightarrow>
          (case r_cur (pr_cr pr1) of
             None \<Rightarrow> ([], None)
           | Some ent \<Rightarrow>
               (case Copy fs_Read fs_steps (ce_payload ent, cs_stream (r_stream (pr_cr pr1))) of
                  ((data, None), fs', cr') \<Rightarrow>
                    (case read_payload k (pr1\<lparr>pr_cr := \<lparr>r_stream = (r_stream (pr_cr pr1))\<lparr>cs_stream := cr'\<rparr>,
                             r_cur = Some (ent\<lparr>ce_payload := fs'\<rparr>)\<rparr>\<rparr>) of
                       (files, e) \<Rightarrow> ((fi, pr_IsLink pr1, data) # files, e))
                | ((data, Some e), _) \<Rightarrow> ([(fi, pr_IsLink pr1, data)], Some (IOError e))))
      | (Err e, pr1) \<Rightarrow> ([], Some e)
      | (Panic p, pr1) \<Rightarrow> ([], None))"

text \<open>A payload reader for the files \<open>fis\<close>, whose next entry is at position \<open>p\<close>.\<close>

definition payload_at :: "fileInfo list \<Rightarrow> nat \<Rightarrow> bytes \<Rightarrow> payloadReader \<Rightarrow> bool" where
  "payload_at fis p bs pr \<longleftrightarrow>
     reader_at p bs EOF (pr_cr pr)
     \<and> cs_sizes (r_stream (pr_cr pr)) = Some (map (stored_size fis (length fis)) [0..<length fis])
     \<and> pr_files pr = fis \<and> pr_fileMap pr = (\<lambda>nm. last_such (\<lambda>j. name (fis ! j) = nm) (length fis))
     \<and> pr_isLink pr = map (linked fis (length fis)) [0..<length fis]"

lemma newPayloadReader_at:
  "rd_fin (ps_reader r) = EOF \<Longrightarrow> payload_at fis 0 (reader_pending (ps_reader r)) (newPayloadReader r fis)"
  using NewReader_at [of "ps_reader r"]
  by (simp add: payload_at_def newPayloadReader_eq NewReaderWithSizes_def SetFileSizes_def)

lemma pr_Next_entry:
  assumes "payload_at fis p (entry_bytes e @ rest) pr" "entry_ok fis e" "p + length (entry_bytes e) < 2 ^ 62"
  shows "\<exists>i ent cs hdr. entry_pos fis e = Some i \<and> i < length fis
     \<and> pr_Next pr = (Ok (fis ! i), pr\<lparr>pr_cr := \<lparr>r_stream = cs, r_cur = Some ent\<rparr>, pr_index := int i\<rparr>)
     \<and> opened (p + length (entry_bytes e)) hdr (entry_data e) rest EOF ent cs
     \<and> cs_sizes cs = cs_sizes (r_stream (pr_cr pr))"
proof -
  have cs: "cs_at p (entry_bytes e @ rest) EOF (r_stream (pr_cr pr))"
    and sizes: "cs_sizes (r_stream (pr_cr pr)) = Some (map (stored_size fis (length fis)) [0..<length fis])"
    and pr: "pr_files pr = fis" "pr_fileMap pr = (\<lambda>nm. last_such (\<lambda>j. name (fis ! j) = nm) (length fis))"
    using assms(1) by (simp_all add: payload_at_def reader_at_def)
  show ?thesis
  proof (cases e)
    case (Plain f)
    from ReadNextEntry_opened [of p f rest EOF "r_stream (pr_cr pr)"] cs assms Plain obtain ent cs'
      where rn: "ReadNextEntry (r_stream (pr_cr pr)) = (Ok ent, cs')"
        and op: "opened (p + length (newc_bytes f)) (archive_header f) (af_data f) rest EOF ent cs'"
        and sz: "cs_sizes cs' = cs_sizes (r_stream (pr_cr pr))" by auto
    have hdr: "ch_filename (archive_header f) = af_name f" "\<not> ch_stripped (archive_header f)"
      by (simp_all add: archive_header_def newc_header_def)
    obtain i where i: "last_such (\<lambda>j. name (fis ! j) = entry_path (af_name f)) (length fis) = Some i" "i < length fis"
      using assms(2) Plain by (auto simp: last_such_Some)
    have "Reader_Next (pr_cr pr) = (Ok (archive_header f), \<lparr>r_stream = cs', r_cur = Some ent\<rparr>)"
      using rn opened_payload(7) [OF op] hdr assms(2) Plain by (simp add: Reader_Next_def)
    then have "pr_Next pr = (Ok (fis ! i), pr\<lparr>pr_cr := \<lparr>r_stream = cs', r_cur = Some ent\<rparr>, pr_index := int i\<rparr>)"
      using hdr pr i by (simp add: pr_Next_def Let_def index_def strip_dot_path)
    then show ?thesis using op sz i Plain by auto
  next
    case (Stripped i data)
    let ?hdr = "stripped_header (int i)"
    have ok: "i < length fis" "i < 2 ^ 32" "stored_size fis (length fis) i = int (length data)"
      using assms(2) Stripped by simp_all
    from ReadNextEntry_stripped_opened [of p i data rest EOF "r_stream (pr_cr pr)", OF _ _ _ sizes] cs assms(3) Stripped ok
    obtain ent cs' where rn: "ReadNextEntry (r_stream (pr_cr pr)) = (Ok ent, cs')"
        and op: "opened (p + length (stripped_bytes i data)) ?hdr data rest EOF ent cs'"
        and sz: "cs_sizes cs' = cs_sizes (r_stream (pr_cr pr))" by auto
    have hdr: "ch_filename ?hdr \<noteq> TRAILER" "ch_stripped ?hdr" "ch_index ?hdr = int i"
      by (simp_all add: stripped_header_def TRAILER_def)
    have "Reader_Next (pr_cr pr) = (Ok ?hdr, \<lparr>r_stream = cs', r_cur = Some ent\<rparr>)"
      using rn opened_payload(7) [OF op] hdr by (simp add: Reader_Next_def)
    then have "pr_Next pr = (Ok (fis ! i), pr\<lparr>pr_cr := \<lparr>r_stream = cs', r_cur = Some ent\<rparr>, pr_index := int i\<rparr>)"
      using hdr pr ok by (simp add: pr_Next_def Let_def index_def)
    then show ?thesis using op sz ok Stripped by auto
  qed
qed

lemma read_payload_at:
  assumes "payload_at fis p (concat (map entry_bytes es) @ newc_bytes trailer @ rest) pr" "list_all (entry_ok fis) es"
    and "af_ok trailer" "af_name trailer = TRAILER"
    and "p + length (concat (map entry_bytes es) @ newc_bytes trailer) < 2 ^ 62" "length es < k"
  shows "read_payload k pr =
     (map (\<lambda>e. let i = the (entry_pos fis e) in (fis ! i, Ok (linked fis (length fis) i), entry_data e)) es,
      Some (IOError EOF))"
  using assms
proof (induction es arbitrary: p pr k)
  case Nil
  then have "reader_at p (newc_bytes trailer @ rest) EOF (pr_cr pr)" "p + length (newc_bytes trailer) < 2 ^ 62"
    by (simp_all add: payload_at_def)
  from Reader_Next_newc [OF this(1) Nil.prems(3) this(2)] Nil.prems(4,6) show ?case by (cases k) (auto simp: pr_Next_def)
next
  case (Cons e es)
  let ?rest = "concat (map entry_bytes es) @ newc_bytes trailer @ rest" and ?q = "p + length (entry_bytes e)"
  have at: "payload_at fis p (entry_bytes e @ ?rest) pr" "entry_ok fis e" "?q < 2 ^ 62" using Cons.prems by simp_all
  obtain i ent cs hdr where i: "entry_pos fis e = Some i" "i < length fis"
      and nx: "pr_Next pr = (Ok (fis ! i), pr\<lparr>pr_cr := \<lparr>r_stream = cs, r_cur = Some ent\<rparr>, pr_index := int i\<rparr>)"
      and op: "opened ?q hdr (entry_data e) ?rest EOF ent cs" and sz: "cs_sizes cs = cs_sizes (r_stream (pr_cr pr))"
    using pr_Next_entry [OF at] by blast
  obtain fs' cr' where cp: "Copy fs_Read fs_steps (ce_payload ent, cs_stream cs) = ((entry_data e, None), fs', cr')"
      and r: "reader_at ?q ?rest EOF \<lparr>r_stream = cs\<lparr>cs_stream := cr'\<rparr>, r_cur = Some (ent\<lparr>ce_payload := fs'\<rparr>)\<rparr>"
    using copy_opened [OF op] by blast
  let ?pr = "pr\<lparr>pr_index := int i, pr_cr := \<lparr>r_stream = cs\<lparr>cs_stream := cr'\<rparr>, r_cur = Some (ent\<lparr>ce_payload := fs'\<rparr>)\<rparr>\<rparr>"
  have "payload_at fis ?q ?rest ?pr" using at(1) r sz by (simp add: payload_at_def)
  moreover obtain k' where k: "k = Suc k'" "length es < k'" using Cons.prems(6) by (cases k) auto
  moreover have "?q + length (concat (map entry_bytes es) @ newc_bytes trailer) < 2 ^ 62" using Cons.prems(5) by simp
  ultimately have "read_payload k' ?pr =
     (map (\<lambda>e. let i = the (entry_pos fis e) in (fis ! i, Ok (linked fis (length fis) i), entry_data e)) es,
      Some (IOError EOF))"
    using Cons.prems(2-4) by (intro Cons.IH [of ?q]) simp_all
  moreover have "pr_isLink pr = map (linked fis (length fis)) [0..<length fis]" using at(1) by (simp add: payload_at_def)
  ultimately show ?case using i by (simp add: k(1) nx cp pr_IsLink_def index_def)
qed

text \<open>Looking at the first two bytes leaves the stream as it was.\<close>

lemma find_compression_peek:
  assumes "\<not> Rpm_HasTag hdr PAYLOADCOMPRESSOR" "2 \<le> length (reader_pending r)"
  shows "\<exists>r1. find_compression r hdr
       = Ok (if take 2 (reader_pending r) = [0x1f, 0x8b] then ''gzip'' else ''uncompressed'', r1)
     \<and> reader_pending r1 = reader_pending r \<and> rd_fin r1 = rd_fin r
     \<and> (\<forall>B. cut_at B r \<longrightarrow> cut_at (insert (length (reader_pending r) - 2) B) r1)"
proof -
  let ?r = "splice_back (take 2 (reader_pending r)) (reader_after r 2)"
  have "cut_at B (reader_after r 2)" if "cut_at B r" for B
    unfolding reader_after_def reader_ReadFull_def
    by (rule ReadFull_keeps [where P = "cut_at B", OF reader_Read_cut_at that])
  moreover have "length (concat (rd_chunks (reader_after r 2))) = length (reader_pending r) - 2"
    using arg_cong [OF reader_after_simps(1) [of r 2], of length] by (simp add: reader_pending_def)
  moreover have "take 2 (reader_pending r) \<noteq> []" using assms(2) by auto
  ultimately have cut: "cut_at (insert (length (reader_pending r) - 2) B) ?r" if "cut_at B r" for B
    using that by (auto simp: cut_at_def splice_back_def)
  have same: "reader_pending ?r = reader_pending r" "rd_fin ?r = rd_fin r"
    using reader_after_simps [of r 2] by (simp_all add: splice_back_def reader_pending_def)
  obtain x y zs where b: "reader_pending r = x # y # zs"
    using assms(2) by (cases "reader_pending r" rule: remdups_adj.cases) auto
  show ?thesis
    by (rule exI [of _ ?r]) (use assms b same cut in \<open>simp add: find_compression_def reader_ReadFull_eq\<close>)
qed

text \<open>An archive is not taken for a gzip stream.\<close>

lemma newc_bytes_magic: "take 2 (newc_bytes f @ bs) \<noteq> [0x1f, 0x8b]" "2 \<le> length (newc_bytes f @ bs)"
proof -
  have "take 2 newcMagic \<noteq> [0x1f, 0x8b]" by code_simp
  then show "take 2 (newc_bytes f @ bs) \<noteq> [0x1f, 0x8b]" by (simp add: newc_bytes_def newc_start_def magics)
qed (simp add: newc_bytes_def length_newc_start)

section \<open>Properties\<close>

text \<open>
  C13.  Reading the payload of a package gives each file of its header its contents: when the
  decompressed payload consists of entries of either archive format (entries with a name, or
  the stripped ones that large packages have) and a trailer, the reader that
  \<open>PayloadReaderExtended\<close> returns yields for every entry, in order, the file of the header it
  belongs to, whether it is a hard link without contents, and exactly its contents, and then
  \<open>io.EOF\<close>, however the stream is fragmented.
\<close>

theorem PayloadReaderExtended_reads:
  assumes "uncompressRpmPayloadReader dc (rpm_f rpm) (Header rpm) = Ok pld" "Rpm_GetFiles (Header rpm) = Ok fis"
    and "reader_pending (ps_reader pld) = concat (map entry_bytes es) @ newc_bytes trailer @ rest"
    and "rd_fin (ps_reader pld) = EOF" "list_all (entry_ok fis) es" "af_ok trailer" "af_name trailer = TRAILER"
    and "length (concat (map entry_bytes es) @ newc_bytes trailer) < 2 ^ 62"
  shows "\<exists>pr. PayloadReaderExtended dc rpm = Ok pr \<and> read_payload (length es + 1) pr =
     (map (\<lambda>e. let i = the (entry_pos fis e) in (fis ! i, Ok (linked fis (length fis) i), entry_data e)) es,
      Some (IOError EOF))"
proof -
  have at: "payload_at fis 0 (concat (map entry_bytes es) @ newc_bytes trailer @ rest) (newPayloadReader pld fis)"
    using newPayloadReader_at [OF assms(4)] assms(3) by simp
  have "read_payload (length es + 1) (newPayloadReader pld fis) =
     (map (\<lambda>e. let i = the (entry_pos fis e) in (fis ! i, Ok (linked fis (length fis) i), entry_data e)) es,
      Some (IOError EOF))"
    by (rule read_payload_at [OF at assms(5-7)]) (use assms(8) in simp_all)
  then show ?thesis using assms(1,2) by (simp add: PayloadReaderExtended_def)
qed

definition payload_rpm :: Rpm where
  "payload_rpm =
     \<lparr>Header = \<lparr>lead = [], sigHeader = \<lparr>entries = [], isSource = False, orig = []\<rparr>, genHeader = file_header,
                rpmIsSource = False\<rparr>,
      rpm_f = reader_of (newc_bytes (sample_file ''./etc/motd'' [1, 2, 3]) @ newc_bytes (sample_file TRAILER []))\<rparr>"

definition motd :: fileInfo where
  "motd = \<lparr>name = ''/etc/motd'', fsize = 256, userName = ''root'', groupName = ''adm'', flags = 1, mtime = 2,
      digest = ''abcd'', mode = 0x81a4, linkName = '''', device = 0, inode = 7\<rparr>"

definition sample_dc :: decompressors where
  "sample_dc =
     \<lparr>dc_zstd = newZstdReader_cgo (\<lambda>r. r), dc_gzip = (\<lambda>r. Ok \<lparr>ps_reader = reader_after r 2, ps_closer = True\<rparr>),
      dc_bzip2 = noCloseWrapper, dc_lzma = (\<lambda>_. Err (DecompressError 1)), dc_xz = (\<lambda>_. Err (DecompressError 2))\<rparr>"

lemma payload_rpm_files: "Rpm_GetFiles (Header payload_rpm) = Ok [motd]"
  unfolding payload_rpm_def motd_def Rpm_GetFiles_def by simp code_simp

lemma payload_rpm_tags:
  "\<not> Rpm_HasTag (Header payload_rpm) PAYLOADFORMAT" "\<not> Rpm_HasTag (Header payload_rpm) PAYLOADCOMPRESSOR"
  by (simp_all add: payload_rpm_def Rpm_HasTag_def getHeader_def) code_simp+

theorem PayloadReaderExtended_reads_witness:
  "\<exists>pr. PayloadReaderExtended sample_dc payload_rpm = Ok pr
     \<and> read_payload 2 pr = ([(motd, Ok False, [1, 2, 3])], Some (IOError EOF))"
proof -
  let ?f = "sample_file ''./etc/motd'' [1, 2, 3]" and ?t = "sample_file TRAILER []"
  have pend: "reader_pending (rpm_f payload_rpm) = newc_bytes ?f @ newc_bytes ?t" "rd_fin (rpm_f payload_rpm) = EOF"
    by (simp_all add: payload_rpm_def)
  obtain r1 where r1: "find_compression (rpm_f payload_rpm) (Header payload_rpm) = Ok (''uncompressed'', r1)"
      "reader_pending r1 = newc_bytes ?f @ newc_bytes ?t" "rd_fin r1 = EOF"
    using find_compression_peek [OF payload_rpm_tags(2), of "rpm_f payload_rpm"] newc_bytes_magic [of ?f "newc_bytes ?t"] pend
    by auto
  have "uncompressRpmPayloadReader sample_dc (rpm_f payload_rpm) (Header payload_rpm) = Ok (noCloseWrapper r1)"
    using r1(1) payload_rpm_tags(1) by (simp add: uncompressRpmPayloadReader_def check_format_def decompress_def)
  then have "\<exists>pr. PayloadReaderExtended sample_dc payload_rpm = Ok pr \<and> read_payload (length [Plain ?f] + 1) pr =
     (map (\<lambda>e. let i = the (entry_pos [motd] e) in ([motd] ! i, Ok (linked [motd] (length [motd]) i), entry_data e)) [Plain ?f],
      Some (IOError EOF))"
  proof (rule PayloadReaderExtended_reads [OF _ payload_rpm_files, where trailer = ?t and rest = "[]"])
    show "length (concat (map entry_bytes [Plain ?f]) @ newc_bytes ?t) < 2 ^ 62"
      using sample_file_length [of "''./etc/motd''" "[1, 2, 3]"] sample_file_length [of TRAILER "[]"]
      by (simp add: TRAILER_def)
  qed (use r1 in \<open>simp_all add: noCloseWrapper_def sample_file_ok TRAILER_def sample_file_fields motd_def entry_path_def\<close>)
  moreover have "entry_pos [motd] (Plain ?f) = Some 0" "\<not> linked [motd] 1 0"
    by (simp_all add: sample_file_fields motd_def entry_path_def linked_def)
  ultimately show ?thesis by (simp add: sample_file_fields numeral_2_eq_2 del: read_payload.simps entry_pos.simps)
qed

text \<open>
  C32.  A file is reported as a hard link without contents exactly if it is a regular file with an
  inode number and a later regular file has the same device and inode; a later file with the
  same numbers that is not reported as a link carries the contents.  The sizes for stripped
  archives follow: nothing for such links, the recorded size for other regular files, the
  length of the target for symbolic links, and nothing for all other files.
\<close>

theorem newPayloadReader_links:
  assumes "i < length fis"
  shows "(pr_isLink (newPayloadReader r fis) ! i \<longleftrightarrow>
            is_reg (fis ! i) \<and> (device (fis ! i), inode (fis ! i)) \<noteq> (0, 0)
            \<and> (\<exists>j < length fis. i < j \<and> is_reg (fis ! j)
                 \<and> device (fis ! j) = device (fis ! i) \<and> inode (fis ! j) = inode (fis ! i)))
     \<and> (pr_isLink (newPayloadReader r fis) ! i \<longrightarrow>
            (\<exists>j < length fis. i < j \<and> is_reg (fis ! j) \<and> \<not> pr_isLink (newPayloadReader r fis) ! j
                 \<and> device (fis ! j) = device (fis ! i) \<and> inode (fis ! j) = inode (fis ! i)))
     \<and> (\<exists>sizes. cs_sizes (r_stream (pr_cr (newPayloadReader r fis))) = Some sizes \<and> length sizes = length fis
            \<and> sizes ! i = (if is_reg (fis ! i) then if pr_isLink (newPayloadReader r fis) ! i then 0 else fi_Size (fis ! i)
                           else if fileType (fis ! i) = S_ISLNK then int (length (linkName (fis ! i))) else 0))"
proof (intro conjI)
  note key = inode64_eq_iff
  have zero: "inode64 a = 0 \<longleftrightarrow> device a = 0 \<and> inode a = 0" for a
    using key [of a "a\<lparr>device := 0, inode := 0\<rparr>"] by (simp add: inode64_def)
  have link: "pr_isLink (newPayloadReader r fis) ! j \<longleftrightarrow> linked fis (length fis) j" if "j < length fis" for j
    using that by (simp add: newPayloadReader_eq)
  show "pr_isLink (newPayloadReader r fis) ! i \<longleftrightarrow>
      is_reg (fis ! i) \<and> (device (fis ! i), inode (fis ! i)) \<noteq> (0, 0)
      \<and> (\<exists>j < length fis. i < j \<and> is_reg (fis ! j)
           \<and> device (fis ! j) = device (fis ! i) \<and> inode (fis ! j) = inode (fis ! i))"
    unfolding link [OF assms] linked_def key zero by blast
  show "pr_isLink (newPayloadReader r fis) ! i \<longrightarrow>
      (\<exists>j < length fis. i < j \<and> is_reg (fis ! j) \<and> \<not> pr_isLink (newPayloadReader r fis) ! j
           \<and> device (fis ! j) = device (fis ! i) \<and> inode (fis ! j) = inode (fis ! i))"
  proof
    assume "pr_isLink (newPayloadReader r fis) ! i"
    then obtain j where j: "j < length fis" "i < j" "is_reg (fis ! j)" "inode64 (fis ! j) = inode64 (fis ! i)"
      unfolding link [OF assms] linked_def by blast
    let ?P = "\<lambda>j. is_reg (fis ! j) \<and> inode64 (fis ! j) = inode64 (fis ! i)"
    obtain l where l: "last_such ?P (length fis) = Some l"
      using j last_such_None [of ?P "length fis"] by (cases "last_such ?P (length fis)") auto
    then have "l < length fis" "?P l" "j \<le> l" "\<not> linked fis (length fis) l"
      using j by (auto simp: last_such_Some linked_def not_less [symmetric])
    with j link key show "\<exists>j < length fis. i < j \<and> is_reg (fis ! j) \<and> \<not> pr_isLink (newPayloadReader r fis) ! j
        \<and> device (fis ! j) = device (fis ! i) \<and> inode (fis ! j) = inode (fis ! i)"
      by (intro exI [of _ l]) auto
  qed
  show "\<exists>sizes. cs_sizes (r_stream (pr_cr (newPayloadReader r fis))) = Some sizes \<and> length sizes = length fis
      \<and> sizes ! i = (if is_reg (fis ! i) then if pr_isLink (newPayloadReader r fis) ! i then 0 else fi_Size (fis ! i)
                     else if fileType (fis ! i) = S_ISLNK then int (length (linkName (fis ! i))) else 0)"
    using assms by (simp add: link) (simp add: newPayloadReader_eq NewReaderWithSizes_def SetFileSizes_def stored_size_def)
qed

theorem newPayloadReader_links_witness:
  "(let fis = [motd, motd\<lparr>name := ''/etc/motd2''\<rparr>, motd\<lparr>mode := 0xA1FF, linkName := ''motd''\<rparr>];
        pr = newPayloadReader (noCloseWrapper (reader_of [])) fis
    in pr_isLink pr ! 0 \<and> \<not> pr_isLink pr ! 1
       \<and> (\<exists>sizes. cs_sizes (r_stream (pr_cr pr)) = Some sizes \<and> sizes ! 2 = 4))"
proof -
  let ?fis = "[motd, motd\<lparr>name := ''/etc/motd2''\<rparr>, motd\<lparr>mode := 0xA1FF, linkName := ''motd''\<rparr>]"
  let ?r = "noCloseWrapper (reader_of [])"
  have t: "fileType (?fis ! 0) = S_ISREG" "fileType (?fis ! 1) = S_ISREG" "fileType (?fis ! 2) = S_ISLNK"
    by (simp_all add: fileType_def motd_def)

  note n = newPayloadReader_links [of _ ?fis ?r]
  have "pr_isLink (newPayloadReader ?r ?fis) ! 0"
    using n [of 0] t by (auto simp: motd_def)
  moreover have "\<not> pr_isLink (newPayloadReader ?r ?fis) ! 1"
    using n [of 1] t by (auto simp: motd_def less_Suc_eq)
  moreover have "\<exists>sizes. cs_sizes (r_stream (pr_cr (newPayloadReader ?r ?fis))) = Some sizes \<and> sizes ! 2 = 4"
    using n [of 2] t by (auto simp: motd_def)
  ultimately show ?thesis by (simp add: Let_def)
qed

text \<open>
  Without a tag that names the compressor, looking at the start of the payload loses
  nothing: the chosen reader gets a stream with the same bytes and the same end, the gzip
  reader if the payload starts with the two bytes of the gzip format and the stream itself
  otherwise; a payload of fewer than two bytes is an error.
\<close>

theorem uncompress_detects_gzip:
  assumes "check_format hdr = Ok ()" "\<not> Rpm_HasTag hdr PAYLOADCOMPRESSOR"
  shows "if length (reader_pending r) < 2
         then uncompressRpmPayloadReader dc r hdr = Err (IOError (short_err (reader_pending r) (rd_fin r)))
         else (\<exists>r1. reader_pending r1 = reader_pending r \<and> rd_fin r1 = rd_fin r
                 \<and> uncompressRpmPayloadReader dc r hdr =
                     (if take 2 (reader_pending r) = [0x1f, 0x8b] then dc_gzip dc r1
                      else Ok \<lparr>ps_reader = r1, ps_closer = False\<rparr>))"
proof (cases "length (reader_pending r) < 2")
  case True
  then show ?thesis using assms by (simp add: uncompressRpmPayloadReader_def find_compression_def reader_ReadFull_eq)
next
  case False
  then obtain r1 where "find_compression r hdr = Ok (if take 2 (reader_pending r) = [0x1f, 0x8b] then ''gzip'' else ''uncompressed'', r1)"
      "reader_pending r1 = reader_pending r" "rd_fin r1 = rd_fin r"
    using find_compression_peek [OF assms(2)] by (meson not_less)
  then show ?thesis
    using False assms(1)
    by (auto simp: uncompressRpmPayloadReader_def decompress_def noCloseWrapper_def intro!: exI [of _ r1])
qed

theorem uncompress_detects_gzip_witness:
  "\<exists>r1. reader_pending r1 = [7]
     \<and> uncompressRpmPayloadReader sample_dc (reader_of [0x1f, 0x8b, 7]) (Header payload_rpm)
         = Ok \<lparr>ps_reader = r1, ps_closer = True\<rparr>"
proof -
  obtain r1 where "reader_pending r1 = [0x1f, 0x8b, 7]"
      "uncompressRpmPayloadReader sample_dc (reader_of [0x1f, 0x8b, 7]) (Header payload_rpm) = dc_gzip sample_dc r1"
    using uncompress_detects_gzip [OF _ payload_rpm_tags(2), of "reader_of [0x1f, 0x8b, 7]" sample_dc] payload_rpm_tags(1)
    by (auto simp: check_format_def)
  then show ?thesis by (intro exI [of _ "reader_after r1 2"]) (simp add: sample_dc_def)
qed

end
