(* ===== verification/Spec2Isabelle.thy ===== *)
theory Spec2Isabelle
  imports Signing Disk Payload
begin

text \<open>
  A model of \<^bold>\<open>go-rpmutils\<close>, a Go library that reads, inspects, verifies, signs and unpacks
  RPM packages.

  \<^bold>\<open>The program.\<close>  A package is a file with a lead of 96 bytes, a signature header, a general
  header and a payload, a cpio archive that is usually compressed.  \<^verbatim>\<open>rpmutils.go\<close> reads lead
  and headers (\<^verbatim>\<open>ReadHeader\<close>) with the header parser of \<^verbatim>\<open>header.go\<close>, whose accessors decode the
  tags; \<^verbatim>\<open>writeheader.go\<close> writes headers back.  \<^verbatim>\<open>verify*.go\<close> checks the digests and OpenPGP
  signatures of a package, \<^verbatim>\<open>signatures.go\<close> makes signatures and rewrites package files.
  \<^verbatim>\<open>uncompress.go\<close> chooses a decompressor for the payload, the package \<^verbatim>\<open>cpio\<close> reads and extracts
  archives, and \<^verbatim>\<open>payload.go\<close> pairs the entries of the archive with the file list of the header.
  \<^verbatim>\<open>nevra.go\<close>, \<^verbatim>\<open>vercmp.go\<close> and \<^verbatim>\<open>fileinfo.go\<close> hold package identities, version comparison and file
  attributes.

  \<^bold>\<open>Conventions.\<close>  A Go function that returns an error is a function to \<open>'a result\<close>: \<open>Ok\<close>, \<open>Err\<close> with
  one constructor of \<open>go_error\<close> per error the source creates, or \<open>Panic\<close> for an index, slice or
  allocation out of range, a nil dereference or an unavailable hash.  Operations that change
  state return the new state too, also when they fail (\<open>ebind\<close> composes them).  Integers that
  may wrap around are words or wrap explicitly (\<open>to_int64\<close>); \<^verbatim>\<open>int\<close> is the 64-bit one.
  Strings are \<open>string\<close>, byte slices \<open>bytes\<close>.  A Go map that is iterated is an association list in
  any order; one that is only looked up is a function to \<open>option\<close>.

  \<^bold>\<open>Theories.\<close>
  \<^item> \<open>Prelude\<close>: results, errors, byte and integer encodings, slices and the lemmas on them.
  \<^item> \<open>Go_IO\<close>: the interface \<^verbatim>\<open>io.Reader\<close> as the locale \<open>io_reader\<close> (extended by \<open>tracked_reader\<close> for
    readers that count or log), \<^verbatim>\<open>io.ReadFull\<close> and \<^verbatim>\<open>io.Copy\<close> as loops over any reader; the locale's
    lemmas say that they depend on the bytes and not on the pieces, and end.  It is
    interpreted on the stream behind a file (\<open>rd\<close>), on \<^verbatim>\<open>io.TeeReader\<close> (\<open>tee\<close>), on the counting reader
    of the cpio package (\<open>cr\<close>) and on the contents of an archive entry (\<open>fsr\<close>).
  \<^item> \<open>Go_OS\<close>: the calls of the package \<^verbatim>\<open>os\<close> that rewriting a file uses, on an explicit file
    system, and writers (locale \<open>total_writer\<close>).  \<open>Go_Path\<close>: \<^verbatim>\<open>Clean\<close>, \<^verbatim>\<open>Join\<close>, \<^verbatim>\<open>Dir\<close> and \<^verbatim>\<open>Base\<close>, with a
    characterisation of clean paths.
  \<^item> \<open>Tags\<close> (\<^verbatim>\<open>tags.go\<close>), \<open>Header\<close> (\<^verbatim>\<open>header.go\<close>): \<open>readHeader\<close> and the accessors.  Refinement to the
    reference parser \<open>parse_header\<close>, well-formedness of what is read, freedom from panics and its
    limits, the accessors as inverses of the encoding, and the types of their results.
  \<^item> \<open>Vercmp\<close> (\<^verbatim>\<open>vercmp.go\<close>), \<open>Metadata\<close> (\<^verbatim>\<open>nevra.go\<close>, \<^verbatim>\<open>fileinfo.go\<close>, \<^verbatim>\<open>filesigs.go\<close>, \<^verbatim>\<open>errors.go\<close>): comparison
    as a lexicographic order of segments (locales \<open>keyed_cmp\<close> and \<open>sortable\<close>), package identities,
    file lists.
  \<^item> \<open>Rpmutils\<close> (\<^verbatim>\<open>rpmutils.go\<close>): reading a package, and the accessors of \<^verbatim>\<open>RpmHeader\<close>.
  \<^item> \<open>WriteHeader\<close> (\<^verbatim>\<open>writeheader.go\<close>): writing headers, generic in the writer.  Round trip with the
    reader, alignment, sizes, independence of the order of a Go map.
  \<^item> \<open>Verify\<close> (\<^verbatim>\<open>verify.go\<close>, \<^verbatim>\<open>verify_digests.go\<close>, \<^verbatim>\<open>verify_v4.go\<close>, \<^verbatim>\<open>verify_v3.go\<close>, \<^verbatim>\<open>verify_nov3.go\<close>): what a
    successful verification implies, and exactly which packages it accepts.
  \<^item> \<open>Signing\<close> (\<^verbatim>\<open>signatures.go\<close>, \<^verbatim>\<open>fileutil\<close>): signing and rewriting; a signed package verifies, and
    what is left of the output file when writing fails.
  \<^item> \<open>Cpio\<close> (\<^verbatim>\<open>cpio/cpio.go\<close>, \<^verbatim>\<open>header.go\<close>, \<^verbatim>\<open>stream.go\<close>, \<^verbatim>\<open>reader.go\<close>): round trip with an encoder of the
    archive format, iteration after partial reads, stripped entries; \<open>Cpio_Progress\<close>: iteration
    ends on every stream.
  \<^item> \<open>Extract\<close> (\<^verbatim>\<open>cpio/extract.go\<close>): the system calls of extraction as a trace; they stay below the
    destination, and extraction ends.  \<open>Answers\<close>: on every system \<open>Extract\<close> makes the calls it would
    make if all were granted, up to the first that is not.  \<open>Unpack\<close>: an abstract specification of
    extraction (\<open>unpack\<close>) and the refinement of it by \<open>Extract\<close>, on any system and for streams
    none of whose pieces ends inside the target of a symbolic link (\<open>links_whole\<close>); otherwise extraction
    fails.  \<open>Calls\<close>: the protocol of the system
    calls as a step relation (\<open>call_step\<close>) with its runs (\<open>calls\<close>); every trace follows it and ends
    with the first call that fails.  \<open>Disk\<close>: the calls carried out on the file system of
    \<open>Go_OS\<close>, which has no symbolic links; what is on the disk after an extraction without them, hard
    links included.
  \<^item> \<open>Payload\<close> (\<^verbatim>\<open>payload.go\<close>, \<^verbatim>\<open>uncompress*.go\<close>): hard links, sizes and contents of the files of a
    payload.
  \<^item> This theory: from the bytes of a package file to the file system, also after signing.

  \<^bold>\<open>Fuel.\<close>  A stream (\<open>reader\<close>) has finitely many pieces, which may be empty; every \<^verbatim>\<open>Read\<close> that does not
  end it uses up a piece or a byte, so the loops of \<open>Go_IO\<close> get one more than pieces and bytes
  together as fuel, and their specifications show that it is never used up.  The loop of \<open>Extract\<close>
  gets one more than the number of bytes, and \<open>Extract_terminates\<close> shows that this is enough.  A stream that
  returns no bytes and no error for ever is not modelled.  Positions in a stream are
  unbounded; the theorems about archives ask for less than \<open>2 ^ 62\<close> bytes, so that the sums of
  positions and sizes, which do wrap in the model, stay exact.

  \<^bold>\<open>Parameters.\<close>  Hash functions (\<open>crypto_env\<close>), the OpenPGP package (\<open>pgp_env\<close>, with \<open>pgp_signs\<close> for the
  documented behaviour that a signature made with a key verifies with it, and \<open>key_known\<close> for
  a key list in which that key is the one found), the
  decompressors (\<open>decompressors\<close>), the failures and the temporary names of the file system
  (\<open>os_env\<close>), the answers of the system to extraction (\<open>fs_env\<close>; only one property
  assumes anything of them, that \<^verbatim>\<open>os.MkdirAll\<close> succeeds and \<^verbatim>\<open>os.Symlink\<close> refuses strings with NUL bytes) and the order of a
  Go map.

  \<^bold>\<open>Not modelled.\<close>  The texts of most error messages; the decompression algorithms, hash functions and
  the OpenPGP format; \<^verbatim>\<open>package sort\<close>, which is represented by its contract; file
  permissions and the effect of symbolic links inside the operating system; file names that are not
  Unix paths, so the extraction is that of the Unix build; the declarations of Go interfaces, whose
  contracts are locales or whose only implementation is modelled; and the command line
  examples and tests of the repository.
\<close>

section \<open>From a package file to the file system\<close>

text \<open>
  What is in front of the targets of symbolic links does not matter: neither where the pieces of the headers end
  nor that the first two bytes of the payload come back as a piece of their own.
\<close>

lemma targets_whole_Un: "targets_whole B fs tail \<Longrightarrow> targets_whole C fs tail \<Longrightarrow> targets_whole (B \<union> C) fs tail"
  by (induction fs) (auto simp: Let_def)

lemma targets_whole_start: "length (concat (map newc_bytes fs) @ tail) \<le> b + 6 \<Longrightarrow> targets_whole {b} fs tail"
proof (induction fs)
  case (Cons f fs)
  have "6 \<le> length (newc_start f)" by (simp add: newc_start_def magics)
  then show ?case using Cons by (simp add: newc_bytes_def [of f] Let_def)
qed simp

lemma links_whole_peeked:
  assumes "links_whole f fs tail" "\<And>B. cut_at B f \<Longrightarrow> cut_at (insert b B) r" "length (concat (map newc_bytes fs) @ tail) \<le> b + 6"
  shows "links_whole r fs tail"
proof (cases "\<forall>g \<in> set fs. af_kind g \<noteq> 10")
  case False
  let ?B = "set (cuts (rd_chunks f))"
  have "cut_at ?B f" "targets_whole ?B fs tail" using assms(1) False by (auto simp: links_whole_def cut_at_def)
  then have "cut_at (insert b ?B) r" "targets_whole ({b} \<union> ?B) fs tail"
    using assms(2) targets_whole_Un [OF targets_whole_start [OF assms(3)]] by auto
  then show ?thesis by (auto simp: links_whole_def cut_at_def intro: targets_whole_mono)
qed (rule no_links_whole)

lemma ExpandPayload_archive:
  assumes "check_format (Header rpm) = Ok ()" "\<not> Rpm_HasTag (Header rpm) PAYLOADCOMPRESSOR"
    and "reader_pending (rpm_f rpm) = archive_bytes fs trailer @ rest" "rd_fin (rpm_f rpm) = EOF"
    and "list_all af_ok (trailer # fs)" "\<forall>g \<in> set fs. af_name g \<noteq> TRAILER" "af_name trailer = TRAILER"
    and "length (archive_bytes fs trailer) < 2 ^ 62" "links_whole f fs (newc_bytes trailer @ rest)"
    and "\<And>B. cut_at B f \<Longrightarrow> cut_at B (rpm_f rpm)"
  shows "\<exists>r ops. ExpandPayload dc os rpm dest = (r, ops, False) \<and> unpacks_to os (r, ops) (unpack (Clean dest) Map.empty fs)"
proof -
  obtain g bs where "archive_bytes fs trailer @ rest = newc_bytes g @ bs"
    by (cases fs) (auto simp: archive_bytes_def)
  then obtain r1 where r1: "find_compression (rpm_f rpm) (Header rpm) = Ok (''uncompressed'', r1)"
      "reader_pending r1 = archive_bytes fs trailer @ rest" "rd_fin r1 = EOF"
      "\<And>B. cut_at B (rpm_f rpm) \<Longrightarrow> cut_at (insert (length (archive_bytes fs trailer @ rest) - 2) B) r1"
    using find_compression_peek [OF assms(2), of "rpm_f rpm"] newc_bytes_magic [of g bs] assms(3,4) by auto
  have "links_whole r1 fs (newc_bytes trailer @ rest)"
    by (rule links_whole_peeked [OF assms(9) r1(4) [OF assms(10)]]) (simp_all add: archive_bytes_def)
  from Extract_unpack [OF r1(2,3) assms(5-8) this]
  have "unpacks_to os (Extract os r1 dest) (unpack (Clean dest) Map.empty fs)" .
  moreover have "uncompressRpmPayloadReader dc (rpm_f rpm) (Header rpm) = Ok (noCloseWrapper r1)"
    using r1(1) assms(1) by (simp add: uncompressRpmPayloadReader_def decompress_def)
  ultimately show ?thesis by (cases "Extract os r1 dest") (simp add: ExpandPayload_def noCloseWrapper_def)
qed

text \<open>The payload of a package that has been read is what follows the headers.\<close>

lemma ReadRpm_payload:
  assumes "ReadRpm env f = Ok rpm"
  shows "reader_pending (rpm_f rpm) = drop (nat (End (GetRange (Header rpm)))) (reader_pending f)" "rd_fin (rpm_f rpm) = rd_fin f"
    "cut_at B f \<Longrightarrow> cut_at B (rpm_f rpm)"
proof -
  obtain hdr f1 where rh: "ReadHeader env f = Ok (hdr, f1)" and rpm: "rpm = \<lparr>Header = hdr, rpm_f = f1\<rparr>"
    using assms by (auto simp: ReadRpm_def result_simps)
  show "reader_pending (rpm_f rpm) = drop (nat (End (GetRange (Header rpm)))) (reader_pending f)" "rd_fin (rpm_f rpm) = rd_fin f"
    "cut_at B f \<Longrightarrow> cut_at B (rpm_f rpm)"
    using parse_rpm_Ok [OF ReadHeader_Ok [OF rh]] ReadHeader_fin [OF rh] ReadHeader_cut_at [OF rh]
    by (auto simp: rpm GetRange_def Let_def nat_add_distrib)
qed


definition archive_rpm :: reader where
  "archive_rpm = \<lparr>rd_chunks = [sample_lead @ sample_sig_area @ sample_area, reader_pending sample_archive],
     rd_fin = EOF, rd_eager = False\<rparr>"

lemma archive_rpm_ReadRpm:
  "\<exists>rpm. ReadRpm sample_env archive_rpm = Ok rpm \<and> Header rpm = sample_rpm_header"
proof -
  have "reader_pending archive_rpm = lead sample_rpm_header @ orig (sigHeader sample_rpm_header)
      @ orig (genHeader sample_rpm_header) @ reader_pending sample_archive"
    by (simp add: archive_rpm_def reader_pending_def sample_rpm_header_def sample_sig_header_def sample_header_def)
  then have "map_result (\<lambda>(h, r). (h, reader_pending r)) (ReadHeader sample_env archive_rpm)
      = Ok (sample_rpm_header, reader_pending sample_archive)"
    unfolding ReadHeader_parse_rpm by (simp add: parse_rpm_rest [OF ReadHeader_Ok [OF sample_ReadHeader]])
  then show ?thesis by (cases "ReadHeader sample_env archive_rpm") (auto simp: ReadRpm_def)
qed


section \<open>Signing a package does not change what it installs\<close>

lemma check_format_cong: "genHeader h = genHeader h' \<Longrightarrow> check_format h = check_format h'"
  by (simp add: check_format_def Rpm_HasTag_def Rpm_GetString_def Rpm_GetStrings_def getHeader_def)

lemma compressor_cong: "genHeader h = genHeader h' \<Longrightarrow> Rpm_HasTag h PAYLOADCOMPRESSOR = Rpm_HasTag h' PAYLOADCOMPRESSOR"
  by (simp add: Rpm_HasTag_def getHeader_def)

text \<open>
  C12.  A package signed by \<open>SignRpmFile\<close> is read and expanded as before.  The input has no tag
  \<^verbatim>\<open>PAYLOADCOMPRESSOR\<close> and an uncompressed archive as its payload, and no call of the rewriting fails.
  Then the file left at \<open>outpath\<close> is a package with the same general header, and, read in
  pieces none of which ends inside the target of a symbolic link of the archive, expanding it
  makes the system calls that the specification gives for the files of the archive that was
  in the input, or makes them up to the first that the system does not grant and returns its error.
\<close>

theorem SignRpmFile_ExpandPayload:
  assumes "SignRpmStream env pgp now stream key opts = Ok hdr" "reader_pending stream = package"
    and "dumpable hdr" "input_package src package hdr" "ino_data (os_inodes st (in_ino src)) = package"
    and "outpath \<noteq> ''-''" "\<And>i. os_dir st outpath = Some i \<Longrightarrow> ino_regular (os_inodes st i)"
    and "temp_free nm outpath st"
    and "check_format hdr = Ok ()" "\<not> Rpm_HasTag hdr PAYLOADCOMPRESSOR"
    and "drop (nat (End (GetRange hdr))) package = archive_bytes fs trailer @ rest"
    and "list_all af_ok (trailer # fs)" "\<forall>g \<in> set fs. af_name g \<noteq> TRAILER" "af_name trailer = TRAILER"
    and "length (archive_bytes fs trailer) < 2 ^ 62"
  shows "\<exists>hdr1 st' file. SignRpmFile env pgp now (os_ok nm) src stream outpath key opts st = ((Some hdr1, Ok ()), st')
     \<and> file_data st' outpath = Some file
     \<and> (\<forall>g. reader_pending g = file \<and> rd_fin g = EOF \<and> links_whole g fs (newc_bytes trailer @ rest) \<longrightarrow>
          (\<exists>rpm r ops. ReadRpm env g = Ok rpm \<and> genHeader (Header rpm) = genHeader hdr
             \<and> ExpandPayload dc os rpm dest = (r, ops, False)
             \<and> unpacks_to os (r, ops) (unpack (Clean dest) Map.empty fs)))"
proof -
  obtain s bs hdr0 hdr1 st' where d: "DumpSignatureHeader hdr s = Ok (bs, hdr0)"
      and w: "rewriteRpm (os_ok nm) src outpath hdr st = (Ok (), hdr1, st')"
      and out: "file_data st' outpath = Some (rewritten hdr bs package)"
    using rewriteRpm_ok [OF assms(3,6,4,8,7,5)] by blast
  obtain h0 f2 sigPgp sigRsa where o: "ReadHeader env stream = Ok (h0, f2)" "rd_fin f2 = EOF"
    and hdr: "hdr = h0\<lparr>sigHeader := insertSignatures (sigHeader h0) sigPgp sigRsa\<rparr>"
    using assms(1) unfolding SignRpmStream_Ok_iff by blast
  have "End (GetRange hdr) = End (GetRange h0)" by (simp add: GetRange_def hdr insertSignatures_def insertSignature_def Let_def)
  then have payload: "reader_pending f2 = archive_bytes fs trailer @ rest"
    using ReadRpm_payload(1) [of env stream "\<lparr>Header = h0, rpm_f = f2\<rparr>"] o(1) assms(2,11) by (simp add: ReadRpm_def)
  have "\<exists>rpm r ops. ReadRpm env g = Ok rpm \<and> genHeader (Header rpm) = genHeader hdr
      \<and> ExpandPayload dc os rpm dest = (r, ops, False) \<and> unpacks_to os (r, ops) (unpack (Clean dest) Map.empty fs)"
    if g: "reader_pending g = rewritten hdr bs package" "rd_fin g = EOF" "links_whole g fs (newc_bytes trailer @ rest)" for g
  proof -
    have "rd_fin g = rd_fin stream" using g(2) o ReadHeader_fin [OF o(1)] by simp
    with signed_dump_ReadHeader [OF o(1) hdr assms(3) d, of g] g(1) assms(2) obtain hdr2 g'
      where r: "ReadHeader env g = Ok (hdr2, g')" "genHeader hdr2 = genHeader h0" "reader_pending g' = reader_pending f2"
        "rd_fin g' = rd_fin stream" by auto
    have gen: "genHeader hdr2 = genHeader hdr" using r(2) hdr by simp
    let ?rpm = "\<lparr>Header = hdr2, rpm_f = g'\<rparr>"
    have "\<exists>r ops. ExpandPayload dc os ?rpm dest = (r, ops, False) \<and> unpacks_to os (r, ops) (unpack (Clean dest) Map.empty fs)"
      by (rule ExpandPayload_archive [OF _ _ _ _ assms(12-15) g(3)])
         (use assms(9,10) check_format_cong [OF gen] compressor_cong [OF gen] payload r(3,4) o ReadHeader_fin [OF o(1)]
            ReadHeader_cut_at [OF r(1)] in simp_all)
    then show ?thesis using r(1) gen by (intro exI [of _ ?rpm]) (simp add: ReadRpm_def)
  qed
  with w out show ?thesis using assms(1) by (simp add: SignRpmFile_def)
qed

text \<open>
  A signed package with an archive in it.  The padding behind the archive gives it the digests of the
  package \<open>signed_rpm\<close>, so that the signatures are the same.
\<close>

definition padded_archive :: bytes where
  "padded_archive =
     (let bs = archive_bytes [sample_file ''./a'' [1, 2, 3]] (sample_file TRAILER []) in
      bs @ foldr (XOR) bs 0 # replicate 14 0)"

definition signed_archive_rpm :: reader where
  "signed_archive_rpm = reader_of (sample_lead @ signed_sig_area @ sample_area @ padded_archive)"

definition archive_infile :: infile where
  "archive_infile = \<lparr>in_ino = 1, in_Seek = (\<lambda>n. Ok (reader_of (drop n (reader_pending signed_archive_rpm))))\<rparr>"

lemma padded_archive_hash: "hash_sum sample_env alg (xs @ padded_archive) = hash_sum sample_env alg (xs @ [1, 2, 3])"
proof -
  have xor: "foldr (XOR) bs w = foldr (XOR) bs 0 XOR w" for bs and w :: "8 word"
    by (induction bs) (simp_all add: xor.assoc)
  have zeros: "((XOR) 0 ^^ n) w = w" for n and w :: "8 word" by (induction n) simp_all
  have "foldr (XOR) padded_archive w = w" for w
    by (simp add: padded_archive_def Let_def zeros xor [of _ "_ XOR _"] xor [of _ w] xor.assoc [symmetric])
  moreover have "length padded_archive = 259"
    by (simp add: padded_archive_def Let_def archive_bytes_def newc_bytes_def length_newc_start sample_file_fields TRAILER_def
        zeros_to_4_def)
  moreover have "1 XOR (2 XOR (3 XOR w)) = w" for w :: "8 word" by (simp add: xor.assoc [symmetric])
  ultimately show ?thesis by (simp add: sample_env_def)
qed

lemma signed_archive_ReadHeader:
  "\<exists>f2. ReadHeader sample_env signed_archive_rpm = Ok (signed_rpm_header, f2) \<and> reader_pending f2 = padded_archive \<and> rd_fin f2 = EOF"
proof -
  have "reader_pending signed_archive_rpm = lead signed_rpm_header @ orig (sigHeader signed_rpm_header)
      @ orig (genHeader signed_rpm_header) @ padded_archive"
    by (simp add: signed_archive_rpm_def signed_rpm_header_def sample_header_def)
  then have "map_result (\<lambda>(h, r). (h, reader_pending r)) (ReadHeader sample_env signed_archive_rpm)
      = Ok (signed_rpm_header, padded_archive)"
    unfolding ReadHeader_parse_rpm by (simp add: parse_rpm_rest [OF ReadHeader_Ok [OF signed_rpm_ReadHeader]])
  then obtain f2 where "ReadHeader sample_env signed_archive_rpm = Ok (signed_rpm_header, f2)" "reader_pending f2 = padded_archive"
    by (cases "ReadHeader sample_env signed_archive_rpm") auto
  then show ?thesis using ReadHeader_fin [of sample_env signed_archive_rpm] by (auto simp: signed_archive_rpm_def)
qed

lemma signed_archive_sign:
  "SignRpmStream sample_env sample_pgp (0, 0) signed_archive_rpm sample_private_key None = Ok signed_rpm_header"
proof -
  let ?p = "[7, 5, 0x93, 0x38] :: bytes" and ?r = "[7, 5, 0x93, 0x3b] :: bytes"
  obtain f2 where f2: "ReadHeader sample_env signed_archive_rpm = Ok (signed_rpm_header, f2)"
      "reader_pending f2 = padded_archive" "rd_fin f2 = EOF"
    using signed_archive_ReadHeader by blast
  note hash = padded_archive_hash [of _ "[]", unfolded append_Nil] padded_archive_hash
  have "makeSignature sample_pgp \<lparr>hs_alg = 5, hs_data = xs @ padded_archive\<rparr> sample_private_key None 0
      = makeSignature sample_pgp \<lparr>hs_alg = 5, hs_data = xs @ [1, 2, 3]\<rparr> sample_private_key None 0" for xs
    by (simp add: makeSignature_def sample_pgp_def hash_Sum_def padded_archive_hash Let_def)
  moreover have "payload_digest_ok sample_env sigh gen padded_archive = payload_digest_ok sample_env sigh gen [1, 2, 3]" for sigh gen
    by (simp add: payload_digest_ok_def hash cong: result.case_cong)
  moreover have "makeSignature sample_pgp \<lparr>hs_alg = 5, hs_data = orig sample_header @ [1, 2, 3]\<rparr> sample_private_key None 0 = Ok ?p"
    "makeSignature sample_pgp \<lparr>hs_alg = 5, hs_data = orig sample_header\<rparr> sample_private_key None 0 = Ok ?r"
    "signed_rpm_header = signed_rpm_header\<lparr>sigHeader := insertSignatures (sigHeader signed_rpm_header) ?p ?r\<rparr>"
    "genHeader signed_rpm_header = sample_header"
    "payload_digest_ok sample_env (sigHeader signed_rpm_header) sample_header [1, 2, 3]" "hash_available sample_env 5"
    by code_simp+
  ultimately show ?thesis
    unfolding SignRpmStream_Ok_iff
    by (intro exI [of _ signed_rpm_header] exI [of _ f2] exI [of _ ?p] exI [of _ ?r])
       (simp add: f2 opts_hash_def)
qed

theorem SignRpmFile_ExpandPayload_witness:
  "\<exists>hdr1 st' file rpm ops closed.
     SignRpmFile sample_env sample_pgp (0, 0) (os_ok (\<lambda>st d b. b @ ''.tmp'')) archive_infile signed_archive_rpm ''a.rpm''
       sample_private_key None (sample_os\<lparr>os_inodes := (\<lambda>_. \<lparr>ino_regular = True, ino_nlink = 1,
          ino_data = reader_pending signed_archive_rpm\<rparr>)\<rparr>) = ((Some hdr1, Ok ()), st')
     \<and> file_data st' ''a.rpm'' = Some file \<and> ReadRpm sample_env (reader_of file) = Ok rpm
     \<and> ExpandPayload sample_dc (\<lambda>_ _. None) rpm ''/d'' = (Some (Ok ()), ops, closed)
     \<and> coalesce ops = [MkdirAll ''/d'', CreateFile ''/d/a'', WriteFile ''/d/a'' [1, 2, 3], CloseFile ''/d/a'']"
proof -
  let ?a = "sample_file ''./a'' [1, 2, 3]" and ?t = "sample_file TRAILER []"
  let ?st = "sample_os\<lparr>os_inodes := (\<lambda>_. \<lparr>ino_regular = True, ino_nlink = 1, ino_data = reader_pending signed_archive_rpm\<rparr>)\<rparr>"
  have free: "temp_free (\<lambda>st d b. b @ ''.tmp'') ''a.rpm'' ?st" by (simp add: temp_free_def sample_os_def Base_def)
  have lead: "lead signed_rpm_header = sample_lead" "length sample_lead = 96" by code_simp+
  have input: "input_package archive_infile (reader_pending signed_archive_rpm) signed_rpm_header"
    using lead by (auto simp: input_package_def archive_infile_def signed_archive_rpm_def)
  have stop: "nat (End (GetRange signed_rpm_header)) = length (sample_lead @ signed_sig_area @ sample_area)" by code_simp
  have tags: "check_format signed_rpm_header = Ok ()" "\<not> Rpm_HasTag signed_rpm_header PAYLOADCOMPRESSOR" by code_simp+
  let ?rest = "foldr (XOR) (archive_bytes [?a] ?t) 0 # replicate 14 0"
  have payload: "drop (nat (End (GetRange signed_rpm_header))) (reader_pending signed_archive_rpm) = archive_bytes [?a] ?t @ ?rest"
    unfolding stop by (simp add: signed_archive_rpm_def padded_archive_def Let_def)
  have ok: "list_all af_ok (?t # [?a])" by (simp add: sample_file_ok TRAILER_def)
  have names: "\<forall>g \<in> set [?a]. af_name g \<noteq> TRAILER" "af_name ?t = TRAILER"
    by (simp_all add: sample_file_fields TRAILER_def)
  have small: "length (archive_bytes [?a] ?t) < 2 ^ 62" using sample_archive_small by (simp add: archive_bytes_def)
  have "\<exists>hdr1 st' file.
      SignRpmFile sample_env sample_pgp (0, 0) (os_ok (\<lambda>st d b. b @ ''.tmp'')) archive_infile signed_archive_rpm ''a.rpm''
        sample_private_key None ?st = ((Some hdr1, Ok ()), st')
      \<and> file_data st' ''a.rpm'' = Some file
      \<and> (\<forall>g. reader_pending g = file \<and> rd_fin g = EOF \<and> links_whole g [?a] (newc_bytes ?t @ ?rest) \<longrightarrow>
           (\<exists>rpm r ops. ReadRpm sample_env g = Ok rpm \<and> genHeader (Header rpm) = genHeader signed_rpm_header
              \<and> ExpandPayload sample_dc (\<lambda>_ _. None) rpm ''/d'' = (r, ops, False)
              \<and> unpacks_to (\<lambda>_ _. None) (r, ops) (unpack (Clean ''/d'') Map.empty [?a])))"
    by (rule SignRpmFile_ExpandPayload [OF signed_archive_sign refl signed_rpm_dumpable input _ _ _ free tags payload ok names small])
       simp_all
  moreover have "links_whole g [?a] tail" for g tail by (simp add: no_links_whole sample_kind)
  ultimately obtain hdr1 st' out rpm r ops where *: "SignRpmFile sample_env sample_pgp (0, 0) (os_ok (\<lambda>st d b. b @ ''.tmp'')) archive_infile
        signed_archive_rpm ''a.rpm'' sample_private_key None ?st = ((Some hdr1, Ok ()), st')"
      "file_data st' ''a.rpm'' = Some out" "ReadRpm sample_env (reader_of out) = Ok rpm"
      "ExpandPayload sample_dc (\<lambda>_ _. None) rpm ''/d'' = (r, ops, False)"
      "unpacks_to (\<lambda>_ _. None) (r, ops) (unpack (Clean ''/d'') Map.empty [?a])"
    by (metis reader_of_simps)
  have "unpack (Clean ''/d'') Map.empty [?a]
      = (Ok (), [MkdirAll ''/d'', CreateFile ''/d/a'', WriteFile ''/d/a'' [1, 2, 3], CloseFile ''/d/a''])"
    by (simp add: sample_targets unpack_file_def sample_kind sample_file_fields put_file_def)
  with * show ?thesis by (auto simp: unpacks_to_def never_refused)
qed

end
